(* ===== verification/Prelude.thy ===== *)
theory Prelude
  imports Main "HOL-Library.Word"
begin

text \<open>
  Shared vocabulary of the development.

  A kernel routine either returns or panics. The kernel is built in the \<open>dev\<close> profile (the
  Makefile runs \<open>target/.../debug/kernel\<close>), so an arithmetic overflow, an index out of range
  and a failed \<open>debug_assert!\<close> are panics too. \<open>outcome\<close> is the result of a routine that may
  panic and \<open>bnd\<close> its sequencing: the panic of the first part is the panic of the whole.
  Memory accesses that are undefined behaviour in Rust (an unchecked slice access out of range)
  are panics of the model, so that a proof that a routine returns shows their absence.
\<close>

datatype 'a outcome = Ret 'a | Panic string

primrec bnd :: "'a outcome \<Rightarrow> ('a \<Rightarrow> 'b outcome) \<Rightarrow> 'b outcome" where
  "bnd (Ret x) f = f x"
| "bnd (Panic e) f = Panic e"

text \<open>Rust's checked operations on \<open>usize\<close>, with the panic of the \<open>dev\<close> profile.\<close>

definition usize_lim :: nat where
  "usize_lim = 2 ^ 64"

definition usub :: "nat \<Rightarrow> nat \<Rightarrow> nat outcome" where
  "usub a b = (if b \<le> a then Ret (a - b) else Panic ''attempt to subtract with overflow'')"

definition uadd :: "nat \<Rightarrow> nat \<Rightarrow> nat outcome" where
  "uadd a b = (if a + b < usize_lim then Ret (a + b) else Panic ''attempt to add with overflow'')"

definition umul :: "nat \<Rightarrow> nat \<Rightarrow> nat outcome" where
  "umul a b = (if a * b < usize_lim then Ret (a * b) else Panic ''attempt to multiply with overflow'')"

definition udiv :: "nat \<Rightarrow> nat \<Rightarrow> nat outcome" where
  "udiv a b = (if b = 0 then Panic ''attempt to divide by zero'' else Ret (a div b))"

definition umod :: "nat \<Rightarrow> nat \<Rightarrow> nat outcome" where
  "umod a b = (if b = 0
     then Panic ''attempt to calculate the remainder with a divisor of zero'' else Ret (a mod b))"

definition ushl1 :: "nat \<Rightarrow> nat outcome" where
  "ushl1 k = (if k < 64 then Ret (2 ^ k) else Panic ''attempt to shift left with overflow'')"

text \<open>Rust's \<open>usize::trailing_zeros\<close> and \<open>usize::next_power_of_two\<close> of the core library.\<close>

fun trailing_zeros :: "nat \<Rightarrow> nat" where
  "trailing_zeros n =
     (if n = 0 then 64 else if odd n then 0 else Suc (trailing_zeros (n div 2)))"

fun bit_len :: "nat \<Rightarrow> nat" where
  "bit_len n = (if n = 0 then 0 else Suc (bit_len (n div 2)))"

definition next_power_of_two :: "nat \<Rightarrow> nat" where
  "next_power_of_two n = (if n \<le> 1 then 1 else 2 ^ bit_len (n - 1))"

definition is_power_of_two :: "nat \<Rightarrow> bool" where
  "is_power_of_two n \<longleftrightarrow> n \<noteq> 0 \<and> next_power_of_two n = n"

text \<open>
  The interface of the crate \<open>bit_field\<close>, which is not part of the repository: its operations
  are a parameter \<open>bf\<close> of the definitions that use them, and \<open>bit_field\<close> is what the kernel
  relies on: \<open>get_bit\<close> reads one bit and \<open>set_bit\<close> replaces one bit.
\<close>

record 'a bitops =
  get_bit_op :: "'a \<Rightarrow> nat \<Rightarrow> bool"
  set_bit_op :: "'a \<Rightarrow> nat \<Rightarrow> bool \<Rightarrow> 'a"

locale bit_field =
  fixes bf :: "'w::len word bitops"
  assumes get_bit_spec: "i < LENGTH('w) \<Longrightarrow> get_bit_op bf x i = bit x i"
    and set_bit_spec: "i < LENGTH('w) \<Longrightarrow> j < LENGTH('w) \<Longrightarrow>
      bit (set_bit_op bf x i v) j = (if j = i then v else bit x j)"
begin

lemma get_set_bit:
  "i < LENGTH('w) \<Longrightarrow> j < LENGTH('w) \<Longrightarrow>
   get_bit_op bf (set_bit_op bf x i v) j = (if j = i then v else get_bit_op bf x j)"
  by (simp add: get_bit_spec set_bit_spec)

end

definition std_bitops :: "'w::len word bitops" where
  "std_bitops = \<lparr>get_bit_op = bit, set_bit_op = (\<lambda>x i v. if v then set_bit i x else unset_bit i x)\<rparr>"

interpretation std_bit: bit_field std_bitops
  by unfold_locales (auto simp: std_bitops_def bit_set_bit_iff bit_unset_bit_iff)

text \<open>Reading an updated list, also out of range, where an update has no effect.\<close>

lemma nth_upd: "xs[i := v] ! j = (if j = i \<and> i < length xs then v else xs ! j)"
  by (cases "i < length xs") (auto simp: nth_list_update list_update_beyond)

named_theorems outcome_simps \<open>equations of the panic monad\<close>

lemma bnd_eq_Ret [outcome_simps]: "bnd m f = Ret y \<longleftrightarrow> (\<exists>x. m = Ret x \<and> f x = Ret y)"
  by (cases m) auto

lemma bnd_eq_Panic: "bnd m f = Panic e \<longleftrightarrow> m = Panic e \<or> (\<exists>x. m = Ret x \<and> f x = Panic e)"
  by (cases m) auto

lemma bnd_assoc: "bnd (bnd m f) g = bnd m (\<lambda>x. bnd (f x) g)"
  by (cases m) auto

lemma bnd_cong [fundef_cong]:
  "m = m' \<Longrightarrow> (\<And>x. m' = Ret x \<Longrightarrow> f x = f' x) \<Longrightarrow> bnd m f = bnd m' f'"
  by (cases m') auto

lemma usub_eq_Ret [outcome_simps]: "usub a b = Ret c \<longleftrightarrow> b \<le> a \<and> c = a - b"
  by (auto simp: usub_def)

lemma usub_Ret [simp]: "b \<le> a \<Longrightarrow> usub a b = Ret (a - b)"
  by (simp add: usub_def)

lemma uadd_Ret: "a + b < usize_lim \<Longrightarrow> uadd a b = Ret (a + b)"
  by (simp add: uadd_def)

lemma umul_Ret: "a * b < usize_lim \<Longrightarrow> umul a b = Ret (a * b)"
  by (simp add: umul_def)

lemma udiv_Ret [simp]: "0 < b \<Longrightarrow> udiv a b = Ret (a div b)"
  by (simp add: udiv_def)

lemma umod_Ret [simp]: "0 < b \<Longrightarrow> umod a b = Ret (a mod b)"
  by (simp add: umod_def)

lemma ushl1_Ret: "k < 64 \<Longrightarrow> ushl1 k = Ret (2 ^ k)"
  by (simp add: ushl1_def)

declare trailing_zeros.simps [simp del] bit_len.simps [simp del]

lemma trailing_zeros_pow2: "trailing_zeros (2 ^ n) = n"
  by (induction n) (subst trailing_zeros.simps, simp)+

lemma bit_len_bound: "n < 2 ^ bit_len n"
proof (induction n rule: bit_len.induct)
  case (1 n)
  show ?case
  proof (cases "n = 0")
    case False
    with "1" have "n div 2 < 2 ^ bit_len (n div 2)" by simp
    then have "n < 2 * 2 ^ bit_len (n div 2)" by linarith
    with False show ?thesis by (subst bit_len.simps) simp
  qed (simp add: bit_len.simps)
qed

lemma bit_len_least: "n \<noteq> 0 \<Longrightarrow> 2 ^ (bit_len n - 1) \<le> n"
proof (induction n rule: bit_len.induct)
  case (1 n)
  show ?case
  proof (cases "n div 2 = 0")
    case True
    with "1.prems" show ?thesis
      by (subst bit_len.simps) (simp add: bit_len.simps)
  next
    case False
    with "1" have le: "2 ^ (bit_len (n div 2) - 1) \<le> n div 2" by simp
    from False have "0 < bit_len (n div 2)" by (subst bit_len.simps) simp
    then have "2 ^ bit_len (n div 2) = 2 * (2::nat) ^ (bit_len (n div 2) - 1)"
      by (simp flip: power_Suc)
    also have "\<dots> \<le> n" using le by linarith
    finally show ?thesis using "1.prems" by (subst bit_len.simps) simp
  qed
qed

lemma next_power_of_two_ge: "n \<le> next_power_of_two n"
  using bit_len_bound [of "n - 1"] by (auto simp: next_power_of_two_def)

lemma bit_len_pow2: "bit_len (2 ^ a - 1) = a"
proof (rule antisym)
  have "2 ^ a - 1 < (2::nat) ^ bit_len (2 ^ a - 1)" by (rule bit_len_bound)
  then have "(2::nat) ^ a \<le> 2 ^ bit_len (2 ^ a - 1)" by linarith
  then show "a \<le> bit_len (2 ^ a - 1)" by (rule power_le_imp_le_exp [rotated]) simp
  show "bit_len (2 ^ a - 1) \<le> a"
  proof (cases a)
    case (Suc b)
    have "(1::nat) \<le> 2 ^ b" by simp
    then have ne: "2 ^ a - 1 \<noteq> (0::nat)" unfolding Suc power_Suc by linarith
    have "(2::nat) ^ (bit_len (2 ^ a - 1) - 1) < 2 ^ a"
      using bit_len_least [OF ne] by (rule le_less_trans) simp
    then have "bit_len (2 ^ a - 1) - 1 < a" by (rule power_less_imp_less_exp [rotated]) simp
    then show ?thesis by linarith
  qed (simp add: bit_len.simps)
qed

lemma is_power_of_two_iff: "is_power_of_two n \<longleftrightarrow> (\<exists>a. n = 2 ^ a)"
proof
  show "is_power_of_two n \<Longrightarrow> \<exists>a. n = 2 ^ a"
    unfolding is_power_of_two_def next_power_of_two_def by (metis power_0)
  assume "\<exists>a. n = 2 ^ a"
  then obtain a where "n = 2 ^ a" by blast
  moreover from this have "1 \<le> n" by simp
  ultimately show "is_power_of_two n"
    using bit_len_pow2 [of a] unfolding is_power_of_two_def next_power_of_two_def
    by (metis le_antisym not_one_le_zero)
qed

lemma pow2_quarter: "2 \<le> n \<Longrightarrow> (2::nat) ^ n = 4 * 2 ^ (n - 2)"
proof -
  assume "2 \<le> n"
  then obtain m where "n = 2 + m" using le_Suc_ex by blast
  then show ?thesis by (simp add: power_add)
qed

end
