(* ===== verification/BuddyTree.thy ===== *)
theory BuddyTree
  imports Prelude
begin

text \<open>
  The abstract specification of the buddy system: which blocks of the binary tree of blocks are
  in use. A block is a pair of a size \<open>k\<close> and an index \<open>b\<close>; it covers the leaves
  \<open>b * 2 ^ k, \<dots>, (b + 1) * 2 ^ k - 1\<close> and its halves are \<open>(k - 1, 2 * b)\<close> and
  \<open>(k - 1, 2 * b + 1)\<close>. \<open>A k b\<close> is the block's \<open>alloc\<close> bit (in use, or split), \<open>S k b\<close> its
  \<open>split\<close> bit, \<open>N\<close> the largest size. The four ways the allocator changes the tree (take a free
  block, split a block in use, merge a block in use with its free buddy, release a block in use)
  each keep the invariant \<open>tree_inv\<close>.
\<close>

type_synonym bits = "nat \<Rightarrow> nat \<Rightarrow> bool"

definition upd_bit :: "bits \<Rightarrow> nat \<Rightarrow> nat \<Rightarrow> bool \<Rightarrow> bits" where
  "upd_bit A k b v = A(k := (A k)(b := v))"

definition blk_in :: "nat \<Rightarrow> nat \<Rightarrow> nat \<Rightarrow> bool" where
  "blk_in N k b \<longleftrightarrow> k \<le> N \<and> b < 2 ^ (N - k)"

definition leaves :: "nat \<Rightarrow> nat \<Rightarrow> nat set" where
  "leaves k b = {b * 2 ^ k ..< (b + 1) * 2 ^ k}"

definition buddy_of :: "nat \<Rightarrow> nat" where
  "buddy_of b = (if even b then b + 1 else b - 1)"

definition tree_inv :: "nat \<Rightarrow> bits \<Rightarrow> bits \<Rightarrow> bool" where
  "tree_inv N A S \<longleftrightarrow>
     (\<forall>k b. blk_in N k b \<longrightarrow> S k b \<longrightarrow> A k b \<and> 0 < k) \<and>
     (\<forall>k b. blk_in N (Suc k) b \<longrightarrow> S (Suc k) b \<longrightarrow> A k (2 * b) \<or> A k (2 * b + 1)) \<and>
     (\<forall>k b. blk_in N (Suc k) b \<longrightarrow> \<not> S (Suc k) b \<longrightarrow> \<not> A k (2 * b) \<and> \<not> A k (2 * b + 1))"

definition live :: "nat \<Rightarrow> bits \<Rightarrow> bits \<Rightarrow> (nat \<times> nat) set" where
  "live N A S = {(k, b). blk_in N k b \<and> A k b \<and> \<not> S k b}"

definition free_blks :: "nat \<Rightarrow> bits \<Rightarrow> bits \<Rightarrow> nat \<Rightarrow> nat set" where
  "free_blks N A S k = {b. blk_in N k b \<and> \<not> A k b \<and> (k < N \<longrightarrow> S (Suc k) (b div 2))}"

lemma upd_bit_apply [simp]:
  "upd_bit A k b v j c = (if j = k \<and> c = b then v else A j c)"
  by (simp add: upd_bit_def)

lemma blk_in_parent: "blk_in N k b \<Longrightarrow> k < N \<Longrightarrow> blk_in N (Suc k) (b div 2)"
  by (auto simp: blk_in_def less_mult_imp_div_less simp flip: power_Suc2 Suc_diff_Suc)

lemma blk_in_children:
  "blk_in N (Suc k) b \<Longrightarrow> blk_in N k (2 * b) \<and> blk_in N k (2 * b + 1)"
  by (auto simp: blk_in_def Suc_diff_Suc power_Suc dest!: Suc_le_lessD simp flip: Suc_diff_Suc)

lemma buddy_of_props:
  "buddy_of (buddy_of b) = b" "buddy_of b div 2 = b div 2" "buddy_of b \<noteq> b"
  by (auto simp: buddy_of_def elim!: oddE)

lemma even_buddy_of: "even (buddy_of b) \<longleftrightarrow> odd b"
  by (simp add: buddy_of_def)

lemma children_cases: "b = 2 * (b div 2) \<or> b = 2 * (b div 2) + (1::nat)"
  by presburger

lemma buddy_of_children: "buddy_of (2 * c) = 2 * c + 1" "buddy_of (2 * c + 1) = 2 * c"
  by (auto simp: buddy_of_def)

lemma blk_in_buddy: "blk_in N k b \<Longrightarrow> k < N \<Longrightarrow> blk_in N k (buddy_of b)"
  using blk_in_parent [of N k b] blk_in_children [of N k "b div 2"] children_cases [of b]
  by (metis buddy_of_children)

text \<open>Reading the invariant.\<close>

lemma tree_invD:
  assumes "tree_inv N A S"
  shows "blk_in N k b \<Longrightarrow> S k b \<Longrightarrow> A k b"
    and "blk_in N k b \<Longrightarrow> S k b \<Longrightarrow> 0 < k"
    and "blk_in N k b \<Longrightarrow> k < N \<Longrightarrow> A k b \<Longrightarrow> S (Suc k) (b div 2)"
    and "blk_in N k b \<Longrightarrow> k < N \<Longrightarrow> S (Suc k) (b div 2) \<Longrightarrow> A k b \<or> A k (buddy_of b)"
proof -
  show "blk_in N k b \<Longrightarrow> S k b \<Longrightarrow> A k b" "blk_in N k b \<Longrightarrow> S k b \<Longrightarrow> 0 < k"
    using assms by (auto simp: tree_inv_def)
  show "blk_in N k b \<Longrightarrow> k < N \<Longrightarrow> A k b \<Longrightarrow> S (Suc k) (b div 2)"
    using assms blk_in_parent [of N k b] children_cases [of b]
    unfolding tree_inv_def by metis
  show "blk_in N k b \<Longrightarrow> k < N \<Longrightarrow> S (Suc k) (b div 2) \<Longrightarrow> A k b \<or> A k (buddy_of b)"
    using assms blk_in_parent [of N k b] children_cases [of b] buddy_of_children [of "b div 2"]
    unfolding tree_inv_def by metis
qed

text \<open>A step's preservation is shown on the parent relation, which is easier to use than halves.\<close>

lemma tree_invI:
  assumes "\<And>k b. blk_in N k b \<Longrightarrow> S k b \<Longrightarrow> A k b \<and> 0 < k"
    and "\<And>k b. blk_in N k b \<Longrightarrow> k < N \<Longrightarrow> A k b \<Longrightarrow> S (Suc k) (b div 2)"
    and "\<And>k b. blk_in N k b \<Longrightarrow> k < N \<Longrightarrow> S (Suc k) (b div 2) \<Longrightarrow> A k b \<or> A k (buddy_of b)"
  shows "tree_inv N A S"
  unfolding tree_inv_def
proof (intro conjI allI impI)
  fix k b assume i: "blk_in N (Suc k) b"
  then have c: "blk_in N k (2 * b)" "blk_in N k (2 * b + 1)" "k < N"
    using blk_in_children by (auto simp: blk_in_def)
  { assume "S (Suc k) b"
    then show "A k (2 * b) \<or> A k (2 * b + 1)"
      using assms(3) [OF c(1,3)] by (simp add: buddy_of_children) }
  { assume "\<not> S (Suc k) b"
    then show "\<not> A k (2 * b)" "\<not> A k (2 * b + 1)"
      using assms(2) [OF c(1,3)] assms(2) [OF c(2,3)] by auto }
qed (use assms(1) in auto)

text \<open>Every proper ancestor of a block in use, and of a free block, is split.\<close>

lemma ancestors_split:
  assumes inv: "tree_inv N A S" and b: "blk_in N k b" "A k b" and d: "0 < d" "k + d \<le> N"
  shows "S (k + d) (b div 2 ^ d) \<and> blk_in N (k + d) (b div 2 ^ d)"
  using d
proof (induction d)
  case (Suc d)
  have "A (k + d) (b div 2 ^ d) \<and> blk_in N (k + d) (b div 2 ^ d)"
    using Suc b tree_invD(1) [OF inv] by (cases d) auto
  moreover have "b div 2 ^ Suc d = b div 2 ^ d div 2"
    by (simp only: power_Suc2 div_mult2_eq)
  ultimately show ?case
    using Suc.prems tree_invD(3) [OF inv, of "k + d" "b div 2 ^ d"] blk_in_parent [of N "k + d" "b div 2 ^ d"]
    by simp
qed simp

lemma ancestors_split_free:
  assumes inv: "tree_inv N A S" and b: "b \<in> free_blks N A S k" and d: "0 < d" "k + d \<le> N"
  shows "S (k + d) (b div 2 ^ d)"
proof -
  from b d have i: "blk_in N k b" "S (Suc k) (b div 2)" "k < N" by (auto simp: free_blks_def)
  then have p: "blk_in N (Suc k) (b div 2)" "A (Suc k) (b div 2)"
    using blk_in_parent tree_invD(1) [OF inv] by auto
  show ?thesis
  proof (cases "d = 1")
    case True
    with i show ?thesis by simp
  next
    case False
    then have "S (Suc k + (d - 1)) (b div 2 div 2 ^ (d - 1))"
      using ancestors_split [OF inv p, of "d - 1"] d by simp
    moreover have "b div 2 div 2 ^ (d - 1) = b div 2 ^ d"
      using d by (cases d) (simp_all add: div_mult2_eq)
    ultimately show ?thesis using d by simp
  qed
qed

lemma leaves_overlap:
  assumes "leaves k b \<inter> leaves j c \<noteq> {}" "k \<le> j"
  shows "c = b div 2 ^ (j - k)"
proof -
  from assms obtain x where "x \<in> leaves k b" "x \<in> leaves j c" by blast
  then have x: "b * 2 ^ k \<le> x" "x < (b + 1) * 2 ^ k" "c * 2 ^ j \<le> x" "x < (c + 1) * 2 ^ j"
    by (simp_all add: leaves_def)
  then have "x div 2 ^ k = b" "x div 2 ^ j = c"
    by (auto intro!: div_nat_eqI simp: algebra_simps)
  moreover have "x div 2 ^ j = x div 2 ^ k div 2 ^ (j - k)"
    using assms(2) by (simp flip: div_mult2_eq power_add)
  ultimately show ?thesis by simp
qed

text \<open>Blocks that are in use or free never overlap: the allocator's basic safety.\<close>

definition member_blk :: "nat \<Rightarrow> bits \<Rightarrow> bits \<Rightarrow> nat \<Rightarrow> nat \<Rightarrow> bool" where
  "member_blk N A S k b \<longleftrightarrow> (k, b) \<in> live N A S \<or> b \<in> free_blks N A S k"

lemma member_no_overlap_le:
  assumes inv: "tree_inv N A S" and m: "member_blk N A S k b" "member_blk N A S j c"
    and o: "leaves k b \<inter> leaves j c \<noteq> {}" and le: "k \<le> j"
  shows "j = k \<and> c = b"
proof (cases "j = k")
  case True
  with leaves_overlap [OF o le] show ?thesis by simp
next
  case False
  with le have d: "0 < j - k" "k + (j - k) = j" by auto
  from m(2) have jN: "j \<le> N" and nS: "\<not> S j c"
    using tree_invD(1) [OF inv] by (auto simp: member_blk_def live_def free_blks_def blk_in_def)
  from m(1) have "S (k + (j - k)) (b div 2 ^ (j - k))"
    unfolding member_blk_def live_def
    using ancestors_split [OF inv, of k b "j - k"] ancestors_split_free [OF inv, of b k "j - k"] d jN
    by auto
  with nS leaves_overlap [OF o le] d show ?thesis by simp
qed

lemma member_no_overlap:
  assumes "tree_inv N A S" "member_blk N A S k b" "member_blk N A S j c"
    and "leaves k b \<inter> leaves j c \<noteq> {}"
  shows "j = k \<and> c = b"
  using assms member_no_overlap_le [of N A S k b j c] member_no_overlap_le [of N A S j c k b]
  by (metis Int_commute nle_le)

lemma live_free_disjoint: "(k, b) \<in> live N A S \<Longrightarrow> b \<notin> free_blks N A S k"
  by (auto simp: live_def free_blks_def)

text \<open>The four steps of the allocator on the tree.\<close>

lemma take_blk:
  assumes inv: "tree_inv N A S" and b: "b \<in> free_blks N A S k"
  shows "tree_inv N (upd_bit A k b True) S"
    and "live N (upd_bit A k b True) S = insert (k, b) (live N A S)"
    and "free_blks N (upd_bit A k b True) S j =
      (if j = k then free_blks N A S k - {b} else free_blks N A S j)"
proof -
  note D = tree_invD [OF inv]
  from b have bk: "blk_in N k b" "\<not> A k b" "k < N \<Longrightarrow> S (Suc k) (b div 2)"
    by (auto simp: free_blks_def)
  then have nS: "\<not> S k b" using D(1) by blast
  show "tree_inv N (upd_bit A k b True) S"
    by (rule tree_invI) (use D bk in \<open>auto split: if_splits\<close>)
  show "live N (upd_bit A k b True) S = insert (k, b) (live N A S)"
    using bk nS by (auto simp: live_def)
  show "free_blks N (upd_bit A k b True) S j =
      (if j = k then free_blks N A S k - {b} else free_blks N A S j)"
    by (auto simp: free_blks_def)
qed

lemma split_blk:
  assumes inv: "tree_inv N A S" and b: "(Suc k, b) \<in> live N A S"
  defines "A' \<equiv> upd_bit A k (2 * b) True" and "S' \<equiv> upd_bit S (Suc k) b True"
  shows "tree_inv N A' S'"
    and "live N A' S' = insert (k, 2 * b) (live N A S - {(Suc k, b)})"
    and "free_blks N A' S' j =
      (if j = k then insert (2 * b + 1) (free_blks N A S k) else free_blks N A S j)"
proof -
  note D = tree_invD [OF inv]
  from b have bk: "blk_in N (Suc k) b" "A (Suc k) b" "\<not> S (Suc k) b"
    by (auto simp: live_def)
  then have c: "blk_in N k (2 * b)" "blk_in N k (2 * b + 1)" "k < N"
    using blk_in_children by (auto simp: blk_in_def)
  have z: "\<not> A k (2 * b)" "\<not> A k (2 * b + 1)" "\<not> S k (2 * b)" "\<not> S k (2 * b + 1)"
    using D(3) [OF c(1,3)] D(3) [OF c(2,3)] D(1) [OF c(1)] D(1) [OF c(2)] bk(3) by auto
  have ch: "x div 2 = b \<Longrightarrow> x = 2 * b \<or> x = 2 * b + 1" for x by auto
  show "tree_inv N A' S'"
  proof (rule tree_invI)
    fix j c assume c: "blk_in N j c" "j < N" "S' (Suc j) (c div 2)"
    show "A' j c \<or> A' j (buddy_of c)"
    proof (cases "j = k \<and> c div 2 = b")
      case True
      then show ?thesis using ch [of c] buddy_of_children(2) [of b] by (auto simp: A'_def simp del: One_nat_def)
    next
      case False
      then show ?thesis using D(4) [OF c(1,2)] c(3) by (auto simp: A'_def S'_def)
    qed
  qed (use D bk z in \<open>auto simp: A'_def S'_def split: if_splits\<close>)
  show "live N A' S' = insert (k, 2 * b) (live N A S - {(Suc k, b)})"
    using c z bk by (auto simp: live_def A'_def S'_def split: if_splits)
  show "free_blks N A' S' j =
      (if j = k then insert (2 * b + 1) (free_blks N A S k) else free_blks N A S j)"
    using c z bk by (auto simp: free_blks_def A'_def S'_def split: if_splits dest!: ch)
qed

lemma release_blk:
  assumes inv: "tree_inv N A S" and b: "(k, b) \<in> live N A S" "k < N" "A k (buddy_of b)"
  shows "tree_inv N (upd_bit A k b False) S"
    and "live N (upd_bit A k b False) S = live N A S - {(k, b)}"
    and "free_blks N (upd_bit A k b False) S j =
      (if j = k then insert b (free_blks N A S k) else free_blks N A S j)"
proof -
  note D = tree_invD [OF inv]
  from b have bk: "blk_in N k b" "A k b" "\<not> S k b" by (auto simp: live_def)
  show "tree_inv N (upd_bit A k b False) S"
  proof (rule tree_invI)
    fix j c assume c: "blk_in N j c" "j < N" "S (Suc j) (c div 2)"
    show "upd_bit A k b False j c \<or> upd_bit A k b False j (buddy_of c)"
      using D(4) [OF c] b(3) buddy_of_props [of c] buddy_of_props [of b]
      by (auto split: if_splits)
  next
    fix j c assume "blk_in N j c" "j < N" "upd_bit A k b False j c"
    then show "S (Suc j) (c div 2)" using D(3) [of j c] by (simp split: if_splits)
  qed (use D bk in \<open>auto split: if_splits\<close>)
  show "live N (upd_bit A k b False) S = live N A S - {(k, b)}"
    by (auto simp: live_def split: if_splits)
  show "free_blks N (upd_bit A k b False) S j =
      (if j = k then insert b (free_blks N A S k) else free_blks N A S j)"
    using bk D(3) [OF bk(1) b(2)] by (auto simp: free_blks_def split: if_splits)
qed

lemma merge_blk:
  assumes inv: "tree_inv N A S" and b: "(k, b) \<in> live N A S" "k < N" "\<not> A k (buddy_of b)"
  defines "A' \<equiv> upd_bit A k b False" and "S' \<equiv> upd_bit S (Suc k) (b div 2) False"
  shows "buddy_of b \<in> free_blks N A S k"
    and "tree_inv N A' S'"
    and "live N A' S' = insert (Suc k, b div 2) (live N A S - {(k, b)})"
    and "free_blks N A' S' j =
      (if j = k then free_blks N A S k - {buddy_of b} else free_blks N A S j)"
proof -
  note D = tree_invD [OF inv]
  from b have bk: "blk_in N k b" "A k b" "\<not> S k b" by (auto simp: live_def)
  have p: "blk_in N (Suc k) (b div 2)" "S (Suc k) (b div 2)" "A (Suc k) (b div 2)"
    using blk_in_parent [OF bk(1) b(2)] D(3) [OF bk(1) b(2)] D(1) bk by auto
  show bf: "buddy_of b \<in> free_blks N A S k"
    using b p blk_in_buddy [OF bk(1) b(2)] by (auto simp: free_blks_def buddy_of_props)
  have ch: "x div 2 = b div 2 \<Longrightarrow> x = b \<or> x = buddy_of b" for x
    by (auto simp: buddy_of_def elim!: oddE evenE)
  have nS: "\<not> S k (buddy_of b)"
    using D(1) [of k "buddy_of b"] b blk_in_buddy [OF bk(1) b(2)] by blast
  show "tree_inv N A' S'"
  proof (rule tree_invI)
    fix j c assume c: "blk_in N j c" "j < N" "S' (Suc j) (c div 2)"
    then show "A' j c \<or> A' j (buddy_of c)"
      using D(4) [OF c(1,2)] buddy_of_props(2) [of c]
      by (auto simp: A'_def S'_def split: if_splits)
  next
    fix j c assume c: "blk_in N j c" "j < N" "A' j c"
    then have a: "A j c" "\<not> (j = k \<and> c = b)" by (auto simp: A'_def split: if_splits)
    then have "\<not> (j = k \<and> c div 2 = b div 2)" using ch [of c] b(3) by auto
    then show "S' (Suc j) (c div 2)"
      using D(3) [OF c(1,2) a(1)] by (auto simp: S'_def)
  qed (use D bk p b nS in \<open>auto simp: A'_def S'_def split: if_splits\<close>)
  show "live N A' S' = insert (Suc k, b div 2) (live N A S - {(k, b)})"
    using bk p by (auto simp: live_def A'_def S'_def split: if_splits)
  show "free_blks N A' S' j =
      (if j = k then free_blks N A S k - {buddy_of b} else free_blks N A S j)"
    using bk p b by (auto simp: free_blks_def A'_def S'_def buddy_of_props split: if_splits dest!: ch)
qed

text \<open>Only the bits of blocks of the tree matter, and the blocks in use determine all of them.\<close>

lemma tree_cong:
  assumes "\<And>k b. blk_in N k b \<Longrightarrow> A' k b = A k b" "\<And>k b. blk_in N k b \<Longrightarrow> S' k b = S k b"
  shows "tree_inv N A' S' = tree_inv N A S" "live N A' S' = live N A S"
    "free_blks N A' S' k = free_blks N A S k"
proof -
  show "tree_inv N A' S' = tree_inv N A S"
    by (simp add: tree_inv_def assms blk_in_children [simplified])
  show "live N A' S' = live N A S" using assms by (auto simp: live_def)
  show "free_blks N A' S' k = free_blks N A S k"
    using assms blk_in_parent by (fastforce simp: free_blks_def)
qed

lemma live_determines:
  assumes inv: "tree_inv N A S" "tree_inv N A' S'" and eq: "live N A S = live N A' S'"
    and b: "blk_in N k b"
  shows "A k b = A' k b \<and> S k b = S' k b"
  using b
proof (induction k arbitrary: b)
  case 0
  then have "\<not> S 0 b" "\<not> S' 0 b" using tree_invD(2) [OF inv(1)] tree_invD(2) [OF inv(2)] by blast+
  moreover have "(0, b) \<in> live N A S \<longleftrightarrow> (0, b) \<in> live N A' S'" using eq by simp
  ultimately show ?case using 0 by (simp add: live_def)
next
  case (Suc k)
  note c = blk_in_children [OF Suc.prems]
  have "S (Suc k) b = S' (Suc k) b"
    using Suc.IH [of "2 * b"] Suc.IH [of "2 * b + 1"] c inv Suc.prems unfolding tree_inv_def by metis
  moreover have "(Suc k, b) \<in> live N A S \<longleftrightarrow> (Suc k, b) \<in> live N A' S'" using eq by simp
  ultimately show ?case
    using Suc.prems tree_invD(1) [OF inv(1) Suc.prems] tree_invD(1) [OF inv(2) Suc.prems]
    by (auto simp: live_def)
qed

text \<open>No memory is lost: a block that no block in use overlaps lies in a free block.\<close>

lemma alloc_has_live:
  assumes inv: "tree_inv N A S"
  shows "blk_in N k b \<Longrightarrow> A k b \<Longrightarrow> \<exists>j c. (j, c) \<in> live N A S \<and> leaves j c \<subseteq> leaves k b"
proof (induction k arbitrary: b)
  case 0
  then have "\<not> S 0 b" using tree_invD(2) [OF inv] by blast
  with 0 have "(0, b) \<in> live N A S" by (simp add: live_def)
  then show ?case by blast
next
  case (Suc k)
  show ?case
  proof (cases "S (Suc k) b")
    case True
    note ch = blk_in_children [OF Suc.prems(1)]
    from True Suc.prems(1) inv have "A k (2 * b) \<or> A k (2 * b + 1)" by (auto simp: tree_inv_def)
    then obtain c where c: "c = 2 * b \<or> c = 2 * b + 1" "A k c" by blast
    then have "leaves k c \<subseteq> leaves (Suc k) b" by (auto simp: leaves_def algebra_simps)
    moreover have "\<exists>j d. (j, d) \<in> live N A S \<and> leaves j d \<subseteq> leaves k c"
      using Suc.IH [of c] c ch by blast
    ultimately show ?thesis by (meson subset_trans)
  next
    case False
    with Suc.prems have "(Suc k, b) \<in> live N A S" by (simp add: live_def)
    then show ?thesis by blast
  qed
qed

lemma unmarked_free:
  assumes inv: "tree_inv N A S"
  shows "blk_in N k b \<Longrightarrow> \<not> A k b \<Longrightarrow> (\<And>d. (k + d, b div 2 ^ d) \<notin> live N A S) \<Longrightarrow>
    \<exists>d. k + d \<le> N \<and> b div 2 ^ d \<in> free_blks N A S (k + d)"
proof (induction "N - k" arbitrary: k b)
  case 0
  then have "k = N" by (simp add: blk_in_def)
  with 0 have "b \<in> free_blks N A S k" by (simp add: free_blks_def)
  then show ?case using \<open>k = N\<close> by (intro exI [of _ 0]) simp
next
  case (Suc n)
  then have k: "k < N" and n: "n = N - Suc k" by simp_all
  show ?case
  proof (cases "S (Suc k) (b div 2)")
    case True
    with Suc.prems have "b \<in> free_blks N A S k" by (simp add: free_blks_def)
    then show ?thesis using k by (intro exI [of _ 0]) simp
  next
    case False
    note p = blk_in_parent [OF Suc.prems(1) k]
    have e: "b div 2 div 2 ^ d = b div 2 ^ Suc d" for d by (simp add: div_mult2_eq)
    have "\<not> A (Suc k) (b div 2)" using False p Suc.prems(3) [of 1] by (auto simp: live_def)
    moreover have "(Suc k + d, b div 2 div 2 ^ d) \<notin> live N A S" for d
      using Suc.prems(3) [of "Suc d"] unfolding e by simp
    ultimately obtain d where "Suc k + d \<le> N" "b div 2 div 2 ^ d \<in> free_blks N A S (Suc k + d)"
      using Suc.hyps(1) [OF n p] by blast
    then show ?thesis unfolding e by (intro exI [of _ "Suc d"]) simp
  qed
qed

lemma untouched_free:
  assumes inv: "tree_inv N A S" and b: "blk_in N k b"
    and u: "\<And>j c. (j, c) \<in> live N A S \<Longrightarrow> leaves j c \<inter> leaves k b = {}"
  shows "\<exists>j \<ge> k. j \<le> N \<and> free_blks N A S j \<noteq> {}"
proof -
  have ne: "leaves j c \<noteq> {}" for j c by (simp add: leaves_def)
  have "\<not> A k b" using alloc_has_live [OF inv b] u ne by blast
  moreover have "(k + d, b div 2 ^ d) \<notin> live N A S" for d
  proof
    assume "(k + d, b div 2 ^ d) \<in> live N A S"
    moreover have "b * 2 ^ k \<in> leaves (k + d) (b div 2 ^ d) \<inter> leaves k b"
    proof -
      have "b div 2 ^ d * 2 ^ d \<le> b" "b < (b div 2 ^ d + 1) * 2 ^ d"
        using dividend_less_div_times [of "2 ^ d" b] by (simp_all add: algebra_simps)
      then have "b div 2 ^ d * 2 ^ d * 2 ^ k \<le> b * 2 ^ k" "b * 2 ^ k < (b div 2 ^ d + 1) * 2 ^ d * 2 ^ k"
        by simp_all
      then show ?thesis by (simp add: leaves_def power_add algebra_simps)
    qed
    ultimately show False using u by blast
  qed
  ultimately show ?thesis using unmarked_free [OF inv b] by (metis empty_iff le_add1)
qed

end
