(* ===== verification/FreeList.thy ===== *)
theory FreeList
  imports Prelude
begin

text \<open>
  The intrusive circular doubly linked list of \<open>allocator/src/list.rs\<close>. A node is stored at its
  address in memory (for a free block: in the block itself), so the memory of the lists maps an
  address to the node there; the null pointer is address 0. \<open>dlist m h xs\<close> relates the memory to
  a HOL list: the list with head node \<open>h\<close> runs through the nodes \<open>xs\<close>. The operations refine
  the list operations under this relation and leave every list on other nodes alone.
\<close>

record list_node =
  prev_ptr :: nat
  next_ptr :: nat

type_synonym list_mem = "nat \<Rightarrow> list_node"

definition list_init :: "list_mem \<Rightarrow> nat \<Rightarrow> list_mem" where
  "list_init m self = m(self := \<lparr>prev_ptr = self, next_ptr = self\<rparr>)"

definition list_push :: "list_mem \<Rightarrow> nat \<Rightarrow> nat \<Rightarrow> list_mem outcome" where
  "list_push m self raw_list =
     (let m1 = m(raw_list := \<lparr>prev_ptr = self, next_ptr = next_ptr (m self)\<rparr>);
          n = next_ptr (m1 self)
      in if n = 0 then Panic ''called Option::unwrap() on a None value''
         else (let m2 = m1(n := (m1 n)\<lparr>prev_ptr := raw_list\<rparr>)
               in Ret (m2(self := (m2 self)\<lparr>next_ptr := raw_list\<rparr>))))"

definition list_is_empty :: "list_mem \<Rightarrow> nat \<Rightarrow> bool" where
  "list_is_empty m self \<longleftrightarrow> next_ptr (m self) = self"

definition list_remove :: "list_mem \<Rightarrow> nat \<Rightarrow> list_mem" where
  "list_remove m self =
     (let p = prev_ptr (m self);
          m1 = m(p := (m p)\<lparr>next_ptr := next_ptr (m self)\<rparr>);
          n = next_ptr (m1 self)
      in m1(n := (m1 n)\<lparr>prev_ptr := prev_ptr (m1 self)\<rparr>))"

definition list_pop :: "list_mem \<Rightarrow> nat \<Rightarrow> (nat option \<times> list_mem) outcome" where
  "list_pop m self =
     (if list_is_empty m self then Ret (None, m)
      else (let raw_addr = next_ptr (m self)
            in if raw_addr = 0 then Panic ''called Option::unwrap() on a None value''
               else Ret (Some raw_addr, list_remove m raw_addr)))"

text \<open>
  \<open>seg m x xs y\<close>: the links lead from \<open>x\<close> through \<open>xs\<close> to \<open>y\<close> and back. A list is a segment
  from its head node to its head node without repetition.
\<close>

primrec seg :: "list_mem \<Rightarrow> nat \<Rightarrow> nat list \<Rightarrow> nat \<Rightarrow> bool" where
  "seg m x [] y \<longleftrightarrow> next_ptr (m x) = y \<and> prev_ptr (m y) = x"
| "seg m x (a # as) y \<longleftrightarrow> next_ptr (m x) = a \<and> prev_ptr (m a) = x \<and> seg m a as y"

definition dlist :: "list_mem \<Rightarrow> nat \<Rightarrow> nat list \<Rightarrow> bool" where
  "dlist m h xs \<longleftrightarrow> distinct (h # xs) \<and> 0 \<notin> set (h # xs) \<and> seg m h xs h"

lemma seg_split: "seg m x (as @ b # bs) y \<longleftrightarrow> seg m x as b \<and> seg m b bs y"
  by (induction as arbitrary: x) auto

lemma seg_cong:
  "(\<And>z. z \<in> set (x # as) \<Longrightarrow> next_ptr (m z) = next_ptr (m' z)) \<Longrightarrow>
   (\<And>z. z \<in> set (y # as) \<Longrightarrow> prev_ptr (m z) = prev_ptr (m' z)) \<Longrightarrow>
   seg m x as y = seg m' x as y"
proof (induction as arbitrary: x)
  case (Cons a as)
  have "seg m a as y = seg m' a as y"
    by (rule Cons.IH) (use Cons.prems in auto)
  with Cons.prems(1) [of x] Cons.prems(2) [of a] show ?case by simp
qed simp

lemma dlist_frame:
  "dlist m h xs \<Longrightarrow> (\<And>z. z \<in> set (h # xs) \<Longrightarrow> m' z = m z) \<Longrightarrow> dlist m' h xs"
  using seg_cong [of h xs m m' h] by (simp add: dlist_def)

lemma dlist_init: "h \<noteq> 0 \<Longrightarrow> dlist (list_init m h) h []"
  by (simp add: dlist_def list_init_def)

lemma list_init_frame: "z \<noteq> h \<Longrightarrow> list_init m h z = m z"
  by (simp add: list_init_def)

lemma dlist_is_empty: "dlist m h xs \<Longrightarrow> list_is_empty m h \<longleftrightarrow> xs = []"
  by (cases xs) (auto simp: dlist_def list_is_empty_def)

text \<open>Pushing a node puts it in front of the list.\<close>

lemma dlist_push:
  assumes d: "dlist m h xs" and a: "a \<notin> set (h # xs)" "a \<noteq> 0"
  shows "\<exists>m'. list_push m h a = Ret m' \<and> dlist m' h (a # xs) \<and>
           (\<forall>z. z \<notin> set (h # a # xs) \<longrightarrow> m' z = m z)"
proof (cases xs)
  case Nil
  with assms show ?thesis
    by (auto simp: list_push_def dlist_def Let_def)
next
  case (Cons b bs)
  let ?m1 = "m(a := \<lparr>prev_ptr = h, next_ptr = b\<rparr>)"
  let ?m2 = "?m1(b := (?m1 b)\<lparr>prev_ptr := a\<rparr>)"
  let ?m' = "?m2(h := (?m2 h)\<lparr>next_ptr := a\<rparr>)"
  from Cons d have dist: "distinct (h # b # bs)" "0 \<notin> set (h # b # bs)"
    and lk: "next_ptr (m h) = b" "seg m b bs h"
    by (auto simp: dlist_def)
  from Cons a have n: "a \<noteq> h" "a \<noteq> b" "a \<notin> set bs" by auto
  have "list_push m h a = Ret ?m'"
    using dist lk n by (simp add: list_push_def Let_def)
  moreover have "seg ?m' b bs h"
    using lk(2) by (rule seg_cong [THEN iffD1, rotated 2]) (use dist n in auto)
  ultimately show ?thesis
    using Cons dist n a by (auto simp: dlist_def)
qed

text \<open>Unlinking a node takes it out of the list it is in, wherever it stands.\<close>

lemma seg_last: "seg m h as a \<Longrightarrow> prev_ptr (m a) = last (h # as) \<and> next_ptr (m (last (h # as))) = a"
  by (induction as arbitrary: h) auto

lemma seg_hd: "seg m a bs h \<Longrightarrow> next_ptr (m a) = hd (bs @ [h]) \<and> prev_ptr (m (hd (bs @ [h]))) = a"
  by (cases bs) auto

lemma seg_relink:
  assumes "seg m h as a" "seg m a bs y" "distinct (as @ a # bs)" "h \<notin> set (as @ a # bs)"
    "y \<notin> set (as @ a # bs)"
    and m': "\<And>z. next_ptr (m' z) = (if z = last (h # as) then hd (bs @ [y]) else next_ptr (m z))"
      "\<And>z. prev_ptr (m' z) = (if z = hd (bs @ [y]) then last (h # as) else prev_ptr (m z))"
  shows "seg m' h (as @ bs) y"
  using assms
proof (induction as arbitrary: h)
  case Nil
  show ?case
  proof (cases bs)
    case Nil
    with Nil.prems show ?thesis by simp
  next
    case (Cons c bs')
    with Nil.prems have "seg m c bs' y" by simp
    then have "seg m' c bs' y"
      by (rule seg_cong [THEN iffD1, rotated 2]) (use Nil.prems Cons in auto)
    with Cons Nil.prems show ?thesis by simp
  qed
next
  case (Cons b as)
  have l: "last (h # b # as) = last (b # as)" by simp
  have ne: "h \<noteq> last (b # as)" "b \<noteq> hd (bs @ [y])"
    using Cons.prems(3-5) last_in_set [of "b # as"] hd_in_set [of "bs @ [y]"] by auto
  have "seg m' b (as @ bs) y"
    by (rule Cons.IH) (use Cons.prems l in auto)
  with Cons.prems ne l show ?case by simp
qed

lemma dlist_remove:
  assumes d: "dlist m h (as @ a # bs)"
  shows "dlist (list_remove m a) h (as @ bs)"
    and "\<forall>z. z \<notin> set (h # as @ a # bs) \<longrightarrow> list_remove m a z = m z"
proof -
  define p n where "p = last (h # as)" and "n = hd (bs @ [h])"
  from d have dist: "distinct (h # as @ a # bs)" "0 \<notin> set (h # as @ a # bs)"
    and sa: "seg m h as a" and sb: "seg m a bs h"
    by (auto simp: dlist_def seg_split)
  have pin: "p \<in> set (h # as)" unfolding p_def by (rule last_in_set) simp
  have nin: "n \<in> set (bs @ [h])" unfolding n_def by (rule hd_in_set) simp
  have pn: "prev_ptr (m a) = p" "next_ptr (m a) = n"
    using seg_last [OF sa] seg_hd [OF sb] by (simp_all add: p_def n_def)
  have pa: "p \<noteq> a" "n \<noteq> a" using dist pin nin by auto
  have nx: "next_ptr (list_remove m a z) = (if z = p then n else next_ptr (m z))"
    and pv: "prev_ptr (list_remove m a z) = (if z = n then p else prev_ptr (m z))" for z
    using pn pa by (auto simp: list_remove_def Let_def)
  have "seg (list_remove m a) h (as @ bs) h"
    by (rule seg_relink [OF sa sb]) (use dist nx pv in \<open>auto simp: p_def n_def\<close>)
  with dist show "dlist (list_remove m a) h (as @ bs)" by (auto simp: dlist_def)
  show "\<forall>z. z \<notin> set (h # as @ a # bs) \<longrightarrow> list_remove m a z = m z"
    using pin nin pn pa by (auto simp: list_remove_def Let_def)
qed

lemma dlist_pop:
  assumes "dlist m h (a # xs)"
  shows "list_pop m h = Ret (Some a, list_remove m a)"
  using assms by (auto simp: list_pop_def list_is_empty_def dlist_def Let_def)

lemma dlist_nodes:
  "dlist m h xs \<Longrightarrow> distinct xs \<and> h \<notin> set xs \<and> h \<noteq> 0"
  by (simp add: dlist_def)

end
