(* ===== verification/BuddyRefine.thy ===== *)
theory BuddyRefine
  imports Buddy
begin

text \<open>
  The buddy allocator refines the tree of blocks. \<open>shape lo s\<close> is the layout \<open>init\<close> sets up: the
  metadata in \<open>[base, lo)\<close>, bitmaps long enough for every block, no address overflow.
  \<open>rep bf lo s FL\<close> relates a state to the tree its bitmaps stand for, with \<open>FL k\<close> the free list of
  size \<open>k\<close> as block indices. Each loop body of \<open>alloc\<close> and \<open>dealloc\<close> is one step of \<open>BuddyTree\<close>.
\<close>

definition msz :: "buddy_system \<Rightarrow> nat" where
  "msz s = nsizes s - 1"

definition bsz :: "buddy_system \<Rightarrow> nat \<Rightarrow> nat" where
  "bsz s k = 2 ^ k * leaf_size s"

definition baddr :: "buddy_system \<Rightarrow> nat \<Rightarrow> nat \<Rightarrow> nat" where
  "baddr s k b = base s + b * bsz s k"

definition head :: "buddy_system \<Rightarrow> nat \<Rightarrow> nat" where
  "head s k = bi_free (infos s ! k)"

definition abit :: "8 word bitops \<Rightarrow> buddy_system \<Rightarrow> bits" where
  "abit bf s k b = get_bit_op bf (bi_alloc (infos s ! k) ! (b div 8)) (b mod 8)"

definition sbit :: "8 word bitops \<Rightarrow> buddy_system \<Rightarrow> bits" where
  "sbit bf s k b \<longleftrightarrow> 0 < k \<and> get_bit_op bf (bi_split (infos s ! k) ! (b div 8)) (b mod 8)"

definition shape :: "nat \<Rightarrow> buddy_system \<Rightarrow> bool" where
  "shape lo s \<longleftrightarrow> 0 < nsizes s \<and> nsizes s \<le> 64 \<and> length (infos s) = nsizes s \<and>
     (\<exists>n. leaf_size s = 2 ^ n) \<and> 16 \<le> leaf_size s \<and> 0 < base s \<and> base s < lo \<and>
     base s + bsz s (msz s) < usize_lim \<and>
     (\<forall>k < nsizes s. 2 ^ (msz s - k) \<le> 8 * length (bi_alloc (infos s ! k))) \<and>
     (\<forall>k < nsizes s. 0 < k \<longrightarrow> 2 ^ (msz s - k) \<le> 8 * length (bi_split (infos s ! k))) \<and>
     (\<exists>n. max_alignment s = 2 ^ n) \<and> leaf_size s dvd base s \<and> max_alignment s dvd base s \<and>
     inj_on (head s) {..< nsizes s} \<and> (\<forall>k < nsizes s. base s \<le> head s k \<and> head s k < lo)"

definition usable :: "nat \<Rightarrow> buddy_system \<Rightarrow> nat \<Rightarrow> nat \<Rightarrow> bool" where
  "usable lo s k b \<longleftrightarrow> lo \<le> baddr s k b \<and> baddr s k b + bsz s k \<le> actual_end s"

definition used :: "8 word bitops \<Rightarrow> buddy_system \<Rightarrow> (nat \<times> nat) set" where
  "used bf s = live (msz s) (abit bf s) (sbit bf s)"

definition free_at :: "8 word bitops \<Rightarrow> buddy_system \<Rightarrow> nat \<Rightarrow> nat set" where
  "free_at bf s k = free_blks (msz s) (abit bf s) (sbit bf s) k"

definition rep :: "8 word bitops \<Rightarrow> nat \<Rightarrow> buddy_system \<Rightarrow> (nat \<Rightarrow> nat list) \<Rightarrow> bool" where
  "rep bf lo s FL \<longleftrightarrow> shape lo s \<and> tree_inv (msz s) (abit bf s) (sbit bf s) \<and>
     (\<forall>k \<le> msz s. dlist (lmem s) (head s k) (map (baddr s k) (FL k)) \<and>
        set (FL k) = free_at bf s k \<and> (\<forall>b \<in> set (FL k). usable lo s k b))"

definition buddy_inv :: "8 word bitops \<Rightarrow> nat \<Rightarrow> buddy_system \<Rightarrow> bool" where
  "buddy_inv bf lo s \<longleftrightarrow> (\<exists>FL. rep bf lo s FL)"

text \<open>The states after one bit is written.\<close>

definition set_abit :: "8 word bitops \<Rightarrow> buddy_system \<Rightarrow> nat \<Rightarrow> nat \<Rightarrow> bool \<Rightarrow> buddy_system" where
  "set_abit bf s k b v = s\<lparr>infos := (infos s)[k := (infos s ! k)\<lparr>bi_alloc :=
     (bi_alloc (infos s ! k))[b div 8 := set_bit_op bf (bi_alloc (infos s ! k) ! (b div 8)) (b mod 8) v]\<rparr>]\<rparr>"

definition set_sbit :: "8 word bitops \<Rightarrow> buddy_system \<Rightarrow> nat \<Rightarrow> nat \<Rightarrow> bool \<Rightarrow> buddy_system" where
  "set_sbit bf s k b v = s\<lparr>infos := (infos s)[k := (infos s ! k)\<lparr>bi_split :=
     (bi_split (infos s ! k))[b div 8 := set_bit_op bf (bi_split (infos s ! k) ! (b div 8)) (b mod 8) v]\<rparr>]\<rparr>"

text \<open>Fields that no operation changes.\<close>

definition same_geom :: "buddy_system \<Rightarrow> buddy_system \<Rightarrow> bool" where
  "same_geom s' s \<longleftrightarrow> base s' = base s \<and> actual_end s' = actual_end s \<and> nsizes s' = nsizes s \<and>
     leaf_size s' = leaf_size s \<and> max_alignment s' = max_alignment s \<and>
     length (infos s') = length (infos s) \<and> (\<forall>k. head s' k = head s k) \<and>
     (\<forall>k. length (bi_alloc (infos s' ! k)) = length (bi_alloc (infos s ! k))) \<and>
     (\<forall>k. length (bi_split (infos s' ! k)) = length (bi_split (infos s ! k)))"

lemma same_geom_refl [simp]: "same_geom s s"
  by (simp add: same_geom_def)

lemma same_geom_trans: "same_geom s3 s2 \<Longrightarrow> same_geom s2 s1 \<Longrightarrow> same_geom s3 s1"
  by (simp add: same_geom_def)

lemma same_geomD:
  assumes "same_geom s' s"
  shows "msz s' = msz s" "bsz s' k = bsz s k" "baddr s' k b = baddr s k b" "head s' k = head s k"
    "usable lo s' k b = usable lo s k b" "shape lo s' = shape lo s" "nsizes s' = nsizes s"
    "base s' = base s" "actual_end s' = actual_end s" "leaf_size s' = leaf_size s"
    "length (infos s') = length (infos s)" "max_alignment s' = max_alignment s"
proof -
  show h: "msz s' = msz s" "head s' k = head s k" "bsz s' k = bsz s k" "baddr s' k b = baddr s k b"
    "nsizes s' = nsizes s" "base s' = base s" "actual_end s' = actual_end s" "leaf_size s' = leaf_size s"
    "length (infos s') = length (infos s)" "max_alignment s' = max_alignment s" for k b
    using assms by (auto simp: same_geom_def msz_def bsz_def baddr_def)
  have "head s' = head s" using assms by (auto simp: same_geom_def)
  then show "shape lo s' = shape lo s"
    unfolding shape_def using assms h by (simp add: same_geom_def)
  show "usable lo s' k b = usable lo s k b" using h by (simp add: usable_def)
qed

lemma same_geom_lmem [simp]: "same_geom (s\<lparr>lmem := m\<rparr>) s"
  by (simp add: same_geom_def head_def)

lemma geom_set_abit [simp]: "same_geom (set_abit bf s k b v) s"
  by (auto simp: same_geom_def set_abit_def head_def nth_upd)

lemma geom_set_sbit [simp]: "same_geom (set_sbit bf s k b v) s"
  by (auto simp: same_geom_def set_sbit_def head_def nth_upd)

lemma lmem_set_bit [simp]: "lmem (set_abit bf s k b v) = lmem s" "lmem (set_sbit bf s k b v) = lmem s"
  by (simp_all add: set_abit_def set_sbit_def)

lemma bits_lmem [simp]: "abit bf (s\<lparr>lmem := m\<rparr>) = abit bf s" "sbit bf (s\<lparr>lmem := m\<rparr>) = sbit bf s"
  by (auto simp: abit_def sbit_def fun_eq_iff)

text \<open>The arithmetic of the allocator does not overflow.\<close>

lemma shapeD:
  assumes "shape lo s"
  shows "length (infos s) = nsizes s" "nsizes s = Suc (msz s)" "msz s < 64" "0 < leaf_size s"
    "0 < bsz s k" "base s + bsz s (msz s) < usize_lim" "0 < base s" "base s < lo"
  using assms by (auto simp: shape_def msz_def bsz_def)

lemma bsz_mono: "k \<le> j \<Longrightarrow> bsz s k \<le> bsz s j"
  by (simp add: bsz_def)

lemma bsz_Suc: "bsz s (Suc k) = 2 * bsz s k"
  by (simp add: bsz_def)

lemma max_size_Ret [simp]: "shape lo s \<Longrightarrow> max_size s = Ret (msz s)"
  by (simp add: max_size_def msz_def shape_def)

lemma blk_size_Ret:
  assumes "shape lo s" "k \<le> msz s" shows "blk_size s k = Ret (bsz s k)"
proof -
  have "bsz s k < usize_lim" using bsz_mono [OF assms(2), of s] shapeD(6) [OF assms(1)] by linarith
  then show ?thesis
    using shapeD(3) [OF assms(1)] assms(2)
    by (simp add: blk_size_def ushl1_Ret umul_Ret bsz_def)
qed

lemma baddr_end:
  assumes "blk_in (msz s) k b" shows "baddr s k b + bsz s k \<le> base s + bsz s (msz s)"
proof -
  have "(b + 1) * 2 ^ k \<le> 2 ^ (msz s - k) * (2::nat) ^ k"
    using assms by (intro mult_le_mono1) (simp add: blk_in_def)
  also have "\<dots> = 2 ^ msz s" using assms by (simp add: blk_in_def flip: power_add)
  finally have "(b + 1) * 2 ^ k * leaf_size s \<le> 2 ^ msz s * leaf_size s" by (rule mult_le_mono1)
  then show ?thesis by (simp add: baddr_def bsz_def algebra_simps)
qed

lemma blk_addr_Ret:
  assumes "shape lo s" "blk_in (msz s) k b" shows "blk_addr s k b = Ret (baddr s k b)"
proof -
  have "baddr s k b < usize_lim"
    using baddr_end [OF assms(2)] shapeD(6) [OF assms(1)] by linarith
  with assms show ?thesis
    by (simp add: blk_addr_def blk_size_Ret [OF assms(1)] blk_in_def umul_Ret uadd_Ret baddr_def)
qed

lemma blk_index_baddr:
  assumes "shape lo s" "j \<le> msz s" shows "blk_index s j (baddr s k b) = Ret (b * 2 ^ k div 2 ^ j)"
  using assms shapeD(4,5) [OF assms(1)]
  by (simp add: blk_index_def blk_size_Ret baddr_def) (simp add: bsz_def flip: mult.assoc)

lemma get_info_Ret [simp]: "shape lo s \<Longrightarrow> k \<le> msz s \<Longrightarrow> get_info_mut s k = Ret (infos s ! k)"
  by (simp add: get_info_mut_def shapeD(1,2))

lemma blk_byte:
  assumes "blk_in N k b" "2 ^ (N - k) \<le> 8 * l" shows "b div 8 < l"
  using assms by (auto simp: blk_in_def)

lemma alloc_byte: "shape lo s \<Longrightarrow> blk_in (msz s) k b \<Longrightarrow> b div 8 < length (bi_alloc (infos s ! k))"
  by (rule blk_byte) (auto simp: shape_def blk_in_def msz_def)

lemma split_byte:
  "shape lo s \<Longrightarrow> blk_in (msz s) k b \<Longrightarrow> 0 < k \<Longrightarrow> b div 8 < length (bi_split (infos s ! k))"
  by (rule blk_byte) (auto simp: shape_def blk_in_def msz_def)

lemma upd_alloc:
  assumes "shape lo s" "blk_in (msz s) k b"
  shows "upd_info s k (\<lambda>info. alloc_set bf info b v) = Ret (set_abit bf s k b v)"
  using assms alloc_byte [OF assms] get_info_Ret [OF assms(1), of k]
  by (simp add: upd_info_def alloc_set_def set_abit_def blk_in_def Let_def)

lemma upd_split:
  assumes "shape lo s" "blk_in (msz s) k b" "0 < k"
  shows "upd_info s k (\<lambda>info. split_set bf info b v) = Ret (set_sbit bf s k b v)"
  using assms split_byte [OF assms] get_info_Ret [OF assms(1), of k]
  by (simp add: upd_info_def split_set_def set_sbit_def blk_in_def Let_def)

lemma read_alloc:
  assumes "shape lo s" "blk_in (msz s) k b"
  shows "is_alloc_set bf (infos s ! k) b = Ret (abit bf s k b)"
  using alloc_byte [OF assms] by (simp add: is_alloc_set_def abit_def)

lemma read_split:
  assumes "shape lo s" "blk_in (msz s) k b" "0 < k"
  shows "is_split_set bf (infos s ! k) b = Ret (sbit bf s k b)"
  using split_byte [OF assms] assms(3) by (simp add: is_split_set_def sbit_def)

text \<open>Blocks of the tree as addresses.\<close>

lemma baddr_eq:
  "shape lo s \<Longrightarrow> baddr s k b = baddr s j c \<longleftrightarrow> b * 2 ^ k = c * 2 ^ j"
  using shapeD(4) [of lo s] by (simp add: baddr_def bsz_def flip: mult.assoc)

lemma baddr_inj: "shape lo s \<Longrightarrow> inj (baddr s k)"
  by (auto simp: inj_def baddr_eq)

lemma baddr_children:
  "baddr s k (2 * b) = baddr s (Suc k) b" "baddr s k (2 * b + 1) = baddr s (Suc k) b + bsz s k"
  by (simp_all add: baddr_def bsz_def algebra_simps)

lemma baddr_parent:
  "baddr s (Suc k) (b div 2) = (if even b then baddr s k b else baddr s k (buddy_of b))"
  by (auto simp: baddr_def bsz_def buddy_of_def elim!: evenE oddE)

lemma usable_children:
  "usable lo s (Suc k) b \<longleftrightarrow> usable lo s k (2 * b) \<and> usable lo s k (2 * b + 1)"
  unfolding usable_def baddr_children bsz_Suc by auto

lemma free_addr_neq:
  assumes "shape lo s" "tree_inv (msz s) A S" "b \<in> free_blks (msz s) A S k" "c \<in> free_blks (msz s) A S j" "j \<noteq> k"
  shows "baddr s k b \<noteq> baddr s j c"
proof
  assume "baddr s k b = baddr s j c"
  then have "b * 2 ^ k = c * 2 ^ j" using baddr_eq [OF assms(1)] by blast
  then have "b * 2 ^ k \<in> leaves k b \<inter> leaves j c" by (auto simp: leaves_def)
  then have "leaves k b \<inter> leaves j c \<noteq> {}" by blast
  then show False
    using member_no_overlap [OF assms(2), of k b j c] assms(3-5) by (auto simp: member_blk_def)
qed

lemma usable_not_top: "shape lo s \<Longrightarrow> usable lo s k b \<Longrightarrow> blk_in (msz s) k b \<Longrightarrow> k < msz s"
  using shapeD(8) [of lo s] by (cases "k = msz s") (auto simp: usable_def baddr_def blk_in_def)

text \<open>Reading a representation.\<close>

lemma repD:
  assumes "rep bf lo s FL"
  shows "shape lo s" "tree_inv (msz s) (abit bf s) (sbit bf s)"
    "k \<le> msz s \<Longrightarrow> dlist (lmem s) (head s k) (map (baddr s k) (FL k))"
    "k \<le> msz s \<Longrightarrow> set (FL k) = free_at bf s k"
    "k \<le> msz s \<Longrightarrow> b \<in> free_at bf s k \<Longrightarrow> usable lo s k b"
    "k \<le> msz s \<Longrightarrow> b \<in> free_at bf s k \<Longrightarrow> blk_in (msz s) k b"
  using assms by (auto simp: rep_def free_at_def free_blks_def)

lemma head_below_lo: "shape lo s \<Longrightarrow> j \<le> msz s \<Longrightarrow> base s \<le> head s j \<and> head s j < lo"
  unfolding shape_def msz_def by (metis Suc_diff_1 less_Suc_eq_le)

lemma head_not_addr:
  "shape lo s \<Longrightarrow> j \<le> msz s \<Longrightarrow> usable lo s k b \<Longrightarrow> head s j \<noteq> baddr s k b"
  using head_below_lo [of lo s j] by (auto simp: usable_def)

lemma head_inj:
  "shape lo s \<Longrightarrow> j \<le> msz s \<Longrightarrow> k \<le> msz s \<Longrightarrow> j \<noteq> k \<Longrightarrow> head s j \<noteq> head s k"
proof
  assume a: "shape lo s" "j \<le> msz s" "k \<le> msz s" "j \<noteq> k" "head s j = head s k"
  then have "inj_on (head s) {..< nsizes s}" by (simp only: shape_def)
  moreover have "j \<in> {..< nsizes s}" "k \<in> {..< nsizes s}" using shapeD(2) [OF a(1)] a by auto
  ultimately show False using inj_onD a(4,5) by fastforce
qed

text \<open>
  A step that changes the free list of one size: the lists of the other sizes are kept, because
  their nodes lie in other free blocks. \<open>lists\<close> is the part of \<open>rep\<close> about the memory, for lists that
  need not hold all the free blocks yet.
\<close>

definition lists :: "8 word bitops \<Rightarrow> nat \<Rightarrow> buddy_system \<Rightarrow> (nat \<Rightarrow> nat list) \<Rightarrow> bool" where
  "lists bf lo s FL \<longleftrightarrow> shape lo s \<and> tree_inv (msz s) (abit bf s) (sbit bf s) \<and>
     (\<forall>k \<le> msz s. dlist (lmem s) (head s k) (map (baddr s k) (FL k)) \<and>
        set (FL k) \<subseteq> free_at bf s k \<and> (\<forall>b \<in> set (FL k). usable lo s k b))"

lemma listsD:
  assumes "lists bf lo s FL"
  shows "shape lo s" "tree_inv (msz s) (abit bf s) (sbit bf s)"
    "k \<le> msz s \<Longrightarrow> dlist (lmem s) (head s k) (map (baddr s k) (FL k))"
    "k \<le> msz s \<Longrightarrow> set (FL k) \<subseteq> free_at bf s k"
    "k \<le> msz s \<Longrightarrow> b \<in> set (FL k) \<Longrightarrow> usable lo s k b"
  using assms by (auto simp: lists_def)

lemma rep_lists:
  "rep bf lo s FL \<longleftrightarrow> lists bf lo s FL \<and> (\<forall>k \<le> msz s. set (FL k) = free_at bf s k)"
  unfolding rep_def lists_def by blast

lemma lists_step:
  assumes r: "lists bf lo s FL" and g: "same_geom s' s"
    and t: "tree_inv (msz s) (abit bf s') (sbit bf s')" and k: "k \<le> msz s"
    and fr: "\<And>j. j \<le> msz s \<Longrightarrow> set ((FL(k := xs)) j) \<subseteq> free_at bf s' j"
    and dl: "dlist (lmem s') (head s k) (map (baddr s k) xs)"
    and mem: "\<And>z. z \<notin> set (head s k # map (baddr s k) (FL k @ xs)) \<Longrightarrow> lmem s' z = lmem s z"
    and us: "\<And>b. b \<in> set xs \<Longrightarrow> usable lo s k b"
  shows "lists bf lo s' (FL(k := xs))"
proof -
  note G = same_geomD [OF g] and R = listsD [OF r]
  have dj: "dlist (lmem s') (head s j) (map (baddr s j) (FL j))" if j: "j \<le> msz s" "j \<noteq> k" for j
  proof (rule dlist_frame [OF R(3) [OF j(1)]])
    fix z assume z: "z \<in> set (head s j # map (baddr s j) (FL j))"
    have "z \<notin> set (head s k # map (baddr s k) (FL k @ xs))"
    proof (cases "z = head s j")
      case True
      have "usable lo s k b" if "b \<in> set (FL k @ xs)" for b
        using that us R(5) [OF k] by auto
      then have "z \<noteq> baddr s k b" if "b \<in> set (FL k @ xs)" for b
        using that head_not_addr [OF R(1) j(1)] True by metis
      then show ?thesis using head_inj [OF R(1) j(1) k j(2)] True by auto
    next
      case False
      then obtain c where c: "z = baddr s j c" "c \<in> set (FL j)" using z by auto
      then have cf: "c \<in> free_at bf s j" "c \<in> free_at bf s' j"
        using R(4) [OF j(1)] fr [OF j(1)] j(2) by auto
      have "z \<noteq> baddr s k b" if "b \<in> set (FL k)" for b
        using free_addr_neq [OF R(1,2), of c j b k] c cf that R(4) [OF k] j(2) by (auto simp: free_at_def)
      moreover have "z \<noteq> baddr s k b" if "b \<in> set xs" for b
        using free_addr_neq [OF R(1) t, of c j b k] c cf that fr [OF k] j(2) G(1)
        by (auto simp: free_at_def)
      moreover have "z \<noteq> head s k" using head_not_addr [OF R(1) k] R(5) [OF j(1) c(2)] c(1) by metis
      ultimately show ?thesis by auto
    qed
    then show "lmem s' z = lmem s z" by (rule mem)
  qed
  show ?thesis
    unfolding lists_def G(1,4,5,6)
  proof (intro conjI allI impI ballI)
    fix j assume j: "j \<le> msz s"
    show "dlist (lmem s') (head s j) (map (baddr s' j) ((FL(k := xs)) j))"
      using dl dj [OF j] by (simp add: G(3) fun_eq_iff cong: map_cong)
    show "set ((FL(k := xs)) j) \<subseteq> free_at bf s' j" using fr [OF j] .
    show "usable lo s j b" if "b \<in> set ((FL(k := xs)) j)" for b
      using us that R(5) [OF j] by (simp split: if_splits)
  qed (use R(1) t in simp_all)
qed

lemma rep_step:
  assumes r: "rep bf lo s FL" and g: "same_geom s' s"
    and t: "tree_inv (msz s) (abit bf s') (sbit bf s')" and k: "k \<le> msz s"
    and fr: "\<And>j. free_at bf s' j = (if j = k then set xs else free_at bf s j)"
    and dl: "dlist (lmem s') (head s k) (map (baddr s k) xs)"
    and mem: "\<And>z. z \<notin> set (head s k # map (baddr s k) (FL k @ xs)) \<Longrightarrow> lmem s' z = lmem s z"
    and us: "\<And>b. b \<in> set xs \<Longrightarrow> usable lo s k b"
  shows "rep bf lo s' (FL(k := xs))"
proof -
  have l: "lists bf lo s FL" and e: "\<And>j. j \<le> msz s \<Longrightarrow> set (FL j) = free_at bf s j"
    using r by (auto simp: rep_lists)
  have e': "set ((FL(k := xs)) j) = free_at bf s' j" if "j \<le> msz s" for j
    using fr [of j] e [OF that] by auto
  have "lists bf lo s' (FL(k := xs))"
    by (rule lists_step [OF l g t k]) (use e' dl mem us in blast)+
  then show ?thesis using e' same_geomD(1) [OF g] by (simp add: rep_lists)
qed

lemma rep_cong:
  assumes "same_geom s' s" "abit bf s' = abit bf s" "sbit bf s' = sbit bf s" "lmem s' = lmem s"
  shows "rep bf lo s' FL = rep bf lo s FL"
  using same_geomD [OF assms(1)] assms(2-4)
  by (simp add: rep_def free_at_def cong: map_cong)

lemma initialized_frame [simp]:
  "same_geom (s\<lparr>initialized := v\<rparr>) s" "abit bf (s\<lparr>initialized := v\<rparr>) = abit bf s"
  "sbit bf (s\<lparr>initialized := v\<rparr>) = sbit bf s"
  by (simp_all add: same_geom_def head_def abit_def sbit_def fun_eq_iff)

text \<open>Pushing one more block on its list, the bitmaps unchanged.\<close>

lemma push_free_Ret:
  assumes s: "shape lo s" and k: "k \<le> msz s" and d: "dlist (lmem s) (head s k) (map (baddr s k) ys)"
    and c: "c \<notin> set ys" and u: "usable lo s k c"
  shows "\<exists>m'. push_free s k (baddr s k c) = Ret (s\<lparr>lmem := m'\<rparr>) \<and>
    dlist m' (head s k) (map (baddr s k) (c # ys)) \<and>
    (\<forall>z. z \<notin> set (head s k # map (baddr s k) (c # ys)) \<longrightarrow> m' z = lmem s z)"
proof -
  have a: "baddr s k c \<notin> set (head s k # map (baddr s k) ys)"
    using c head_not_addr [OF s k u] baddr_inj [OF s, of k] by (auto dest: injD)
  have "baddr s k c \<noteq> 0" using shapeD(7) [OF s] by (simp add: baddr_def)
  from dlist_push [OF d a this] show ?thesis
    using get_info_Ret [OF s k] by (auto simp: push_free_def head_def)
qed

lemma lists_push:
  assumes r: "lists bf lo s FL" and k: "k \<le> msz s" and c: "c \<notin> set (FL k)" "c \<in> free_at bf s k"
    and u: "usable lo s k c"
  shows "\<exists>s'. push_free s k (baddr s k c) = Ret s' \<and> lists bf lo s' (FL(k := c # FL k)) \<and>
    same_geom s' s \<and> abit bf s' = abit bf s \<and> sbit bf s' = sbit bf s"
proof -
  note R = listsD [OF r]
  obtain m' where m': "push_free s k (baddr s k c) = Ret (s\<lparr>lmem := m'\<rparr>)"
    "dlist m' (head s k) (map (baddr s k) (c # FL k))"
    "\<forall>z. z \<notin> set (head s k # map (baddr s k) (c # FL k)) \<longrightarrow> m' z = lmem s z"
    using push_free_Ret [OF R(1) k R(3) [OF k] c(1) u] by blast
  have "lists bf lo (s\<lparr>lmem := m'\<rparr>) (FL(k := c # FL k))"
  proof (rule lists_step [OF r same_geom_lmem _ k])
    show "set ((FL(k := c # FL k)) j) \<subseteq> free_at bf (s\<lparr>lmem := m'\<rparr>) j" if "j \<le> msz s" for j
      using R(4) [OF that] c(2) same_geomD(1) [OF same_geom_lmem, of m' s] by (auto simp: free_at_def)
    show "usable lo s k b" if "b \<in> set (c # FL k)" for b using that u R(5) [OF k] by auto
  qed (use m' R(2) in auto)
  then show ?thesis using m'(1) by auto
qed

lemma byte_bit_eq: "c = b \<longleftrightarrow> c div 8 = b div 8 \<and> c mod 8 = b mod (8::nat)"
  by (metis div_mult_mod_eq)

locale buddy_bits = bit_field bf for bf :: "8 word bitops"
begin

lemma abit_set_abit:
  assumes "shape lo s" "blk_in (msz s) k b"
  shows "abit bf (set_abit bf s k b v) = upd_bit (abit bf s) k b v"
proof (intro ext)
  fix j c
  have "k < length (infos s)" using assms by (simp add: blk_in_def shapeD)
  then show "abit bf (set_abit bf s k b v) j c = upd_bit (abit bf s) k b v j c"
    using alloc_byte [OF assms] byte_bit_eq [of c b]
    by (simp add: abit_def set_abit_def nth_upd get_set_bit)
qed

lemma sbit_set_sbit:
  assumes "shape lo s" "blk_in (msz s) k b" "0 < k"
  shows "sbit bf (set_sbit bf s k b v) = upd_bit (sbit bf s) k b v"
proof (intro ext)
  fix j c
  have "k < length (infos s)" using assms by (simp add: blk_in_def shapeD)
  then show "sbit bf (set_sbit bf s k b v) j c = upd_bit (sbit bf s) k b v j c"
    using split_byte [OF assms] byte_bit_eq [of c b] assms(3)
    by (simp add: sbit_def set_sbit_def nth_upd get_set_bit)
qed

lemma sbit_set_abit [simp]: "sbit bf (set_abit bf s k b v) = sbit bf s"
  by (auto simp: fun_eq_iff sbit_def set_abit_def nth_upd)

lemma abit_set_sbit [simp]: "abit bf (set_sbit bf s k b v) = abit bf s"
  by (auto simp: fun_eq_iff abit_def set_sbit_def nth_upd)

end

interpretation std_buddy: buddy_bits std_bitops
  by unfold_locales

text \<open>The loop bodies as steps of the tree.\<close>

context buddy_bits
begin

lemma used_freeD:
  "(k, b) \<in> used bf s \<Longrightarrow> blk_in (msz s) k b \<and> k \<le> msz s"
  by (auto simp: used_def live_def blk_in_def)

lemma rep_take:
  assumes r: "rep bf lo s FL" and k: "k \<le> msz s" and h: "FL k = b # bs"
  defines "s1 \<equiv> s\<lparr>lmem := list_remove (lmem s) (baddr s k b)\<rparr>"
  defines "s2 \<equiv> set_abit bf s1 k b True"
  shows "list_pop (lmem s) (head s k) = Ret (Some (baddr s k b), lmem s1)"
    and "blk_index s1 k (baddr s k b) = Ret b"
    and "upd_info s1 k (\<lambda>info. alloc_set bf info b True) = Ret s2"
    and "rep bf lo s2 (FL(k := bs))" and "same_geom s2 s"
    and "used bf s2 = insert (k, b) (used bf s)" and "(k, b) \<notin> used bf s" and "usable lo s k b"
proof -
  note R = repD [OF r]
  have d: "dlist (lmem s) (head s k) (baddr s k b # map (baddr s k) bs)" using R(3) [OF k] h by simp
  have b: "b \<in> free_at bf s k" using R(4) [OF k] h by auto
  note bb = R(6) [OF k b]
  have g1: "same_geom s1 s" by (simp add: s1_def)
  note G1 = same_geomD [OF g1]
  show g: "same_geom s2 s" using same_geom_trans [OF geom_set_abit g1] by (simp add: s2_def)
  show "list_pop (lmem s) (head s k) = Ret (Some (baddr s k b), lmem s1)"
    using dlist_pop [OF d] by (simp add: s1_def)
  show "blk_index s1 k (baddr s k b) = Ret b"
    using blk_index_baddr [of lo s1 k k b] R(1) k by (simp add: G1)
  show "upd_info s1 k (\<lambda>info. alloc_set bf info b True) = Ret s2"
    using upd_alloc [of lo s1 k b] R(1) bb by (simp add: G1 s2_def)
  have bits: "abit bf s2 = upd_bit (abit bf s) k b True" "sbit bf s2 = sbit bf s"
    using abit_set_abit [of lo s1 k b] R(1) bb G1(1,6) by (simp_all add: s2_def s1_def)
  note T = take_blk [OF R(2) b [unfolded free_at_def], folded bits, unfolded bits(2) [symmetric]]
  have m: "msz s2 = msz s" using same_geomD(1) [OF g] .
  have dist: "distinct (b # bs)"
    using dlist_nodes [OF d] by (auto simp: distinct_map)
  show "rep bf lo s2 (FL(k := bs))"
  proof (rule rep_step [OF r g _ k])
    show "tree_inv (msz s) (abit bf s2) (sbit bf s2)" using T(1) bits(2) by simp
    show "free_at bf s2 j = (if j = k then set bs else free_at bf s j)" for j
      using T(3) [of j] R(4) [OF k] h dist bits by (auto simp: free_at_def m)
    show "dlist (lmem s2) (head s k) (map (baddr s k) bs)"
      using dlist_remove(1) [of _ _ "[]", simplified, OF d] by (simp add: s2_def s1_def)
    show "lmem s2 z = lmem s z" if "z \<notin> set (head s k # map (baddr s k) (FL k @ bs))" for z
      using dlist_remove(2) [of _ _ "[]", simplified, OF d] that h by (simp add: s2_def s1_def)
    show "usable lo s k c" if "c \<in> set bs" for c
      using that R(4,5) [OF k] h by auto
  qed
  show "used bf s2 = insert (k, b) (used bf s)" using T(2) bits by (simp add: used_def m)
  show "(k, b) \<notin> used bf s" using b by (auto simp: used_def free_at_def live_def free_blks_def)
  show "usable lo s k b" by (rule R(5) [OF k b])
qed

lemma rep_push:
  assumes r: "rep bf lo s FL" and g: "same_geom s1 s" and m: "lmem s1 = lmem s"
    and k: "k \<le> msz s" and c: "c \<notin> set (FL k)" and u: "usable lo s k c"
    and t: "tree_inv (msz s) (abit bf s1) (sbit bf s1)"
    and fr: "\<And>j. free_at bf s1 j = (if j = k then insert c (free_at bf s k) else free_at bf s j)"
  shows "\<exists>s'. push_free s1 k (baddr s k c) = Ret s' \<and> rep bf lo s' (FL(k := c # FL k)) \<and>
    same_geom s' s \<and> used bf s' = used bf s1"
proof -
  note R = repD [OF r] and G = same_geomD [OF g]
  have "shape lo s1" "k \<le> msz s1" "dlist (lmem s1) (head s1 k) (map (baddr s1 k) (FL k))" "usable lo s1 k c"
    using R(1) R(3) [OF k] k u m G(3) by (simp_all add: G cong: map_cong)
  from push_free_Ret [OF this(1-3) c this(4)] obtain m' where
    m': "push_free s1 k (baddr s k c) = Ret (s1\<lparr>lmem := m'\<rparr>)"
      "dlist m' (head s k) (map (baddr s k) (c # FL k))"
      "\<And>z. z \<notin> set (head s k # map (baddr s k) (c # FL k)) \<Longrightarrow> m' z = lmem s z"
    by (auto simp: G m cong: map_cong)
  define s' where "s' = s1\<lparr>lmem := m'\<rparr>"
  have g': "same_geom s' s" using same_geom_trans [OF same_geom_lmem g] by (simp add: s'_def)
  have fa: "free_at bf s' j = free_at bf s1 j" for j
    using same_geomD(1) [OF g'] G(1) by (simp add: free_at_def s'_def)
  have "push_free s1 k (baddr s k c) = Ret s'" using m'(1) by (simp add: s'_def)
  moreover have "rep bf lo s' (FL(k := c # FL k))"
    by (rule rep_step [OF r g' _ k])
      (use t fr m' u R(4,5) [OF k] fa in \<open>auto simp: s'_def\<close>)
  moreover have "used bf s' = used bf s1"
    using same_geomD(1) [OF g'] G(1) by (simp add: used_def s'_def)
  ultimately show ?thesis using g' by blast
qed

end

context buddy_bits
begin

lemma rep_split:
  assumes r: "rep bf lo s FL" and b: "(Suc k, b) \<in> used bf s" and u: "usable lo s (Suc k) b"
  shows "\<exists>s' FL'. split_level bf s (baddr s (Suc k) b) (Suc k) = Ret s' \<and> rep bf lo s' FL' \<and>
    same_geom s' s \<and> used bf s' = insert (k, 2 * b) (used bf s - {(Suc k, b)})"
proof -
  note R = repD [OF r]
  from b have bi: "blk_in (msz s) (Suc k) b" "Suc k \<le> msz s" using used_freeD by auto
  have ci: "blk_in (msz s) k (2 * b)" "blk_in (msz s) k (2 * b + 1)" "k \<le> msz s"
    using blk_in_children [OF bi(1)] bi(2) by auto
  define s1 where "s1 = set_sbit bf s (Suc k) b True"
  define s2 where "s2 = set_abit bf s1 k (2 * b) True"
  have g1: "same_geom s1 s" by (simp add: s1_def)
  note G1 = same_geomD [OF g1]
  have g2: "same_geom s2 s" using same_geom_trans [OF geom_set_abit g1] by (simp add: s2_def)
  note G2 = same_geomD [OF g2]
  have bits: "abit bf s2 = upd_bit (abit bf s) k (2 * b) True"
    "sbit bf s2 = upd_bit (sbit bf s) (Suc k) b True"
    using abit_set_abit [of lo s1 k "2 * b"] sbit_set_sbit [OF R(1) bi(1)] R(1) ci G1(1,6)
    by (simp_all add: s2_def s1_def)
  note T = split_blk [OF R(2) b [unfolded used_def], folded bits]
  have new: "2 * b + 1 \<notin> set (FL k)"
    using R(4) [OF ci(3)] b bi by (auto simp: free_at_def free_blks_def used_def live_def)
  have e: "baddr s (Suc k) b + bsz s k = baddr s k (2 * b + 1)" by (simp add: baddr_def bsz_def algebra_simps)
  have lim: "baddr s (Suc k) b + bsz s k < usize_lim"
    using baddr_end [OF ci(2)] shapeD(6) [OF R(1)] unfolding e by linarith
  have "split_level bf s (baddr s (Suc k) b) (Suc k) = push_free s2 k (baddr s k (2 * b + 1))"
    using blk_index_baddr [OF R(1) bi(2), of "Suc k" b] upd_split [OF R(1) bi(1), of bf True]
      blk_size_Ret [of lo s1 k] blk_index_baddr [of lo s1 k "Suc k" b] upd_alloc [of lo s1 k "2 * b" bf True]
      R(1) ci G1 lim
    by (simp add: split_level_def uadd_Ret e mult.commute [of b] flip: s1_def s2_def)
  moreover have "\<exists>s'. push_free s2 k (baddr s k (2 * b + 1)) = Ret s' \<and>
      rep bf lo s' (FL(k := (2 * b + 1) # FL k)) \<and> same_geom s' s \<and> used bf s' = used bf s2"
    by (rule rep_push [OF r g2 _ ci(3) new])
      (use u T G2(1) in \<open>simp_all add: usable_children free_at_def s2_def s1_def\<close>)
  ultimately show ?thesis
    using T(2) G2(1) by (auto simp: used_def)
qed

lemma coalesce_prefix:
  assumes r: "rep bf lo s FL" and b: "(k, b) \<in> used bf s" and k: "k < msz s"
  defines "s1 \<equiv> set_abit bf s k b False"
  shows "blk_index s k (baddr s k b) = Ret b"
    and "(if b mod 2 = 0 then b + 1 else b - 1) = buddy_of b"
    and "upd_info s k (\<lambda>info. alloc_set bf info b False) = Ret s1"
    and "get_info_mut s1 k = Ret (infos s1 ! k)"
    and "is_alloc_set bf (infos s1 ! k) (buddy_of b) = Ret (abit bf s k (buddy_of b))"
    and "same_geom s1 s" and "abit bf s1 = upd_bit (abit bf s) k b False" and "sbit bf s1 = sbit bf s"
proof -
  note R = repD [OF r]
  from b have bi: "blk_in (msz s) k b" "k \<le> msz s" using used_freeD by auto
  show "blk_index s k (baddr s k b) = Ret b" using blk_index_baddr [OF R(1) bi(2), of k b] by simp
  show "(if b mod 2 = 0 then b + 1 else b - 1) = buddy_of b" by (simp add: buddy_of_def even_iff_mod_2_eq_zero)
  show "upd_info s k (\<lambda>info. alloc_set bf info b False) = Ret s1"
    using upd_alloc [OF R(1) bi(1)] by (simp add: s1_def)
  show g: "same_geom s1 s" by (simp add: s1_def)
  note G = same_geomD [OF g]
  show a: "abit bf s1 = upd_bit (abit bf s) k b False" "sbit bf s1 = sbit bf s"
    using abit_set_abit [OF R(1) bi(1)] by (simp_all add: s1_def)
  show "get_info_mut s1 k = Ret (infos s1 ! k)" using get_info_Ret [of lo s1 k] R(1) bi(2) G(1,6) by simp
  show "is_alloc_set bf (infos s1 ! k) (buddy_of b) = Ret (abit bf s k (buddy_of b))"
    using read_alloc [of lo s1 k "buddy_of b" bf] R(1) blk_in_buddy [OF bi(1) k] G(1,6)
      buddy_of_props(3) [of b] by (simp add: a)
qed

lemma rep_release:
  assumes r: "rep bf lo s FL" and b: "(k, b) \<in> used bf s" and k: "k < msz s"
    and u: "usable lo s k b" and bu: "abit bf s k (buddy_of b)"
  shows "\<exists>s1 s' FL'. coalesce_level bf s (baddr s k b) k = Ret (None, s1) \<and>
    push_free s1 k (baddr s k b) = Ret s' \<and> rep bf lo s' FL' \<and>
    same_geom s' s \<and> used bf s' = used bf s - {(k, b)}"
proof -
  note R = repD [OF r] and P = coalesce_prefix [OF r b k]
  define s1 where "s1 = set_abit bf s k b False"
  note P' = P [folded s1_def]
  have G: "msz s1 = msz s" using same_geomD(1) [OF P'(6)] .
  have new: "b \<notin> set (FL k)"
    using R(4) [of k] b k by (auto simp: free_at_def free_blks_def used_def live_def)
  note T = release_blk [OF R(2) b [unfolded used_def] k bu, folded P'(7), folded P'(8)]
  have "coalesce_level bf s (baddr s k b) k = Ret (None, s1)"
    using bu by (simp add: coalesce_level_def P'(1-5) Let_def)
  moreover have "\<exists>s'. push_free s1 k (baddr s k b) = Ret s' \<and>
      rep bf lo s' (FL(k := b # FL k)) \<and> same_geom s' s \<and> used bf s' = used bf s1"
    by (rule rep_push [OF r P'(6) _ less_imp_le [OF k] new u])
      (use T G P'(8) in \<open>simp_all add: free_at_def s1_def\<close>)
  ultimately show ?thesis
    using T(2) G P'(8) by (auto simp: used_def)
qed

end

context buddy_bits
begin

lemma rep_merge:
  assumes r: "rep bf lo s FL" and b: "(k, b) \<in> used bf s" and k: "k < msz s"
    and u: "usable lo s k b" and bu: "\<not> abit bf s k (buddy_of b)"
  shows "\<exists>s' FL'. coalesce_level bf s (baddr s k b) k = Ret (Some (baddr s (Suc k) (b div 2)), s') \<and>
    rep bf lo s' FL' \<and> same_geom s' s \<and> usable lo s (Suc k) (b div 2) \<and> (Suc k, b div 2) \<notin> used bf s \<and>
    used bf s' = insert (Suc k, b div 2) (used bf s - {(k, b)})"
proof -
  note R = repD [OF r] and P = coalesce_prefix [OF r b k]
  from b have bi: "blk_in (msz s) k b" "k \<le> msz s" using used_freeD by auto
  note pi = blk_in_parent [OF bi(1) k]
  define a where "a = baddr s k (buddy_of b)"
  define s1 where "s1 = set_abit bf s k b False"
  define s2 where "s2 = s1\<lparr>lmem := list_remove (lmem s1) a\<rparr>"
  define s3 where "s3 = set_sbit bf s2 (Suc k) (b div 2) False"
  note P' = P [folded s1_def] and G1 = same_geomD [OF P(6), folded s1_def]
  have g2: "same_geom s2 s" using same_geom_trans [OF same_geom_lmem P'(6)] by (simp add: s2_def)
  have g3: "same_geom s3 s" using same_geom_trans [OF geom_set_sbit g2] by (simp add: s3_def)
  note G2 = same_geomD [OF g2] and G3 = same_geomD [OF g3]
  have bits: "abit bf s3 = upd_bit (abit bf s) k b False"
    "sbit bf s3 = upd_bit (sbit bf s) (Suc k) (b div 2) False"
    using sbit_set_sbit [of lo s2 "Suc k" "b div 2"] R(1) pi G2(1,6) P'(7,8)
    by (simp_all add: s3_def s2_def)
  note T = merge_blk [OF R(2) b [unfolded used_def] k bu, folded bits]
  have f: "buddy_of b \<in> free_at bf s k" using T(1) by (simp add: free_at_def)
  have ub: "usable lo s k (buddy_of b)" by (rule R(5) [OF bi(2) f])
  have up: "usable lo s (Suc k) (b div 2)"
    using u ub children_cases [of b] buddy_of_children [of "b div 2"] by (metis usable_children)
  obtain as bs where FL: "FL k = as @ buddy_of b # bs"
    using f R(4) [OF bi(2)] by (metis split_list)
  have d: "dlist (lmem s) (head s k) (map (baddr s k) as @ a # map (baddr s k) bs)"
    using R(3) [OF bi(2)] FL by (simp add: a_def)
  have dist: "distinct (as @ buddy_of b # bs)"
    using dlist_nodes [OF R(3) [OF bi(2)]] distinct_map [of "baddr s k" "FL k"] FL by metis
  have m3: "lmem s3 = list_remove (lmem s) a" by (simp add: s3_def s2_def s1_def)
  have "rep bf lo s3 (FL(k := as @ bs))"
  proof (rule rep_step [OF r g3 T(2) bi(2)])
    show "free_at bf s3 j = (if j = k then set (as @ bs) else free_at bf s j)" for j
      using T(4) [of j] R(4) [OF bi(2)] FL dist by (auto simp: free_at_def G3)
    show "dlist (lmem s3) (head s k) (map (baddr s k) (as @ bs))"
      using dlist_remove(1) [OF d] by (simp add: m3)
    show "lmem s3 z = lmem s z" if "z \<notin> set (head s k # map (baddr s k) (FL k @ as @ bs))" for z
      using dlist_remove(2) [OF d] that FL by (auto simp: m3 a_def)
    show "usable lo s k c" if "c \<in> set (as @ bs)" for c
      using that R(4,5) [OF bi(2)] FL by auto
  qed
  moreover have "coalesce_level bf s (baddr s k b) k = Ret (Some (baddr s (Suc k) (b div 2)), s3)"
  proof -
    have "a \<noteq> 0" using shapeD(7) [OF R(1)] by (simp add: a_def baddr_def)
    moreover have "blk_addr s1 k (buddy_of b) = Ret a"
      using blk_addr_Ret [of lo s1 k "buddy_of b"] R(1) blk_in_buddy [OF bi(1) k] by (simp add: G1 a_def)
    moreover have "(if buddy_of b mod 2 = 0 then a else baddr s k b) = baddr s (Suc k) (b div 2)"
      using even_buddy_of [of b] by (simp add: baddr_parent a_def flip: even_iff_mod_2_eq_zero)
    moreover have "blk_index s2 (k + 1) (baddr s (Suc k) (b div 2)) = Ret (b div 2)"
      using blk_index_baddr [of lo s2 "Suc k" "Suc k" "b div 2"] R(1) k by (simp add: G2)
    moreover have "upd_info s2 (k + 1) (\<lambda>info. split_set bf info (b div 2) False) = Ret s3"
      using upd_split [of lo s2 "Suc k" "b div 2"] R(1) pi by (simp add: G2 s3_def)
    ultimately show ?thesis
      using bu by (simp add: coalesce_level_def P'(1-5) Let_def flip: s2_def)
  qed
  moreover have "(Suc k, b div 2) \<notin> used bf s"
    using tree_invD(3) [OF R(2) bi(1) k] b by (auto simp: used_def live_def)
  ultimately show ?thesis using g3 up T(3) G3(1) by (auto simp: used_def)
qed

lemma rep_coalesce:
  assumes "rep bf lo s FL" "(k, b) \<in> used bf s" "usable lo s k b"
  shows "\<exists>raw' k' s1 s' FL'. coalesce bf s (baddr s k b) (msz s) k = Ret (raw', k', s1) \<and>
    push_free s1 k' raw' = Ret s' \<and> rep bf lo s' FL' \<and> same_geom s' s \<and> used bf s' = used bf s - {(k, b)}"
  using assms
proof (induction "msz s - k" arbitrary: s FL k b)
  case 0
  then show ?case using usable_not_top [OF repD(1)] used_freeD by fastforce
next
  case (Suc n)
  then have k: "k < msz s" by simp
  show ?case
  proof (cases "abit bf s k (buddy_of b)")
    case True
    from rep_release [OF Suc.prems(1,2) k Suc.prems(3) True] k show ?thesis
      by (subst coalesce.simps) fastforce
  next
    case False
    from rep_merge [OF Suc.prems(1,2) k Suc.prems(3) False] obtain s2 FL2 where
      c: "coalesce_level bf s (baddr s k b) k = Ret (Some (baddr s (Suc k) (b div 2)), s2)"
      and r2: "rep bf lo s2 FL2" and g: "same_geom s2 s" and u: "usable lo s (Suc k) (b div 2)"
      and nl: "(Suc k, b div 2) \<notin> used bf s"
      and us: "used bf s2 = insert (Suc k, b div 2) (used bf s - {(k, b)})" by blast
    note G = same_geomD [OF g]
    have n: "n = msz s2 - Suc k" using Suc.hyps(2) by (simp add: G)
    have "(Suc k, b div 2) \<in> used bf s2" "usable lo s2 (Suc k) (b div 2)" using us u by (simp_all add: G)
    from Suc.hyps(1) [OF n r2 this]
    obtain raw' k' s1 s' FL' where
      IH: "coalesce bf s2 (baddr s (Suc k) (b div 2)) (msz s) (Suc k) = Ret (raw', k', s1)"
        "push_free s1 k' raw' = Ret s'" "rep bf lo s' FL'" "same_geom s' s2"
        "used bf s' = used bf s2 - {(Suc k, b div 2)}"
      unfolding G by blast
    have "used bf s' = used bf s - {(k, b)}" using IH(5) us nl by auto
    moreover have "coalesce bf s (baddr s k b) (msz s) k = Ret (raw', k', s1)"
      using c IH(1) k by (subst coalesce.simps) simp
    ultimately show ?thesis using IH same_geom_trans [OF IH(4) g] by blast
  qed
qed

text \<open>The smallest split block above an address in use is its parent.\<close>

lemma find_split_used:
  assumes r: "rep bf lo s FL" and b: "(k, b) \<in> used bf s" and k: "k < msz s" and i: "i \<le> k"
  shows "find_split bf s (baddr s k b) (msz s) i = Ret k"
  using i
proof (induction "k - i" arbitrary: i)
  note R = repD [OF r]
  from b have bi: "blk_in (msz s) k b" using used_freeD by auto
  case 0
  then have "i = k" by simp
  moreover have "sbit bf s (Suc k) (b div 2)"
    using tree_invD(3) [OF R(2) bi k] b by (auto simp: used_def live_def)
  moreover have "b * 2 ^ k div 2 ^ Suc k = b div 2" by (simp add: mult.commute)
  ultimately show ?case
    using k blk_index_baddr [OF R(1), of "Suc k" k b] read_split [OF R(1) blk_in_parent [OF bi k], of bf]
      get_info_Ret [OF R(1), of "Suc k"]
    by (subst find_split.simps) simp
next
  note R = repD [OF r]
  from b have bi: "blk_in (msz s) k b" using used_freeD by auto
  case (Suc n)
  then have ik: "Suc i \<le> k" by simp
  define c where "c = b * 2 ^ (k - Suc i)"
  have idx: "b * 2 ^ k div 2 ^ Suc i = c"
    using ik by (simp add: c_def power_diff flip: div_mult_swap) (metis div_mult_swap le_imp_power_dvd power_Suc power_diff zero_neq_numeral)
  have cb: "c div 2 ^ (k - Suc i) = b" by (simp add: c_def)
  have "b * 2 ^ (k - Suc i) < 2 ^ (msz s - k) * 2 ^ (k - Suc i)"
    using bi by (simp add: blk_in_def)
  also have "\<dots> = 2 ^ (msz s - Suc i)" using k ik by (simp flip: power_add)
  finally have ci: "blk_in (msz s) (Suc i) c" using k ik by (simp add: blk_in_def c_def)
  have "\<not> sbit bf s (Suc i) c"
  proof
    assume sc: "sbit bf s (Suc i) c"
    have nb: "\<not> sbit bf s k b" using b by (simp add: used_def live_def)
    show False
    proof (cases "Suc i = k")
      case False
      with ik have "sbit bf s (Suc i + (k - Suc i)) (c div 2 ^ (k - Suc i))"
        using ancestors_split [OF R(2) ci tree_invD(1) [OF R(2) ci sc], of "k - Suc i"] k by simp
      with nb cb ik show False by simp
    qed (use sc nb cb in simp)
  qed
  then have "find_split bf s (baddr s k b) (msz s) i = find_split bf s (baddr s k b) (msz s) (Suc i)"
    using k ik blk_index_baddr [OF R(1), of "Suc i" k b] read_split [OF R(1) ci, of bf] idx
      get_info_Ret [OF R(1), of "Suc i"]
    by (subst find_split.simps) simp
  then show ?case using Suc.hyps(1) [of "Suc i"] Suc.hyps(2) ik by simp
qed

end

text \<open>The size class \<open>alloc\<close> computes is the smallest one that holds the request.\<close>

definition fits :: "buddy_system \<Rightarrow> nat \<Rightarrow> nat \<Rightarrow> bool" where
  "fits s sz k \<longleftrightarrow> sz \<le> bsz s k \<and> (0 < k \<longrightarrow> bsz s (k - 1) < sz)"

lemma fits_unique: "fits s sz i \<Longrightarrow> fits s sz k \<Longrightarrow> i = k"
proof (rule ccontr)
  assume f: "fits s sz i" "fits s sz k" and ne: "i \<noteq> k"
  have "False" if "a < b" "fits s sz a" "fits s sz b" for a b
  proof -
    have "bsz s a \<le> bsz s (b - 1)" by (rule bsz_mono) (use that in simp)
    then show False using that by (simp add: fits_def)
  qed
  then show False using f ne by (metis nat_neq_iff)
qed

lemma small_size_fits:
  assumes "shape lo s" "sz \<le> 2 ^ 63"
  shows "\<exists>k. small_size s sz = Ret k \<and> fits s sz k"
proof (cases "sz \<le> leaf_size s")
  case True
  then show ?thesis by (auto simp: small_size_def fits_def bsz_def)
next
  case False
  obtain n where n: "leaf_size s = 2 ^ n" using assms(1) by (auto simp: shape_def)
  define p where "p = bit_len (sz - 1)"
  from False n have sz2: "2 ^ n < sz" by simp
  moreover have "1 \<le> (2::nat) ^ n" by simp
  ultimately have sz: "1 < sz" "2 ^ n < sz" by linarith+
  have np: "next_power_of_two sz = 2 ^ p" using sz by (simp add: next_power_of_two_def p_def)
  have ge: "sz \<le> 2 ^ p" using next_power_of_two_ge [of sz] np by simp
  have le: "2 ^ (p - 1) < sz" using bit_len_least [of "sz - 1"] sz by (simp add: p_def)
  have "2 ^ n < (2::nat) ^ p" using sz ge by linarith
  then have np': "n < p" by simp
  have "2 ^ (p - 1) < (2::nat) ^ 63" using le assms(2) by linarith
  then have "p - 1 < 63" by (rule power_less_imp_less_exp [rotated]) simp
  then have "p \<le> 63" by simp
  then have "(2::nat) ^ p \<le> 2 ^ 63" by (rule power_increasing) simp
  then have "(2::nat) ^ p < usize_lim" by (simp add: usize_lim_def)
  moreover have "(2::nat) ^ p div 2 ^ n = 2 ^ (p - n)" using np' by (simp add: power_diff)
  ultimately have "small_size s sz = Ret (p - n)"
    using False by (simp add: small_size_def np n trailing_zeros_pow2)
  moreover have "bsz s (p - n) = 2 ^ p" "bsz s (p - n - 1) = 2 ^ (p - 1)"
    using np' by (simp_all add: bsz_def n flip: power_add)
  ultimately show ?thesis using ge le by (auto simp: fits_def)
qed

lemma find_free_spec:
  assumes r: "rep bf lo s FL"
  shows "\<exists>j. find_free s i = Ret j \<and> i \<le> j \<and> (\<forall>m. i \<le> m \<longrightarrow> m < j \<longrightarrow> m < nsizes s \<longrightarrow> FL m = []) \<and>
    (j < nsizes s \<longrightarrow> FL j \<noteq> [])"
proof (induction "nsizes s - i" arbitrary: i)
  case 0
  then show ?case by (subst find_free.simps) auto
next
  case (Suc n)
  note R = repD [OF r]
  from Suc.hyps(2) have i: "i < nsizes s" "i \<le> msz s" using shapeD(2) [OF R(1)] by auto
  have e: "list_is_empty (lmem s) (bi_free (infos s ! i)) \<longleftrightarrow> FL i = []"
    using dlist_is_empty [OF R(3) [OF i(2)]] by (simp add: head_def)
  show ?case
  proof (cases "FL i = []")
    case True
    have "find_free s i = find_free s (Suc i)"
      using True i e R(1) by (subst find_free.simps) simp
    moreover from Suc.hyps(2) have "n = nsizes s - Suc i" by simp
    from Suc.hyps(1) [OF this] obtain j where
      "find_free s (Suc i) = Ret j" "Suc i \<le> j" "\<forall>m. Suc i \<le> m \<longrightarrow> m < j \<longrightarrow> m < nsizes s \<longrightarrow> FL m = []"
      "j < nsizes s \<longrightarrow> FL j \<noteq> []" by blast
    ultimately show ?thesis using True by (metis Suc_leD Suc_leI le_eq_less_or_eq)
  next
    case False
    then show ?thesis using i e R(1) by (subst find_free.simps) auto
  qed
qed

context buddy_bits
begin

lemma rep_split_down:
  assumes "rep bf lo s FL" "(j, b) \<in> used bf s" "usable lo s j b" "i \<le> j"
  shows "\<exists>s' FL'. split_down bf s (baddr s j b) j i = Ret s' \<and> rep bf lo s' FL' \<and> same_geom s' s \<and>
    used bf s' = insert (i, b * 2 ^ (j - i)) (used bf s - {(j, b)}) \<and> usable lo s i (b * 2 ^ (j - i))"
  using assms
proof (induction "j - i" arbitrary: s FL j b)
  case 0
  then show ?case by (subst split_down.simps) auto
next
  case (Suc n)
  then obtain k where k: "j = Suc k" "i \<le> k" by (cases j) auto
  from rep_split [of lo s FL k b] Suc.prems k obtain s2 FL2 where
    c: "split_level bf s (baddr s j b) j = Ret s2" and r2: "rep bf lo s2 FL2" and g: "same_geom s2 s"
    and us: "used bf s2 = insert (k, 2 * b) (used bf s - {(j, b)})" by blast
  note G = same_geomD [OF g]
  have n: "n = k - i" using Suc.hyps(2) k by simp
  have "(k, 2 * b) \<in> used bf s2" "usable lo s2 k (2 * b)"
    using us Suc.prems(3) k by (simp_all add: G usable_children)
  from Suc.hyps(1) [OF n r2 this k(2)] obtain s' FL' where
    IH: "split_down bf s2 (baddr s j b) k i = Ret s'" "rep bf lo s' FL'" "same_geom s' s2"
      "used bf s' = insert (i, 2 * b * 2 ^ (k - i)) (used bf s2 - {(k, 2 * b)})"
      "usable lo s i (2 * b * 2 ^ (k - i))"
    unfolding G baddr_children(1) k(1) by blast
  have e: "2 * b * 2 ^ (k - i) = b * 2 ^ (j - i)" using k by (simp add: Suc_diff_le)
  have "(k, 2 * b) \<notin> used bf s"
  proof
    assume "(k, 2 * b) \<in> used bf s"
    then have "sbit bf s (Suc k) b"
      using tree_invD(3) [OF repD(2) [OF Suc.prems(1)], of k "2 * b"] used_freeD [OF Suc.prems(2)] k
      by (auto simp: used_def live_def)
    with Suc.prems(2) k show False by (simp add: used_def live_def)
  qed
  then have "used bf s' = insert (i, b * 2 ^ (j - i)) (used bf s - {(j, b)})" using IH(4) us e by auto
  moreover have "split_down bf s (baddr s j b) j i = Ret s'"
    using c IH(1) k by (subst split_down.simps) simp
  moreover have "usable lo s i (b * 2 ^ (j - i))" using IH(5) unfolding e .
  ultimately show ?case using IH(2) same_geom_trans [OF IH(3) g] by blast
qed

lemma alloc_main:
  assumes inv: "buddy_inv bf lo s" and l: "0 < lsize l" "lsize l \<le> 2 ^ 63" "lalign l \<le> max_alignment s"
  shows "\<exists>k. fits s (lsize l) k \<and>
    (if \<forall>j. k \<le> j \<longrightarrow> j < nsizes s \<longrightarrow> free_at bf s j = {} then bs_alloc bf s l = Ret (0, s)
     else (\<exists>b s'. bs_alloc bf s l = Ret (baddr s k b, s') \<and> buddy_inv bf lo s' \<and> same_geom s' s \<and>
       (k, b) \<notin> used bf s \<and> used bf s' = insert (k, b) (used bf s) \<and> usable lo s k b))"
proof -
  from inv obtain FL where r: "rep bf lo s FL" by (auto simp: buddy_inv_def)
  note R = repD [OF r]
  have N: "nsizes s = Suc (msz s)" by (rule shapeD(2) [OF R(1)])
  obtain i where i: "small_size s (lsize l) = Ret i" "fits s (lsize l) i"
    using small_size_fits [OF R(1) l(2)] by blast
  obtain j where j: "find_free s i = Ret j" "i \<le> j" "j < nsizes s \<longrightarrow> FL j \<noteq> []"
    "\<forall>m. i \<le> m \<longrightarrow> m < j \<longrightarrow> m < nsizes s \<longrightarrow> FL m = []"
    using find_free_spec [OF r] by blast
  have start: "bs_alloc bf s l = (if j \<ge> nsizes s then Ret (0, s) else bs_alloc bf s l)"
    using l i(1) j(1) by (simp add: bs_alloc_def)
  show ?thesis
  proof (cases "nsizes s \<le> j")
    case True
    then have "\<forall>m. i \<le> m \<longrightarrow> m < nsizes s \<longrightarrow> free_at bf s m = {}"
      using j(4) R(4) N by (metis less_Suc_eq_le less_le_trans set_empty)
    with True start i(2) show ?thesis by auto
  next
    case False
    then have jm: "j \<le> msz s" using N by simp
    from False j(3) obtain b bs where h: "FL j = b # bs" by (cases "FL j") auto
    note T = rep_take [OF r jm h]
    define s1 where "s1 = s\<lparr>lmem := list_remove (lmem s) (baddr s j b)\<rparr>"
    define s2 where "s2 = set_abit bf s1 j b True"
    note T' = T [folded s1_def, folded s2_def] and G = same_geomD [OF T(5), folded s1_def, folded s2_def]
    have "(j, b) \<in> used bf s2" "usable lo s2 j b" using T'(6,8) by (simp_all add: G)
    from rep_split_down [OF T'(4) this j(2)] obtain s' FL' where
      D: "split_down bf s2 (baddr s j b) j i = Ret s'" "rep bf lo s' FL'" "same_geom s' s2"
        "used bf s' = insert (i, b * 2 ^ (j - i)) (used bf s2 - {(j, b)})" "usable lo s i (b * 2 ^ (j - i))"
      unfolding G by blast
    have s1: "s\<lparr>lmem := lmem s1\<rparr> = s1" by (simp add: s1_def)
    have ad: "baddr s i (b * 2 ^ (j - i)) = baddr s j b"
      using j(2) by (simp add: baddr_eq [OF R(1)] flip: power_add)
    have "bs_alloc bf s l = Ret (baddr s i (b * 2 ^ (j - i)), s')"
      using l i(1) j(1) False T'(1-3) D(1) get_info_Ret [OF R(1) jm]
      by (simp add: bs_alloc_def head_def s1 ad)
    moreover have nm: "(i, b * 2 ^ (j - i)) \<notin> used bf s"
    proof
      assume u: "(i, b * 2 ^ (j - i)) \<in> used bf s"
      have f: "b \<in> free_at bf s j" using R(4) [OF jm] h by auto
      have "b * 2 ^ j \<in> leaves i (b * 2 ^ (j - i)) \<inter> leaves j b"
        using j(2) by (simp add: leaves_def distrib_right mult.assoc flip: power_add)
      then have "leaves i (b * 2 ^ (j - i)) \<inter> leaves j b \<noteq> {}" by blast
      with member_no_overlap [OF R(2), of i "b * 2 ^ (j - i)" j b] u f
      have "j = i" "b * 2 ^ (j - i) = b" by (auto simp: member_blk_def used_def free_at_def)
      with u f live_free_disjoint show False by (fastforce simp: used_def free_at_def)
    qed
    moreover have "used bf s' = insert (i, b * 2 ^ (j - i)) (used bf s)" using D(4) T'(6,7) by auto
    moreover have "b \<in> free_at bf s j" using R(4) [OF jm] h by auto
    ultimately show ?thesis
      using i(2) D(2,5) same_geom_trans [OF D(3) T'(5)] j(2) False
      by (intro exI [of _ i]) (auto simp: buddy_inv_def)
  qed
qed

lemma dealloc_main:
  assumes inv: "buddy_inv bf lo s" and b: "(k, b) \<in> used bf s" "usable lo s k b"
    and l: "lsize l \<le> bsz s k"
  shows "\<exists>s'. bs_dealloc bf s (baddr s k b) l = Ret s' \<and> buddy_inv bf lo s' \<and> same_geom s' s \<and>
    used bf s' = used bf s - {(k, b)}"
proof -
  from inv obtain FL where r: "rep bf lo s FL" by (auto simp: buddy_inv_def)
  note R = repD [OF r]
  from b(1) have bi: "blk_in (msz s) k b" using used_freeD by blast
  have k: "k < msz s" by (rule usable_not_top [OF R(1) b(2) bi])
  have rng: "base s \<le> baddr s k b" "baddr s k b < actual_end s"
    using b(2) shapeD(5) [OF R(1), of k] shapeD(8) [OF R(1)] by (auto simp: usable_def)
  have "k \<noteq> nsizes s" using k by (simp add: msz_def)
  then show ?thesis
    using rep_coalesce [OF r b] find_split_used [OF r b(1) k] rng l R(1) blk_size_Ret [OF R(1), of k] k
    by (auto simp: bs_dealloc_def buddy_inv_def)
qed

end

end
