(* ===== verification/BuddyInit.thy ===== *)
theory BuddyInit
  imports BuddyRefine
begin

text \<open>
  \<open>BuddySystem::init\<close> of \<open>allocator/src/lib.rs\<close> and its helpers. The metadata is carved out of the
  start of the managed range: the slice of \<open>BuddyInfo\<close> (48 bytes each: a list node and two slice
  pointers), then the \<open>alloc\<close> bitmaps of all sizes, then the \<open>split\<close> bitmaps. The metadata and the
  missing rest of the power of two are marked as allocated, and the free blocks are pushed on their
  lists. The lemmas compute the bitmaps level by level (\<open>lcut\<close>, \<open>rcut\<close>) and show that the result
  is a state of the refinement relation.
\<close>

definition round_up :: "nat \<Rightarrow> nat \<Rightarrow> nat outcome" where
  "round_up n sz = bnd (usub n 1) (\<lambda>m. bnd (udiv m sz) (\<lambda>q. bnd (uadd q 1) (\<lambda>q1. umul q1 sz)))"

definition round_down :: "nat \<Rightarrow> nat \<Rightarrow> nat outcome" where
  "round_down n sz = bnd (udiv n sz) (\<lambda>q. umul q sz)"

fun log2 :: "nat \<Rightarrow> nat" where
  "log2 n = (if n > 1 then Suc (log2 (n div 2)) else 0)"

definition sizeof_info :: nat where
  "sizeof_info = 48"

text \<open>
  \<open>init_slice_empty\<close>: the new value of \<open>cur\<close> and the zeroed elements of the slice.
\<close>

definition init_slice_empty :: "nat \<Rightarrow> nat \<Rightarrow> 'a \<Rightarrow> nat \<Rightarrow> (nat \<times> 'a list) outcome" where
  "init_slice_empty cur elem_size zero len =
     bnd (umul elem_size len) (\<lambda>n. bnd (uadd cur n) (\<lambda>cur'. Ret (cur', replicate len zero)))"

definition init_infos :: "nat \<Rightarrow> nat \<Rightarrow> (nat \<times> buddy_info list) outcome" where
  "init_infos cur len =
     bnd (init_slice_empty cur sizeof_info \<lparr>bi_free = 0, bi_alloc = [], bi_split = []\<rparr> len)
       (\<lambda>(cur', xs). Ret (cur', map (\<lambda>i. (xs ! i)\<lparr>bi_free := cur + sizeof_info * i\<rparr>) [0..<len]))"

function init_alloc_slices :: "buddy_system \<Rightarrow> nat \<Rightarrow> nat \<Rightarrow> (nat \<times> buddy_system) outcome" where
  "init_alloc_slices s cur i =
     (if i < nsizes s
      then bnd (n_blk s i) (\<lambda>nblk.
        bnd (get_info_mut s i) (\<lambda>info.
        bnd (round_up nblk 8) (\<lambda>r.
        bnd (init_slice_empty cur 1 0 (r div 8)) (\<lambda>(cur', bytes).
        init_alloc_slices (s\<lparr>lmem := list_init (lmem s) (bi_free info),
            infos := (infos s)[i := info\<lparr>bi_alloc := bytes\<rparr>]\<rparr>) cur' (Suc i)))))
      else Ret (cur, s))"
  by pat_completeness auto
termination
  by (relation "measure (\<lambda>(s, cur, i). nsizes s - i)") auto

function init_split_slices :: "buddy_system \<Rightarrow> nat \<Rightarrow> nat \<Rightarrow> (nat \<times> buddy_system) outcome" where
  "init_split_slices s cur i =
     (if i < nsizes s
      then bnd (n_blk s i) (\<lambda>nblk.
        bnd (get_info_mut s i) (\<lambda>info.
        bnd (round_up nblk 8) (\<lambda>r.
        bnd (init_slice_empty cur 1 0 (r div 8)) (\<lambda>(cur', bytes).
        init_split_slices (s\<lparr>infos := (infos s)[i := info\<lparr>bi_split := bytes\<rparr>]\<rparr>) cur' (Suc i)))))
      else Ret (cur, s))"
  by pat_completeness auto
termination
  by (relation "measure (\<lambda>(s, cur, i). nsizes s - i)") auto

text \<open>\<open>mark\<close>: the inner \<open>while\<close> loop on one size, and the loop over the sizes.\<close>

function mark_size ::
  "8 word bitops \<Rightarrow> buddy_system \<Rightarrow> nat \<Rightarrow> nat \<Rightarrow> nat \<Rightarrow> buddy_system outcome" where
  "mark_size bf s i bi bj =
     (if bi < bj
      then bnd (upd_info s i (\<lambda>info. alloc_set bf info bi True)) (\<lambda>s1.
        bnd (if i > 0 then upd_info s1 i (\<lambda>info. split_set bf info bi True) else Ret s1) (\<lambda>s2.
        mark_size bf s2 i (bi + 1) bj))
      else Ret s)"
  by pat_completeness auto
termination
  by (relation "measure (\<lambda>(bf, s, i, bi, bj). bj - bi)") auto

primrec mark_sizes ::
  "8 word bitops \<Rightarrow> nat \<Rightarrow> nat \<Rightarrow> nat list \<Rightarrow> buddy_system \<Rightarrow> buddy_system outcome" where
  "mark_sizes bf left right [] s = Ret s"
| "mark_sizes bf left right (i # is) s =
     bnd (blk_index s i left) (\<lambda>bi. bnd (blk_index_next s i right) (\<lambda>bj.
     bnd (mark_size bf s i bi bj) (mark_sizes bf left right is)))"

definition mark :: "8 word bitops \<Rightarrow> buddy_system \<Rightarrow> nat \<Rightarrow> nat \<Rightarrow> buddy_system outcome" where
  "mark bf s left right =
     bnd (umod left (leaf_size s)) (\<lambda>l. if l \<noteq> 0 then Panic ''assertion failed: left % leaf_size''
     else bnd (umod right (leaf_size s)) (\<lambda>r. if r \<noteq> 0 then Panic ''assertion failed: right % leaf_size''
     else mark_sizes bf left right [0..<nsizes s] s))"

definition mark_meta :: "8 word bitops \<Rightarrow> buddy_system \<Rightarrow> nat \<Rightarrow> (nat \<times> buddy_system) outcome" where
  "mark_meta bf s cur = bnd (usub cur (base s)) (\<lambda>meta.
     bnd (mark bf s (base s) cur) (\<lambda>s'. Ret (meta, s')))"

definition mark_unavail :: "8 word bitops \<Rightarrow> buddy_system \<Rightarrow> (nat \<times> buddy_system) outcome" where
  "mark_unavail bf s = bnd (max_size s) (\<lambda>n. bnd (blk_size s n) (\<lambda>bs.
     bnd (usub (actual_end s) (base s)) (\<lambda>d. bnd (usub bs d) (\<lambda>unavail.
     bnd (uadd (actual_end s) unavail) (\<lambda>right.
     bnd (mark bf s (actual_end s) right) (\<lambda>s'. Ret (unavail, s')))))))"

definition init_free_pair ::
  "8 word bitops \<Rightarrow> buddy_system \<Rightarrow> nat \<Rightarrow> nat \<Rightarrow> (nat \<times> buddy_system) outcome" where
  "init_free_pair bf s sizei bi =
     (let buddyi = (if bi mod 2 = 0 then bi + 1 else bi - 1) in
      bnd (blk_addr s sizei bi) (\<lambda>blk_addr_bi.
      bnd (blk_addr s sizei buddyi) (\<lambda>blk_addr_buddyi.
      bnd (get_info_mut s sizei) (\<lambda>info.
      bnd (is_alloc_set bf info bi) (\<lambda>a.
      bnd (is_alloc_set bf info buddyi) (\<lambda>a'.
      if a \<noteq> a'
      then bnd (push_free s sizei (if a then blk_addr_buddyi else blk_addr_bi)) (\<lambda>s'.
        bnd (blk_size s' sizei) (\<lambda>bs. Ret (bs, s')))
      else Ret (0, s)))))))"

primrec init_free_sizes ::
  "8 word bitops \<Rightarrow> nat \<Rightarrow> nat \<Rightarrow> nat list \<Rightarrow> nat \<Rightarrow> buddy_system \<Rightarrow> (nat \<times> buddy_system) outcome" where
  "init_free_sizes bf left right [] free s = Ret (free, s)"
| "init_free_sizes bf left right (i # is) free s =
     bnd (blk_index_next s i left) (\<lambda>lbi. bnd (blk_index s i right) (\<lambda>rbi.
     bnd (init_free_pair bf s i lbi) (\<lambda>(f1, s1). bnd (uadd free f1) (\<lambda>free1.
     if left < right
     then bnd (init_free_pair bf s1 i rbi) (\<lambda>(f2, s2). bnd (uadd free1 f2) (\<lambda>free2.
       init_free_sizes bf left right is free2 s2))
     else init_free_sizes bf left right is free1 s1))))"

definition init_free :: "8 word bitops \<Rightarrow> buddy_system \<Rightarrow> nat \<Rightarrow> (nat \<times> buddy_system) outcome" where
  "init_free bf s left =
     bnd (max_size s) (\<lambda>n. init_free_sizes bf left (actual_end s) [0..<n] 0 s)"

text \<open>The geometry \<open>init\<close> computes before it writes any metadata (lines 67 to 80).\<close>

definition init_geometry ::
  "buddy_system \<Rightarrow> nat \<Rightarrow> nat \<Rightarrow> nat \<Rightarrow> nat \<Rightarrow> (nat \<times> buddy_system) outcome" where
  "init_geometry s start end leaf align =
     bnd (round_up start (max leaf align)) (\<lambda>cur.
     bnd (round_down end (max leaf align)) (\<lambda>aend.
     bnd (usub aend cur) (\<lambda>len. bnd (udiv len leaf) (\<lambda>q.
     let s1 = s\<lparr>leaf_size := leaf, max_alignment := align, base := cur, actual_end := aend,
                nsizes := log2 q + 1\<rparr> in
     bnd (max_size s1) (\<lambda>n. bnd (blk_size s1 n) (\<lambda>bs.
     if len > bs then bnd (uadd (nsizes s1) 1) (\<lambda>n1. Ret (cur, s1\<lparr>nsizes := n1\<rparr>))
     else Ret (cur, s1)))))))"

definition bs_init ::
  "8 word bitops \<Rightarrow> buddy_system \<Rightarrow> nat \<Rightarrow> nat \<Rightarrow> nat \<Rightarrow> nat \<Rightarrow>
     (buddy_system \<times> (string + unit)) outcome" where
  "bs_init bf s start end leaf align =
     (if initialized s then Ret (s, Inl ''init twice'')
      else bnd (usub end start) (\<lambda>d.
      if d < leaf then Ret (s, Inl ''range too small'')
      else if \<not> is_power_of_two leaf \<or> \<not> is_power_of_two align
      then Ret (s, Inl ''leaf size or max_alignment not 2^n'')
      else bnd (init_geometry s start end leaf align) (\<lambda>(cur0, s1).
        bnd (init_infos cur0 (nsizes s1)) (\<lambda>(cur1, xs).
        bnd (init_alloc_slices (s1\<lparr>infos := xs\<rparr>) cur1 0) (\<lambda>(cur2, s2).
        bnd (init_split_slices s2 cur2 1) (\<lambda>(cur3, s3).
        bnd (round_up cur3 leaf) (\<lambda>cur.
        bnd (mark_meta bf s3 cur) (\<lambda>(meta, s4).
        bnd (mark_unavail bf s4) (\<lambda>(unavail, s5).
        bnd (init_free bf s5 cur) (\<lambda>(free, s6).
        bnd (max_size s6) (\<lambda>n. bnd (blk_size s6 n) (\<lambda>tot.
        bnd (usub tot meta) (\<lambda>t1. bnd (usub t1 unavail) (\<lambda>t2.
        if free \<noteq> t2 then Ret (s6, Inl ''allocator bug: tot != meta + free + unavail'')
        else Ret (s6\<lparr>initialized := True\<rparr>, Inr ())))))))))))))))"

declare log2.simps [simp del] init_alloc_slices.simps [simp del] init_split_slices.simps [simp del]
  mark_size.simps [simp del]

text \<open>
  The marking of a range of \<open>E\<close> leaves whose first \<open>M\<close> hold metadata: a block is marked when it
  reaches into the metadata or past the end.
\<close>

definition marked :: "nat \<Rightarrow> nat \<Rightarrow> bits" where
  "marked M E k b \<longleftrightarrow> b * 2 ^ k < M \<or> E < (b + 1) * 2 ^ k"

definition lcut :: "nat \<Rightarrow> nat \<Rightarrow> nat" where
  "lcut M k = (M + 2 ^ k - 1) div 2 ^ k"

definition rcut :: "nat \<Rightarrow> nat \<Rightarrow> nat" where
  "rcut E k = E div 2 ^ k"

lemma ceil_div: "0 < d \<Longrightarrow> x div d + (if 0 < x mod d then 1 else 0) = (x + d - 1) div (d::nat)"
proof -
  assume d: "0 < d"
  have e: "x + d - 1 = x div d * d + (x mod d + d - 1)"
    using d div_mult_mod_eq [of x d] by linarith
  have "(x + d - 1) div d = x div d + (x mod d + d - 1) div d"
    unfolding e using d by (subst div_mult_self3) simp_all
  moreover have "(x mod d + d - 1) div d = (if 0 < x mod d then 1 else 0)"
  proof (cases "0 < x mod d")
    case True
    then have e2: "x mod d + d - 1 = (x mod d - 1) + d" by simp
    have "(x mod d - 1) div d = 0" using d by (meson div_less less_imp_diff_less mod_less_divisor)
    then show ?thesis unfolding e2 using d True by (subst div_add_self2) simp_all
  qed (use d in simp)
  ultimately show ?thesis by simp
qed

lemma ceil_aux: "0 < d \<Longrightarrow> d + x \<le> M + d - 1 \<longleftrightarrow> x < (M::nat)"
  by linarith

lemma lcut_less: "b < lcut M k \<longleftrightarrow> b * 2 ^ k < M"
proof -
  have "b < lcut M k \<longleftrightarrow> Suc b \<le> (M + 2 ^ k - 1) div 2 ^ k" by (simp only: lcut_def Suc_le_eq)
  also have "\<dots> \<longleftrightarrow> Suc b * 2 ^ k \<le> M + 2 ^ k - 1" by (rule less_eq_div_iff_mult_less_eq) simp
  also have "\<dots> \<longleftrightarrow> b * 2 ^ k < M" unfolding mult_Suc by (rule ceil_aux) simp
  finally show ?thesis .
qed

lemma rcut_le: "rcut E k \<le> b \<longleftrightarrow> E < (b + 1) * 2 ^ k"
  by (simp add: rcut_def div_less_iff_less_mult flip: less_Suc_eq_le)

lemma marked_cut: "marked M E k b \<longleftrightarrow> b < lcut M k \<or> rcut E k \<le> b"
  by (simp add: marked_def lcut_less rcut_le)

lemma lcut_0 [simp]: "lcut M 0 = M"
  by (simp add: lcut_def)

lemma rcut_0 [simp]: "rcut E 0 = E"
  by (simp add: rcut_def)

lemma lcut_Suc: "lcut M (Suc k) = (lcut M k + 1) div 2"
proof -
  have "M + 2 ^ Suc k - 1 = (M + 2 ^ k - 1) + 2 ^ k"
    using zero_less_power [of "2::nat" k] unfolding power_Suc by linarith
  then have "lcut M (Suc k) = ((M + 2 ^ k - 1) + 2 ^ k) div 2 ^ k div 2"
    by (simp only: lcut_def power_Suc2 div_mult2_eq)
  moreover have "((M + 2 ^ k - 1) + 2 ^ k) div 2 ^ k = (M + 2 ^ k - 1) div 2 ^ k + 1"
    by (rule div_add_self2) simp
  ultimately show ?thesis by (simp only: lcut_def)
qed

lemma rcut_Suc: "rcut E (Suc k) = rcut E k div 2"
  by (simp only: rcut_def power_Suc2 div_mult2_eq)

lemma marked_tree: "tree_inv N (marked M E) (\<lambda>k b. 0 < k \<and> marked M E k b)"
proof (rule tree_invI)
  fix k b
  show "marked M E k b \<Longrightarrow> 0 < Suc k \<and> marked M E (Suc k) (b div 2)"
    by (auto simp: marked_cut lcut_Suc rcut_Suc)
  show "0 < Suc k \<and> marked M E (Suc k) (b div 2) \<Longrightarrow> marked M E k b \<or> marked M E k (buddy_of b)"
    unfolding marked_cut lcut_Suc rcut_Suc buddy_of_def by (cases "even b") (auto elim!: evenE oddE)
qed simp

text \<open>
  The free blocks of this tree: at each size, the block after an odd number of metadata blocks, and
  the block before the end of an odd number of available blocks.
\<close>

lemma marked_free:
  assumes "E < 2 ^ N" "k < N"
  shows "free_blks N (marked M E) (\<lambda>k b. 0 < k \<and> marked M E k b) k =
    {b. lcut M k \<le> b \<and> b < rcut E k \<and> (odd (lcut M k) \<and> b = lcut M k \<or> odd (rcut E k) \<and> Suc b = rcut E k)}"
proof -
  have "rcut E k < 2 ^ (N - k)"
    using assms by (simp add: rcut_def div_less_iff_less_mult flip: power_add)
  then have "blk_in N k b" if "b < rcut E k" for b
    using that assms by (auto simp: blk_in_def)
  moreover have "b div 2 < (lcut M k + 1) div 2 \<longleftrightarrow> odd (lcut M k) \<and> b = lcut M k" if "lcut M k \<le> b" for b
    using that by presburger
  moreover have "rcut E k div 2 \<le> b div 2 \<longleftrightarrow> odd (rcut E k) \<and> Suc b = rcut E k" if "b < rcut E k" for b
    using that by presburger
  ultimately show ?thesis
    using assms(2) by (auto simp: free_blks_def marked_cut lcut_Suc rcut_Suc not_less not_le)
qed

text \<open>Leaf positions as block indices.\<close>

lemma blk_index_leaf:
  assumes "shape lo s" "k \<le> msz s" shows "blk_index s k (base s + l * leaf_size s) = Ret (rcut l k)"
  using assms shapeD(4,5) [OF assms(1)]
  by (simp add: blk_index_def blk_size_Ret rcut_def) (simp add: bsz_def)

lemma lcut_le:
  assumes "r \<le> 2 ^ N" "k \<le> N" shows "lcut r k \<le> 2 ^ (N - k)"
  using assms lcut_less [of "2 ^ (N - k)" r k] by (simp flip: power_add)

lemma blk_index_next_leaf:
  assumes s: "shape lo s" and k: "k \<le> msz s" and r: "r \<le> 2 ^ msz s"
  shows "blk_index_next s k (base s + r * leaf_size s) = Ret (lcut r k)"
proof -
  have e: "r * leaf_size s div bsz s k = r div 2 ^ k" "r * leaf_size s mod bsz s k = r mod 2 ^ k * leaf_size s"
    using shapeD(4) [OF s] by (simp_all add: bsz_def mod_mult_mult2)
  have c: "r div 2 ^ k + (if 0 < r mod 2 ^ k then 1 else 0) = lcut r k"
    using ceil_div [of "2 ^ k" r] by (simp add: lcut_def)
  have "lcut r k \<le> 2 ^ (msz s - k)" by (rule lcut_le [OF r k])
  also have "\<dots> < 2 ^ 64" using shapeD(3) [OF s] by (intro power_strict_increasing) auto
  finally have "lcut r k < usize_lim" by (simp add: usize_lim_def)
  then show ?thesis
    using c shapeD(4,5) [OF s] k
    by (auto simp: blk_index_next_def blk_size_Ret [OF s] e uadd_Ret split: if_splits)
qed

context buddy_bits
begin

lemma mark_size_spec:
  assumes "shape lo s" "i \<le> msz s" "bj \<le> 2 ^ (msz s - i)"
  shows "\<exists>s'. mark_size bf s i bi bj = Ret s' \<and> same_geom s' s \<and> lmem s' = lmem s \<and>
    abit bf s' = (\<lambda>k b. abit bf s k b \<or> k = i \<and> bi \<le> b \<and> b < bj) \<and>
    sbit bf s' = (\<lambda>k b. sbit bf s k b \<or> 0 < k \<and> k = i \<and> bi \<le> b \<and> b < bj)"
  using assms
proof (induction "bj - bi" arbitrary: s bi)
  case 0
  then show ?case by (subst mark_size.simps) (auto simp: fun_eq_iff)
next
  case (Suc n)
  then have lt: "bi < bj" and n: "n = bj - (bi + 1)" by auto
  have bi: "blk_in (msz s) i bi" using lt Suc.prems by (auto simp: blk_in_def)
  define s1 where "s1 = set_abit bf s i bi True"
  define s2 where "s2 = (if 0 < i then set_sbit bf s1 i bi True else s1)"
  have g1: "same_geom s1 s" by (simp add: s1_def)
  note G1 = same_geomD [OF g1]
  have g2: "same_geom s2 s" using same_geom_trans [OF geom_set_sbit g1] g1 by (simp add: s2_def)
  note G2 = same_geomD [OF g2]
  have b1: "abit bf s1 = upd_bit (abit bf s) i bi True" using abit_set_abit [OF Suc.prems(1) bi] by (simp add: s1_def)
  have sh1: "shape lo s1" "blk_in (msz s1) i bi" using Suc.prems(1) bi by (simp_all add: G1)
  have "sbit bf s1 = sbit bf s" by (simp add: s1_def)
  then have b2: "abit bf s2 = upd_bit (abit bf s) i bi True"
    "sbit bf s2 = (\<lambda>k b. sbit bf s k b \<or> 0 < k \<and> k = i \<and> b = bi)"
    using sbit_set_sbit [OF sh1, of True] b1 by (auto simp: s2_def fun_eq_iff)
  have step: "mark_size bf s i bi bj = mark_size bf s2 i (bi + 1) bj"
    using lt upd_alloc [OF Suc.prems(1) bi, of bf True] upd_split [of lo s1 i bi bf True] Suc.prems(1) bi
    by (subst mark_size.simps) (auto simp: G1 s2_def simp flip: s1_def)
  have "shape lo s2" "i \<le> msz s2" "bj \<le> 2 ^ (msz s2 - i)" using Suc.prems by (simp_all add: G2)
  from Suc.hyps(1) [OF n this] obtain s' where
    IH: "mark_size bf s2 i (bi + 1) bj = Ret s'" "same_geom s' s2" "lmem s' = lmem s2"
      "abit bf s' = (\<lambda>k b. abit bf s2 k b \<or> k = i \<and> bi + 1 \<le> b \<and> b < bj)"
      "sbit bf s' = (\<lambda>k b. sbit bf s2 k b \<or> 0 < k \<and> k = i \<and> bi + 1 \<le> b \<and> b < bj)" by blast
  have "abit bf s' = (\<lambda>k b. abit bf s k b \<or> k = i \<and> bi \<le> b \<and> b < bj)"
    "sbit bf s' = (\<lambda>k b. sbit bf s k b \<or> 0 < k \<and> k = i \<and> bi \<le> b \<and> b < bj)"
    using lt by (auto simp: IH(4,5) b2 fun_eq_iff)
  moreover have "lmem s' = lmem s" using IH(3) by (simp add: s2_def s1_def)
  ultimately show ?case using step IH(1) same_geom_trans [OF IH(2) g2] by simp
qed

lemma mark_sizes_spec:
  assumes "shape lo s" "\<forall>i \<in> set is. i \<le> msz s" "r \<le> 2 ^ msz s"
  shows "\<exists>s'. mark_sizes bf (base s + l * leaf_size s) (base s + r * leaf_size s) is s = Ret s' \<and>
    same_geom s' s \<and> lmem s' = lmem s \<and>
    abit bf s' = (\<lambda>k b. abit bf s k b \<or> k \<in> set is \<and> rcut l k \<le> b \<and> b < lcut r k) \<and>
    sbit bf s' = (\<lambda>k b. sbit bf s k b \<or> 0 < k \<and> k \<in> set is \<and> rcut l k \<le> b \<and> b < lcut r k)"
  using assms
proof (induction "is" arbitrary: s)
  case (Cons i "is")
  then have i: "i \<le> msz s" by simp
  from mark_size_spec [OF Cons.prems(1) i lcut_le [OF Cons.prems(3) i], of "rcut l i"] obtain s1 where
    s1: "mark_size bf s i (rcut l i) (lcut r i) = Ret s1" "same_geom s1 s" "lmem s1 = lmem s"
      "abit bf s1 = (\<lambda>k b. abit bf s k b \<or> k = i \<and> rcut l i \<le> b \<and> b < lcut r i)"
      "sbit bf s1 = (\<lambda>k b. sbit bf s k b \<or> 0 < k \<and> k = i \<and> rcut l i \<le> b \<and> b < lcut r i)" by blast
  note G = same_geomD [OF s1(2)]
  have "shape lo s1" "\<forall>i \<in> set is. i \<le> msz s1" "r \<le> 2 ^ msz s1" using Cons.prems by (simp_all add: G)
  from Cons.IH [OF this] obtain s' where
    IH: "mark_sizes bf (base s + l * leaf_size s) (base s + r * leaf_size s) is s1 = Ret s'"
      "same_geom s' s1" "lmem s' = lmem s1"
      "abit bf s' = (\<lambda>k b. abit bf s1 k b \<or> k \<in> set is \<and> rcut l k \<le> b \<and> b < lcut r k)"
      "sbit bf s' = (\<lambda>k b. sbit bf s1 k b \<or> 0 < k \<and> k \<in> set is \<and> rcut l k \<le> b \<and> b < lcut r k)"
    unfolding G by blast
  have "mark_sizes bf (base s + l * leaf_size s) (base s + r * leaf_size s) (i # is) s = Ret s'"
    using IH(1) s1(1) blk_index_leaf [OF Cons.prems(1) i] blk_index_next_leaf [OF Cons.prems(1) i Cons.prems(3)]
    by simp
  then show ?case
    using IH(3) s1(3) same_geom_trans [OF IH(2) s1(2)] by (auto simp: IH(4,5) s1(4,5) fun_eq_iff)
qed simp

lemma mark_spec:
  assumes "shape lo s" "r \<le> 2 ^ msz s"
  shows "\<exists>s'. mark bf s (base s + l * leaf_size s) (base s + r * leaf_size s) = Ret s' \<and>
    same_geom s' s \<and> lmem s' = lmem s \<and>
    abit bf s' = (\<lambda>k b. abit bf s k b \<or> k \<le> msz s \<and> rcut l k \<le> b \<and> b < lcut r k) \<and>
    sbit bf s' = (\<lambda>k b. sbit bf s k b \<or> 0 < k \<and> k \<le> msz s \<and> rcut l k \<le> b \<and> b < lcut r k)"
proof -
  have "leaf_size s dvd base s" using assms(1) by (simp add: shape_def)
  then have "(base s + x * leaf_size s) mod leaf_size s = 0" for x by auto
  moreover have "\<forall>i \<in> set [0..<nsizes s]. i \<le> msz s" using shapeD(2) [OF assms(1)] by auto
  moreover have "k \<in> set [0..<nsizes s] \<longleftrightarrow> k \<le> msz s" for k using shapeD(2) [OF assms(1)] by auto
  ultimately show ?thesis
    using mark_sizes_spec [OF assms(1) _ assms(2), of "[0..<nsizes s]" l] shapeD(4) [OF assms(1)]
    by (simp add: mark_def)
qed

end

text \<open>
  The condition under which the pairs at both ends of the free region are never the same pair: the
  metadata ends in the first quarter of the managed power of two and the range in its second half.
\<close>

definition roomy :: "nat \<Rightarrow> nat \<Rightarrow> nat \<Rightarrow> bool" where
  "roomy M E N \<longleftrightarrow> 2 \<le> N \<and> 0 < M \<and> M \<le> 2 ^ (N - 2) \<and> 2 ^ (N - 1) < E \<and> E < 2 ^ N"

lemma roomy_cuts:
  assumes r: "roomy M E N" and i: "i < N"
  shows "0 < lcut M i" "rcut E i < 2 ^ (N - i)" "lcut M i < 2 ^ (N - i)"
    and "i = N - 1 \<Longrightarrow> lcut M i = 1 \<and> rcut E i = 1"
    and "i < N - 1 \<Longrightarrow> lcut M i < rcut E i \<and> (even (lcut M i) \<longrightarrow> Suc (lcut M i) < rcut E i)"
proof -
  from r have r': "2 \<le> N" "0 < M" "M \<le> 2 ^ (N - 2)" "2 ^ (N - 1) < E" "E < 2 ^ N" by (auto simp: roomy_def)
  show pos: "0 < lcut M i" using lcut_less [of 0 M i] r' by simp
  show "rcut E i < 2 ^ (N - i)"
    using r' i by (simp add: rcut_def div_less_iff_less_mult flip: power_add)
  have q: "lcut M i \<le> 2 ^ (N - 2 - i)" if "i \<le> N - 2" by (rule lcut_le [OF r'(3) that])
  have h: "2 ^ (N - 1 - i) \<le> rcut E i"
    using r' i by (simp add: rcut_def less_eq_div_iff_mult_less_eq flip: power_add)
  have "(2::nat) ^ (N - 2) \<le> 2 ^ (N - 1)" by (rule power_increasing) auto
  with r'(3) have p: "M \<le> 2 ^ (N - 1)" by (rule order_trans)
  { assume "i = N - 1"
    then have "lcut M i \<le> 1" "rcut E i \<le> 1" "1 \<le> rcut E i"
      using lcut_less [of 1 M i] rcut_le [of E i 1] h r' p
        power_Suc [of "2::nat" "N - 1"] by (auto simp: not_less)
    with pos show "lcut M i = 1 \<and> rcut E i = 1" by simp }
  note top = this
  { assume "i < N - 1"
    then have i2: "i \<le> N - 2" "N - 1 - i = Suc (N - 2 - i)" by auto
    have "2 * 2 ^ (N - 2 - i) \<le> rcut E i" using h unfolding i2(2) by simp
    then have "2 * lcut M i \<le> rcut E i" using q [OF i2(1)] by linarith
    with pos show "lcut M i < rcut E i \<and> (even (lcut M i) \<longrightarrow> Suc (lcut M i) < rcut E i)"
      by (auto elim!: evenE) }
  note low = this
  show "lcut M i < 2 ^ (N - i)"
  proof (cases "i < N - 1")
    case True
    then show ?thesis using low \<open>rcut E i < 2 ^ (N - i)\<close> by linarith
  next
    case False
    then have "i = N - 1" using i by simp
    then show ?thesis using top r' by simp
  qed
qed

text \<open>The free leaves counted up to size \<open>i\<close>.\<close>

primrec freed :: "nat \<Rightarrow> nat \<Rightarrow> nat \<Rightarrow> nat" where
  "freed M E 0 = 0"
| "freed M E (Suc i) = freed M E i +
     (if odd (lcut M i) \<and> lcut M i < rcut E i then 2 ^ i else 0) +
     (if odd (rcut E i) \<and> lcut M i < rcut E i then 2 ^ i else 0)"

lemma odd_halves:
  "(l + 1) div 2 * (2 * p) = l * p + (if odd l then p else (0::nat))"
  "l div 2 * (2 * p) + (if odd l then p else (0::nat)) = l * p"
  by (auto elim!: oddE evenE)

lemma count_step:
  "f + M + R = L + E \<Longrightarrow> l' = L + a \<Longrightarrow> r' + b = R \<Longrightarrow> f + a + b + M + r' = l' + (E::nat)"
  by linarith

lemma freed_cuts:
  assumes r: "roomy M E N" and i: "i < N"
  shows "freed M E i + M + rcut E i * 2 ^ i = lcut M i * 2 ^ i + E"
  using i
proof (induction i)
  case 0
  then show ?case by simp
next
  case (Suc i)
  then have IH: "freed M E i + M + rcut E i * 2 ^ i = lcut M i * 2 ^ i + E" and lt: "lcut M i < rcut E i"
    using roomy_cuts(5) [OF r, of i] by auto
  have "freed M E (Suc i) = freed M E i + (if odd (lcut M i) then 2 ^ i else 0) + (if odd (rcut E i) then 2 ^ i else 0)"
    using lt by simp
  then show ?case
    unfolding lcut_Suc rcut_Suc power_Suc
    by (simp only: count_step [OF IH odd_halves(1) [of "lcut M i" "2 ^ i"] odd_halves(2) [of "rcut E i" "2 ^ i"]])
qed

lemma freed_total:
  assumes r: "roomy M E N" shows "freed M E N + M = E"
proof -
  from r obtain n where n: "N = Suc n" by (cases N) (auto simp: roomy_def)
  have c: "lcut M n = 1" "rcut E n = 1" using roomy_cuts(4) [OF r [unfolded n], of n] by simp_all
  have "freed M E n + M + rcut E n * 2 ^ n = lcut M n * 2 ^ n + E"
    by (rule freed_cuts [OF r]) (simp add: n)
  then have "freed M E n + M = E" unfolding c by simp
  then show ?thesis unfolding n freed.simps c by simp
qed

text \<open>
  A state in which the marking is done: \<open>M\<close> leaves of metadata up to \<open>lo\<close>, \<open>E\<close> leaves up to
  \<open>actual_end\<close>.
\<close>

definition marked_state :: "8 word bitops \<Rightarrow> nat \<Rightarrow> nat \<Rightarrow> nat \<Rightarrow> buddy_system \<Rightarrow> bool" where
  "marked_state bf lo M E s \<longleftrightarrow> roomy M E (msz s) \<and> lo = base s + M * leaf_size s \<and>
     actual_end s = base s + E * leaf_size s \<and>
     (\<forall>k b. blk_in (msz s) k b \<longrightarrow> abit bf s k b = marked M E k b \<and> sbit bf s k b = (0 < k \<and> marked M E k b))"

lemma marked_stateD:
  assumes "marked_state bf lo M E s"
  shows "roomy M E (msz s)" "lo = base s + M * leaf_size s" "actual_end s = base s + E * leaf_size s"
    "blk_in (msz s) k b \<Longrightarrow> abit bf s k b = marked M E k b"
    "blk_in (msz s) k b \<Longrightarrow> sbit bf s k b = (0 < k \<and> marked M E k b)"
    "tree_inv (msz s) (abit bf s) (sbit bf s)"
  using assms marked_tree [of "msz s" M E]
    tree_cong(1) [of "msz s" "abit bf s" "marked M E" "sbit bf s" "\<lambda>k b. 0 < k \<and> marked M E k b"]
  by (auto simp: marked_state_def)

lemma marked_state_cong:
  "same_geom s' s \<Longrightarrow> abit bf s' = abit bf s \<Longrightarrow> sbit bf s' = sbit bf s \<Longrightarrow>
   marked_state bf lo M E s' = marked_state bf lo M E s"
  using same_geomD [of s' s] by (simp add: marked_state_def)

lemma marked_free_at:
  assumes "marked_state bf lo M E s" "k < msz s"
  shows "free_at bf s k = {b. lcut M k \<le> b \<and> b < rcut E k \<and>
    (odd (lcut M k) \<and> b = lcut M k \<or> odd (rcut E k) \<and> Suc b = rcut E k)}"
proof -
  note D = marked_stateD [OF assms(1)]
  have "E < 2 ^ msz s" using D(1) by (simp add: roomy_def)
  from marked_free [OF this assms(2), of M] show ?thesis
    unfolding free_at_def using D(4,5)
      tree_cong(3) [of "msz s" "abit bf s" "marked M E" "sbit bf s" "\<lambda>k b. 0 < k \<and> marked M E k b" k]
    by simp
qed

lemma marked_free_top:
  assumes "marked_state bf lo M E s" shows "free_at bf s (msz s) = {}"
proof -
  note D = marked_stateD [OF assms]
  have "blk_in (msz s) (msz s) b \<Longrightarrow> abit bf s (msz s) b" for b
    using D(1) D(4) [of "msz s" b] by (auto simp: blk_in_def marked_def roomy_def)
  then show ?thesis by (auto simp: free_at_def free_blks_def)
qed

lemma marked_usable:
  assumes m: "marked_state bf lo M E s" and k: "k < msz s" and b: "b \<in> free_at bf s k"
  shows "usable lo s k b"
proof -
  note D = marked_stateD [OF m]
  have "M \<le> b * 2 ^ k" "(b + 1) * 2 ^ k \<le> E"
    using b lcut_less [of b M k] rcut_le [of E k b] unfolding marked_free_at [OF m k] by (auto simp: not_less not_le)
  then have "M * leaf_size s \<le> b * 2 ^ k * leaf_size s" "(b + 1) * 2 ^ k * leaf_size s \<le> E * leaf_size s"
    by (auto intro: mult_le_mono1)
  then show ?thesis
    unfolding usable_def D(2,3) by (simp add: baddr_def bsz_def algebra_simps)
qed

context buddy_bits
begin

lemma pair_none:
  assumes "shape lo s" "i < msz s" "blk_in (msz s) i b" "abit bf s i (buddy_of b) = abit bf s i b"
  shows "init_free_pair bf s i b = Ret (0, s)"
proof -
  have e: "(if b mod 2 = 0 then b + 1 else b - 1) = buddy_of b" by (simp add: buddy_of_def even_iff_mod_2_eq_zero)
  note bi = blk_in_buddy [OF assms(3,2)]
  show ?thesis
    unfolding init_free_pair_def e
    using assms blk_addr_Ret [OF assms(1,3)] blk_addr_Ret [OF assms(1) bi]
      read_alloc [OF assms(1,3), of bf] read_alloc [OF assms(1) bi, of bf]
    by (simp add: Let_def)
qed

lemma pair_push:
  assumes l: "lists bf lo s FL" and i: "i < msz s" and b: "blk_in (msz s) i b"
    and ne: "abit bf s i (buddy_of b) \<noteq> abit bf s i b"
    and c: "c = (if abit bf s i b then buddy_of b else b)"
    and f: "c \<in> free_at bf s i" "c \<notin> set (FL i)" "usable lo s i c"
  shows "\<exists>s'. init_free_pair bf s i b = Ret (bsz s i, s') \<and> lists bf lo s' (FL(i := c # FL i)) \<and>
    same_geom s' s \<and> abit bf s' = abit bf s \<and> sbit bf s' = sbit bf s"
proof -
  note S = listsD(1) [OF l]
  have e: "(if b mod 2 = 0 then b + 1 else b - 1) = buddy_of b" by (simp add: buddy_of_def even_iff_mod_2_eq_zero)
  note bi = blk_in_buddy [OF b i]
  from lists_push [OF l _ f(2,1,3)] i obtain s' where
    s': "push_free s i (baddr s i c) = Ret s'" "lists bf lo s' (FL(i := c # FL i))" "same_geom s' s"
      "abit bf s' = abit bf s" "sbit bf s' = sbit bf s" by auto
  have "blk_size s' i = Ret (bsz s i)"
    using blk_size_Ret [of lo s' i] S i same_geomD [OF s'(3)] by simp
  moreover have "(if abit bf s i b then baddr s i (buddy_of b) else baddr s i b) = baddr s i c" by (simp add: c)
  ultimately have "init_free_pair bf s i b = Ret (bsz s i, s')"
    unfolding init_free_pair_def e
    using S i ne blk_addr_Ret [OF S b] blk_addr_Ret [OF S bi] read_alloc [OF S b, of bf] read_alloc [OF S bi, of bf] s'(1)
    by (auto simp: Let_def)
  then show ?thesis using s' by blast
qed

lemma init_free_level:
  assumes l: "lists bf lo s FL" and m: "marked_state bf lo M E s" and i: "i < msz s" and e: "FL i = []"
  defines "L \<equiv> lcut M i" and "R \<equiv> rcut E i"
  shows "\<exists>s1 s2 xs. init_free_pair bf s i L = Ret (if odd L \<and> L < R then bsz s i else 0, s1) \<and>
    init_free_pair bf s1 i R = Ret (if odd R \<and> L < R then bsz s i else 0, s2) \<and>
    lists bf lo s2 (FL(i := xs)) \<and> set xs = free_at bf s i \<and> same_geom s1 s \<and> same_geom s2 s \<and>
    abit bf s2 = abit bf s \<and> sbit bf s2 = sbit bf s"
proof -
  note D = marked_stateD [OF m] and S = listsD(1) [OF l]
  note C = roomy_cuts [OF D(1) i, folded L_def R_def]
  have F: "free_at bf s i = {b. L \<le> b \<and> b < R \<and> (odd L \<and> b = L \<or> odd R \<and> Suc b = R)}"
    using marked_free_at [OF m i] by (simp add: L_def R_def)
  have bL: "blk_in (msz s) i L" "blk_in (msz s) i R" using C(2,3) i by (auto simp: blk_in_def)
  note bb = blk_in_buddy [OF bL(1) i] blk_in_buddy [OF bL(2) i]
  have A: "abit bf s i b = (b < L \<or> R \<le> b)" if "b \<in> {L, R, buddy_of L, buddy_of R}" for b
    using that bL bb D(4) [of i b] by (auto simp: marked_cut L_def R_def)
  show ?thesis
  proof (cases "i = msz s - 1")
    case True
    with C(4) have LR: "L = 1" "R = 1" by auto
    then have "free_at bf s i = {}" by (auto simp: F)
    moreover have "init_free_pair bf s i 1 = Ret (0, s)"
      by (rule pair_none [OF S i]) (use bL A LR in \<open>auto simp: buddy_of_def\<close>)
    moreover have "FL(i := []) = FL" using e by (simp add: fun_upd_idem)
    ultimately show ?thesis using LR l by auto
  next
    case False
    with i C(5) have LR: "L < R" "even L \<Longrightarrow> Suc L < R" by auto
    have "\<exists>s1. init_free_pair bf s i L = Ret (if odd L then bsz s i else 0, s1) \<and>
        lists bf lo s1 (FL(i := if odd L then [L] else [])) \<and> same_geom s1 s \<and> abit bf s1 = abit bf s \<and> sbit bf s1 = sbit bf s"
    proof (cases "odd L")
      case True
      then have "buddy_of L < L" by (auto simp: buddy_of_def elim!: oddE)
      with LR A have "abit bf s i (buddy_of L) \<noteq> abit bf s i L" "L = (if abit bf s i L then buddy_of L else L)" by auto
      moreover have f: "L \<in> free_at bf s i" using True LR by (simp add: F)
      ultimately show ?thesis
        using pair_push [OF l i bL(1) _ _ f _ marked_usable [OF m i f]] True e by simp
    next
      case odd: False
      then have "buddy_of L = Suc L" by (simp add: buddy_of_def)
      with LR odd A have "abit bf s i (buddy_of L) = abit bf s i L" by auto
      moreover have "FL(i := []) = FL" using e by (simp add: fun_upd_idem)
      ultimately show ?thesis using pair_none [OF S i bL(1)] odd l by auto
    qed
    then obtain s1 where s1: "init_free_pair bf s i L = Ret (if odd L then bsz s i else 0, s1)"
      "lists bf lo s1 (FL(i := if odd L then [L] else []))" "same_geom s1 s" "abit bf s1 = abit bf s" "sbit bf s1 = sbit bf s"
      by blast
    note G = same_geomD [OF s1(3)]
    have m1: "marked_state bf lo M E s1" using m marked_state_cong [OF s1(3-5)] by simp
    have i1: "i < msz s1" "blk_in (msz s1) i R" using i bL by (simp_all add: G)
    have F1: "free_at bf s1 i = free_at bf s i" by (simp add: free_at_def G s1)
    define xs where "xs = (if odd R then [R - 1] else []) @ (if odd L then [L] else [])"
    have "\<exists>s2. init_free_pair bf s1 i R = Ret (if odd R then bsz s i else 0, s2) \<and>
        lists bf lo s2 (FL(i := xs)) \<and> same_geom s2 s1 \<and> abit bf s2 = abit bf s \<and> sbit bf s2 = sbit bf s"
    proof (cases "odd R")
      case True
      then have br: "buddy_of R = R - 1" "L \<le> R - 1" "R - 1 < R" using LR by (auto simp: buddy_of_def elim!: oddE)
      with A have "abit bf s1 i (buddy_of R) \<noteq> abit bf s1 i R" "R - 1 = (if abit bf s1 i R then buddy_of R else R)"
        by (auto simp: s1)
      moreover have f: "R - 1 \<in> free_at bf s1 i" using True br by (auto simp: F1 F)
      moreover have "R - 1 \<notin> set ((FL(i := if odd L then [L] else [])) i)"
        using True LR by (auto elim!: oddE)
      ultimately show ?thesis
        using pair_push [OF s1(2) i1 _ _ f _ marked_usable [OF m1 i1(1) f]] True
        by (simp add: G s1 xs_def)
    next
      case even: False
      then have "abit bf s1 i (buddy_of R) = abit bf s1 i R" using A by (auto simp: buddy_of_def s1)
      then show ?thesis
        using pair_none [OF listsD(1) [OF s1(2)] i1] even s1 by (simp add: xs_def)
    qed
    then obtain s2 where s2: "init_free_pair bf s1 i R = Ret (if odd R then bsz s i else 0, s2)"
      "lists bf lo s2 (FL(i := xs))" "same_geom s2 s1" "abit bf s2 = abit bf s" "sbit bf s2 = sbit bf s" by blast
    moreover have "set xs = free_at bf s i" using LR by (auto simp: xs_def F)
    ultimately show ?thesis
      using s1(1,3) LR(1) same_geom_trans [OF s2(3) s1(3)] by auto
  qed
qed

end

lemma freed_mono: "i \<le> j \<Longrightarrow> freed M E i \<le> freed M E j"
  by (rule lift_Suc_mono_le) auto

context buddy_bits
begin

lemma init_free_sizes_spec:
  assumes "lists bf lo s FL" "marked_state bf lo M E s" "i \<le> msz s"
    "\<forall>j < i. set (FL j) = free_at bf s j" "\<forall>j \<ge> i. FL j = []"
  shows "\<exists>s' FL'. init_free_sizes bf lo (actual_end s) [i..<msz s] (freed M E i * leaf_size s) s =
      Ret (freed M E (msz s) * leaf_size s, s') \<and> lists bf lo s' FL' \<and> same_geom s' s \<and>
    abit bf s' = abit bf s \<and> sbit bf s' = sbit bf s \<and>
    (\<forall>j < msz s. set (FL' j) = free_at bf s j) \<and> (\<forall>j \<ge> msz s. FL' j = [])"
  using assms
proof (induction "msz s - i" arbitrary: s FL i)
  case 0
  then show ?case by auto
next
  case (Suc n)
  then have i: "i < msz s" and n: "n = msz s - Suc i" by auto
  note D = marked_stateD [OF Suc.prems(2)] and S = listsD(1) [OF Suc.prems(1)]
  define f1 where "f1 = (if odd (lcut M i) \<and> lcut M i < rcut E i then bsz s i else 0)"
  define f2 where "f2 = (if odd (rcut E i) \<and> lcut M i < rcut E i then bsz s i else 0)"
  from init_free_level [OF Suc.prems(1,2) i] Suc.prems(5) obtain s1 s2 xs where
    L: "init_free_pair bf s i (lcut M i) = Ret (f1, s1)" "init_free_pair bf s1 i (rcut E i) = Ret (f2, s2)"
      "lists bf lo s2 (FL(i := xs))" "set xs = free_at bf s i" "same_geom s1 s" "same_geom s2 s"
      "abit bf s2 = abit bf s" "sbit bf s2 = sbit bf s"
    unfolding f1_def f2_def by blast
  note G = same_geomD [OF L(6)]
  have tot: "freed M E i * leaf_size s + f1 + f2 = freed M E (Suc i) * leaf_size s"
    by (simp add: f1_def f2_def bsz_def distrib_right)
  have "freed M E (Suc i) \<le> E" using freed_mono [of "Suc i" "msz s" M E] freed_total [OF D(1)] i by simp
  also have "E \<le> 2 ^ msz s" using D(1) by (simp add: roomy_def)
  finally have "freed M E (Suc i) * leaf_size s \<le> bsz s (msz s)" unfolding bsz_def by (rule mult_le_mono1)
  then have lim: "freed M E i * leaf_size s + f1 + f2 < usize_lim"
    using shapeD(6) [OF S] unfolding tot by linarith
  have MEM: "M \<le> 2 ^ msz s" "M < E"
  proof -
    have "M \<le> 2 ^ (msz s - 2)" "2 ^ (msz s - 1) < E" using D(1) by (auto simp: roomy_def)
    moreover have "(2::nat) ^ (msz s - 2) \<le> 2 ^ (msz s - 1)" "(2::nat) ^ (msz s - 2) \<le> 2 ^ msz s"
      by (rule power_increasing; simp)+
    ultimately show "M \<le> 2 ^ msz s" "M < E" by linarith+
  qed
  then have lt: "lo < actual_end s" using D(2,3) shapeD(4) [OF S] by simp
  have "init_free_sizes bf lo (actual_end s) [i..<msz s] (freed M E i * leaf_size s) s =
      init_free_sizes bf lo (actual_end s) [Suc i..<msz s] (freed M E (Suc i) * leaf_size s) s2"
    using L(1,2) lim lt i blk_index_next_leaf [OF S _ MEM(1), of i] blk_index_leaf [OF S, of i E] tot
    by (simp add: upt_conv_Cons D(2,3) uadd_Ret)
  moreover have "\<exists>s' FL'. init_free_sizes bf lo (actual_end s2) [Suc i..<msz s2] (freed M E (Suc i) * leaf_size s2) s2 =
      Ret (freed M E (msz s2) * leaf_size s2, s') \<and> lists bf lo s' FL' \<and> same_geom s' s2 \<and>
    abit bf s' = abit bf s2 \<and> sbit bf s' = sbit bf s2 \<and>
    (\<forall>j < msz s2. set (FL' j) = free_at bf s2 j) \<and> (\<forall>j \<ge> msz s2. FL' j = [])"
  proof (rule Suc.hyps(1) [OF _ L(3)])
    show "marked_state bf lo M E s2" using Suc.prems(2) marked_state_cong [OF L(6-8)] by simp
    show "\<forall>j < Suc i. set ((FL(i := xs)) j) = free_at bf s2 j"
      using Suc.prems(4) L(4) by (simp add: free_at_def G L(7,8) less_Suc_eq)
  qed (use n i Suc.prems(5) in \<open>simp_all add: G\<close>)
  ultimately show ?case
    unfolding G L(7,8) free_at_def using same_geom_trans [OF _ L(6)] by metis
qed

lemma init_free_spec:
  assumes "lists bf lo s (\<lambda>_. [])" "marked_state bf lo M E s"
  shows "\<exists>s'. init_free bf s lo = Ret ((E - M) * leaf_size s, s') \<and> buddy_inv bf lo s' \<and> same_geom s' s \<and>
    abit bf s' = abit bf s \<and> sbit bf s' = sbit bf s"
proof -
  note D = marked_stateD [OF assms(2)] and S = listsD(1) [OF assms(1)]
  from init_free_sizes_spec [OF assms, of 0] obtain s' FL' where
    I: "init_free_sizes bf lo (actual_end s) [0..<msz s] 0 s = Ret (freed M E (msz s) * leaf_size s, s')"
      "lists bf lo s' FL'" "same_geom s' s" "abit bf s' = abit bf s" "sbit bf s' = sbit bf s"
      "\<forall>j < msz s. set (FL' j) = free_at bf s j" "\<forall>j \<ge> msz s. FL' j = []"
    by auto
  note G = same_geomD [OF I(3)]
  have fe: "free_at bf s' j = free_at bf s j" for j by (simp add: free_at_def G I(4,5))
  have "set (FL' j) = free_at bf s' j" if "j \<le> msz s" for j
    using that I(6,7) marked_free_top [OF assms(2)] fe by (cases "j = msz s") auto
  then have "buddy_inv bf lo s'" unfolding buddy_inv_def rep_lists using I(2) G(1) by auto
  moreover have "freed M E (msz s) = E - M" using freed_total [OF D(1)] by simp
  ultimately show ?thesis using I S by (auto simp: init_free_def)
qed

end

text \<open>The size of the metadata.\<close>

definition nbytes :: "nat \<Rightarrow> nat" where
  "nbytes j = (2 ^ j - 1) div 8 + 1"

definition slices :: "nat \<Rightarrow> nat \<Rightarrow> nat" where
  "slices n i = (\<Sum>k = i..<n. nbytes (n - 1 - k))"

lemma nbytes_bits: "2 ^ j \<le> 8 * nbytes j" "8 * nbytes j \<le> 2 ^ j + 7"
proof -
  have "(1::nat) \<le> 2 ^ j" by simp
  moreover have "1 \<le> x \<Longrightarrow> x \<le> 8 * ((x - 1) div 8 + 1) \<and> 8 * ((x - 1) div 8 + 1) \<le> x + (7::nat)" for x
    by presburger
  ultimately show "2 ^ j \<le> 8 * nbytes j" "8 * nbytes j \<le> 2 ^ j + 7" unfolding nbytes_def by blast+
qed

lemma round_up_bytes: "j < 64 \<Longrightarrow> round_up (2 ^ j) 8 = Ret (8 * nbytes j)"
proof -
  assume j: "j < 64"
  then have "(2::nat) ^ j \<le> 2 ^ 63" by (intro power_increasing) auto
  then have p: "(2::nat) ^ j + 7 < usize_lim" by (simp add: usize_lim_def)
  have "8 * nbytes j < usize_lim" using p nbytes_bits(2) [of j] by linarith
  then show ?thesis
    unfolding round_up_def by (simp add: nbytes_def uadd_Ret umul_Ret mult.commute)
qed

lemma slices_step: "i < n \<Longrightarrow> slices n i = nbytes (n - 1 - i) + slices n (Suc i)"
  by (simp add: slices_def sum.atLeast_Suc_lessThan)

lemma slices_bound: "8 * slices (Suc n) 0 \<le> 2 * 2 ^ n + 7 * (n + 1)"
proof -
  have "slices (Suc n) 0 = (\<Sum>j = 0..n. nbytes j)"
    unfolding slices_def by (subst sum.atLeastLessThan_rev) (simp add: atLeastLessThanSuc_atLeastAtMost)
  moreover have "8 * (\<Sum>j = 0..n. nbytes j) \<le> 2 * 2 ^ n + 7 * (n + 1)"
  proof (induction n)
    case 0
    show ?case by (simp add: nbytes_def)
  next
    case (Suc n)
    then show ?case using nbytes_bits(2) [of "Suc n"] by simp
  qed
  ultimately show ?thesis by simp
qed

lemma meta_small:
  assumes "7 \<le> n" shows "48 * (n + 1) + slices (n + 1) 0 + slices (n + 1) 1 \<le> 4 * 2 ^ n"
proof -
  have "398 * (n + 1) \<le> 28 * (2::nat) ^ n"
    using assms by (induction n rule: dec_induct) auto
  moreover have "slices (n + 1) 1 \<le> slices (n + 1) 0" using slices_step [of 0 "n + 1"] by simp
  ultimately show ?thesis using slices_bound [of n] by simp
qed

text \<open>The two loops that lay out the bitmaps.\<close>

definition same_fields :: "buddy_system \<Rightarrow> buddy_system \<Rightarrow> bool" where
  "same_fields s' s \<longleftrightarrow> base s' = base s \<and> actual_end s' = actual_end s \<and> nsizes s' = nsizes s \<and>
     leaf_size s' = leaf_size s \<and> max_alignment s' = max_alignment s \<and> length (infos s') = length (infos s)"

lemma n_blk_Ret: "0 < nsizes s \<Longrightarrow> nsizes s \<le> 64 \<Longrightarrow> k < nsizes s \<Longrightarrow> n_blk s k = Ret (2 ^ (nsizes s - 1 - k))"
  by (simp add: n_blk_def max_size_def ushl1_Ret)

lemma init_slice_bytes:
  "cur + n < usize_lim \<Longrightarrow> init_slice_empty cur 1 z n = Ret (cur + n, replicate n z)"
  by (simp add: init_slice_empty_def umul_Ret uadd_Ret)

lemma init_alloc_slices_spec:
  assumes "length (infos s) = nsizes s" "nsizes s \<le> 64" "cur + slices (nsizes s) i < usize_lim"
  shows "\<exists>s'. init_alloc_slices s cur i = Ret (cur + slices (nsizes s) i, s') \<and> same_fields s' s \<and>
    (\<forall>k < nsizes s. infos s' ! k =
      (if i \<le> k then (infos s ! k)\<lparr>bi_alloc := replicate (nbytes (nsizes s - 1 - k)) 0\<rparr> else infos s ! k)) \<and>
    lmem s' = fold (\<lambda>k m. list_init m (head s k)) [i..<nsizes s] (lmem s)"
  using assms
proof (induction "nsizes s - i" arbitrary: s cur i)
  case 0
  then show ?case by (subst init_alloc_slices.simps) (auto simp: slices_def same_fields_def)
next
  case (Suc n)
  then have i: "i < nsizes s" by simp
  define s1 where "s1 = s\<lparr>lmem := list_init (lmem s) (bi_free (infos s ! i)),
    infos := (infos s)[i := (infos s ! i)\<lparr>bi_alloc := replicate (nbytes (nsizes s - 1 - i)) 0\<rparr>]\<rparr>"
  define cur1 where "cur1 = cur + nbytes (nsizes s - 1 - i)"
  note st = slices_step [OF i]
  have "init_alloc_slices s cur i = init_alloc_slices s1 cur1 (Suc i)"
    using i Suc.prems st n_blk_Ret [of s i] round_up_bytes [of "nsizes s - 1 - i"]
      init_slice_bytes [of cur "nbytes (nsizes s - 1 - i)" "0 :: 8 word"]
    by (subst init_alloc_slices.simps) (simp add: get_info_mut_def s1_def cur1_def)
  moreover have "\<exists>s'. init_alloc_slices s1 cur1 (Suc i) = Ret (cur1 + slices (nsizes s1) (Suc i), s') \<and> same_fields s' s1 \<and>
    (\<forall>k < nsizes s1. infos s' ! k =
      (if Suc i \<le> k then (infos s1 ! k)\<lparr>bi_alloc := replicate (nbytes (nsizes s1 - 1 - k)) 0\<rparr> else infos s1 ! k)) \<and>
    lmem s' = fold (\<lambda>k m. list_init m (head s1 k)) [Suc i..<nsizes s1] (lmem s1)"
    by (rule Suc.hyps(1)) (use Suc.hyps(2) Suc.prems st in \<open>simp_all add: s1_def cur1_def\<close>)
  moreover have "head s1 k = head s k" for k by (auto simp: head_def s1_def nth_upd)
  ultimately show ?case
    using i Suc.prems(1) st
    by (auto simp: s1_def cur1_def same_fields_def nth_upd upt_conv_Cons head_def
        not_less_eq_eq dest: le_antisym simp del: upt_Suc)
qed

lemma init_split_slices_spec:
  assumes "length (infos s) = nsizes s" "nsizes s \<le> 64" "cur + slices (nsizes s) i < usize_lim"
  shows "\<exists>s'. init_split_slices s cur i = Ret (cur + slices (nsizes s) i, s') \<and> same_fields s' s \<and>
    (\<forall>k < nsizes s. infos s' ! k =
      (if i \<le> k then (infos s ! k)\<lparr>bi_split := replicate (nbytes (nsizes s - 1 - k)) 0\<rparr> else infos s ! k)) \<and>
    lmem s' = lmem s"
  using assms
proof (induction "nsizes s - i" arbitrary: s cur i)
  case 0
  then show ?case by (subst init_split_slices.simps) (auto simp: slices_def same_fields_def)
next
  case (Suc n)
  then have i: "i < nsizes s" by simp
  define s1 where "s1 = s\<lparr>infos := (infos s)[i := (infos s ! i)\<lparr>bi_split := replicate (nbytes (nsizes s - 1 - i)) 0\<rparr>]\<rparr>"
  define cur1 where "cur1 = cur + nbytes (nsizes s - 1 - i)"
  note st = slices_step [OF i]
  have "init_split_slices s cur i = init_split_slices s1 cur1 (Suc i)"
    using i Suc.prems st n_blk_Ret [of s i] round_up_bytes [of "nsizes s - 1 - i"]
      init_slice_bytes [of cur "nbytes (nsizes s - 1 - i)" "0 :: 8 word"]
    by (subst init_split_slices.simps) (simp add: get_info_mut_def s1_def cur1_def)
  moreover have "\<exists>s'. init_split_slices s1 cur1 (Suc i) = Ret (cur1 + slices (nsizes s1) (Suc i), s') \<and> same_fields s' s1 \<and>
    (\<forall>k < nsizes s1. infos s' ! k =
      (if Suc i \<le> k then (infos s1 ! k)\<lparr>bi_split := replicate (nbytes (nsizes s1 - 1 - k)) 0\<rparr> else infos s1 ! k)) \<and>
    lmem s' = lmem s1"
    by (rule Suc.hyps(1)) (use Suc.hyps(2) Suc.prems st in \<open>simp_all add: s1_def cur1_def\<close>)
  ultimately show ?case
    using i Suc.prems(1) st
    by (auto simp: s1_def cur1_def same_fields_def nth_upd not_less_eq_eq dest: le_antisym)
qed

lemma fold_list_init:
  "h \<in> set (map hd_of ks) \<Longrightarrow>
   fold (\<lambda>k m. list_init m (hd_of k)) ks m h = \<lparr>prev_ptr = h, next_ptr = h\<rparr>"
proof (induction ks rule: rev_induct)
  case (snoc k ks)
  then show ?case by (cases "h = hd_of k") (auto simp: list_init_def)
qed simp

text \<open>The geometry of a range that is not an exact power of two.\<close>

lemma log2_bounds: "0 < n \<Longrightarrow> 2 ^ log2 n \<le> n \<and> n < 2 ^ Suc (log2 n)"
proof (induction n rule: log2.induct)
  case (1 n)
  show ?case
  proof (cases "n > 1")
    case True
    then have "0 < n div 2" by simp
    from "1.IH" [OF True this] have "2 ^ log2 (n div 2) \<le> n div 2" "n div 2 < 2 * 2 ^ log2 (n div 2)" by simp_all
    then have "2 * 2 ^ log2 (n div 2) \<le> n" "n < 2 * (2 * 2 ^ log2 (n div 2))" by linarith+
    then show ?thesis using True by (simp add: log2.simps [of n])
  next
    case False
    then show ?thesis using "1.prems" by (simp add: log2.simps [of n])
  qed
qed

definition heap_base :: "nat \<Rightarrow> nat \<Rightarrow> nat" where
  "heap_base start g = ((start - 1) div g + 1) * g"

definition heap_end :: "nat \<Rightarrow> nat \<Rightarrow> nat" where
  "heap_end end g = end div g * g"

lemma round_up_Ret:
  assumes "0 < n" "0 < g" "heap_base n g < usize_lim" shows "round_up n g = Ret (heap_base n g)"
proof -
  have "((n - 1) div g + 1) * 1 \<le> ((n - 1) div g + 1) * g" using assms(2) by (intro mult_le_mono2) simp
  then have "(n - 1) div g + 1 \<le> heap_base n g" unfolding heap_base_def mult_1_right .
  then have "(n - 1) div g + 1 < usize_lim" using assms(3) by linarith
  then show ?thesis using assms by (simp add: round_up_def uadd_Ret umul_Ret heap_base_def)
qed

lemma heap_base_bounds: "0 < n \<Longrightarrow> 0 < g \<Longrightarrow> n \<le> heap_base n g \<and> heap_base n g < n + g"
proof -
  assume a: "0 < n" "0 < g"
  have "n - 1 < ((n - 1) div g + 1) * g" using a(2) by (metis add.commute dividend_less_div_times mult.commute mult_Suc_right plus_1_eq_Suc)
  moreover have "(n - 1) div g * g \<le> n - 1" by simp
  moreover have "((n - 1) div g + 1) * g = (n - 1) div g * g + g" by simp
  ultimately show ?thesis using a unfolding heap_base_def by linarith
qed

lemma heap_end_le: "heap_end n g \<le> n"
  by (simp add: heap_end_def)

text \<open>What a range has to provide: more than 64 leaves, not a power of two of them, and no overflow.\<close>

definition good_range :: "nat \<Rightarrow> nat \<Rightarrow> nat \<Rightarrow> nat \<Rightarrow> bool" where
  "good_range start end leaf align \<longleftrightarrow> is_power_of_two leaf \<and> is_power_of_two align \<and> 16 \<le> leaf \<and>
     0 < start \<and> end < 2 ^ 63 \<and>
     heap_base start (max leaf align) + 65 * leaf \<le> heap_end end (max leaf align) \<and>
     \<not> is_power_of_two ((heap_end end (max leaf align) - heap_base start (max leaf align)) div leaf)"

definition range_leaves :: "nat \<Rightarrow> nat \<Rightarrow> nat \<Rightarrow> nat \<Rightarrow> nat" where
  "range_leaves start end leaf align =
     (heap_end end (max leaf align) - heap_base start (max leaf align)) div leaf"

lemma good_range_dvd:
  assumes "good_range start end leaf align"
  shows "leaf dvd max leaf align" "align dvd max leaf align" "0 < max leaf align"
proof -
  from assms obtain a b where ab: "leaf = 2 ^ a" "align = 2 ^ b"
    by (auto simp: good_range_def is_power_of_two_iff)
  then show "leaf dvd max leaf align" "align dvd max leaf align" "0 < max leaf align"
    by (auto simp: max_def intro: le_imp_power_dvd)
qed

lemma good_range_facts:
  fixes start fin leaf align
  defines "g \<equiv> max leaf align"
  defines "B \<equiv> heap_base start g" and "A \<equiv> heap_end fin g" and "E \<equiv> range_leaves start fin leaf align"
  assumes good: "good_range start fin leaf align"
  shows "A = B + E * leaf" "65 \<le> E" "2 ^ log2 E < E" "E < 2 ^ Suc (log2 E)" "6 \<le> log2 E" "A \<le> fin"
    "B + 2 ^ Suc (log2 E) * leaf < usize_lim" "start \<le> B" "leaf dvd B" "align dvd B" "Suc (log2 E) < 63"
proof -
  from good have p: "0 < leaf" "16 \<le> leaf" "0 < start" "fin < 2 ^ 63" "B + 65 * leaf \<le> A" "\<not> is_power_of_two E"
    by (auto simp: good_range_def range_leaves_def g_def B_def A_def E_def)
  note dv = good_range_dvd [OF good, folded g_def]
  show B: "leaf dvd B" "align dvd B" using dv by (auto simp: B_def heap_base_def)
  have "leaf dvd A" using dv by (auto simp: A_def heap_end_def)
  then have "leaf dvd A - B" using B by simp
  then have "E * leaf = A - B" by (simp add: E_def range_leaves_def A_def B_def g_def)
  then show A: "A = B + E * leaf" using p by simp
  with p have "65 * leaf \<le> E * leaf" by simp
  then show E: "65 \<le> E" using p(1) by simp
  from log2_bounds [of E] E have lb: "2 ^ log2 E \<le> E" "E < 2 ^ Suc (log2 E)" by auto
  show "2 ^ log2 E < E" using lb p(6) by (metis is_power_of_two_iff le_neq_implies_less)
  show "E < 2 ^ Suc (log2 E)" by (rule lb(2))
  show "6 \<le> log2 E"
  proof (rule ccontr)
    assume "\<not> 6 \<le> log2 E"
    then have "(2::nat) ^ Suc (log2 E) \<le> 2 ^ 6" by (intro power_increasing) auto
    with lb E show False by simp
  qed
  show Afin: "A \<le> fin" by (simp add: A_def heap_end_le)
  have "2 ^ log2 E * leaf \<le> E * leaf" using lb(1) by (rule mult_le_mono1)
  then have "B + 2 ^ Suc (log2 E) * leaf \<le> 2 * A" using A unfolding power_Suc mult.assoc by linarith
  then show lim: "B + 2 ^ Suc (log2 E) * leaf < usize_lim" using Afin p(4) by (simp add: usize_lim_def)
  show "start \<le> B" using heap_base_bounds [OF p(3) dv(3)] by (simp add: B_def)
  have "2 ^ Suc (log2 E) * 16 \<le> 2 ^ Suc (log2 E) * leaf" using p(2) by (rule mult_le_mono2)
  then have "2 ^ Suc (log2 E) * 16 < (2::nat) ^ 64" using lim unfolding usize_lim_def by linarith
  then have "2 ^ (Suc (log2 E) + 4) < (2::nat) ^ 64" by (simp add: power_add)
  then have "Suc (log2 E) + 4 < 64" by (rule power_less_imp_less_exp [rotated]) simp
  then show "Suc (log2 E) < 63" by simp
qed

lemma init_geometry_Ret:
  fixes start fin leaf align
  defines "g \<equiv> max leaf align"
  defines "B \<equiv> heap_base start g" and "A \<equiv> heap_end fin g" and "E \<equiv> range_leaves start fin leaf align"
  assumes good: "good_range start fin leaf align"
  shows "init_geometry s start fin leaf align = Ret (B, s\<lparr>leaf_size := leaf, max_alignment := align,
     base := B, actual_end := A, nsizes := log2 E + 2\<rparr>)"
proof -
  note F = good_range_facts [OF good, folded g_def, folded B_def A_def E_def]
  from good have p: "0 < leaf" "0 < start" "fin < 2 ^ 63" by (auto simp: good_range_def)
  have g: "0 < g" using good_range_dvd(3) [OF good] by (simp add: g_def)
  have BA: "B \<le> A" using F(1) by simp
  have Blim: "B < usize_lim" "A < usize_lim" using BA F(6) p(3) by (auto simp: usize_lim_def)
  have ru: "round_up start g = Ret B" using round_up_Ret [OF p(2) g] Blim by (simp add: B_def)
  have rd: "round_down fin g = Ret A"
    using g Blim by (simp add: round_down_def umul_Ret A_def heap_end_def)
  have div: "(A - B) div leaf = E" using F(1) p(1) by simp
  have "2 ^ log2 E * leaf < usize_lim" using F(7) by simp
  moreover have "log2 E < 64" using F(11) by simp
  moreover have "2 ^ log2 E * leaf < A - B" using F(1,3) p(1) by simp
  ultimately show ?thesis
    using ru rd BA p(1) div F(11)
    by (simp add: init_geometry_def max_size_def blk_size_def ushl1_Ret umul_Ret uadd_Ret usize_lim_def
        flip: g_def)
qed

text \<open>The state after the metadata is laid out, in the source's order.\<close>

definition meta_bytes :: "nat \<Rightarrow> nat" where
  "meta_bytes n = 48 * n + slices n 0 + slices n 1"

lemma init_infos_Ret:
  "B + 48 * n < usize_lim \<Longrightarrow> init_infos B n =
   Ret (B + 48 * n, map (\<lambda>i. \<lparr>bi_free = B + 48 * i, bi_alloc = [], bi_split = []\<rparr>) [0..<n])"
  by (simp add: init_infos_def init_slice_empty_def sizeof_info_def umul_Ret uadd_Ret)

lemma init_layout:
  assumes n: "nsizes s1 = Suc N" "N < 63" "0 < base s1" "base s1 + meta_bytes (Suc N) < usize_lim"
  shows "\<exists>xs cur2 s2 s3. init_infos (base s1) (nsizes s1) = Ret (base s1 + 48 * Suc N, xs) \<and>
    init_alloc_slices (s1\<lparr>infos := xs\<rparr>) (base s1 + 48 * Suc N) 0 = Ret (cur2, s2) \<and>
    init_split_slices s2 cur2 1 = Ret (base s1 + meta_bytes (Suc N), s3) \<and>
    base s3 = base s1 \<and> actual_end s3 = actual_end s1 \<and> nsizes s3 = Suc N \<and>
    leaf_size s3 = leaf_size s1 \<and> max_alignment s3 = max_alignment s1 \<and> length (infos s3) = Suc N \<and>
    (\<forall>k \<le> N. infos s3 ! k = \<lparr>bi_free = base s1 + 48 * k, bi_alloc = replicate (nbytes (N - k)) 0,
        bi_split = (if k = 0 then [] else replicate (nbytes (N - k)) 0)\<rparr>) \<and>
    (\<forall>k \<le> N. dlist (lmem s3) (base s1 + 48 * k) [])"
proof -
  define xs where "xs = map (\<lambda>i. \<lparr>bi_free = base s1 + 48 * i, bi_alloc = [], bi_split = [] :: 8 word list\<rparr>) [0..<Suc N]"
  define s1' where "s1' = s1\<lparr>infos := xs\<rparr>"
  have lim: "base s1 + 48 * Suc N + slices (Suc N) 0 + slices (Suc N) 1 < usize_lim"
    using n(4) by (simp add: meta_bytes_def)
  have ii: "init_infos (base s1) (nsizes s1) = Ret (base s1 + 48 * Suc N, xs)"
    using init_infos_Ret [of "base s1" "Suc N"] lim n(1) unfolding xs_def by simp
  have s1': "length (infos s1') = nsizes s1'" "nsizes s1' = Suc N" using n(1) by (simp_all add: s1'_def xs_def)
  have hd: "head s1' k = base s1 + 48 * k" if "k \<le> N" for k
    using that by (simp add: head_def s1'_def xs_def nth_append del: upt_Suc)
  obtain s2 where s2: "init_alloc_slices s1' (base s1 + 48 * Suc N) 0 =
      Ret (base s1 + 48 * Suc N + slices (Suc N) 0, s2)" "same_fields s2 s1'"
    "\<forall>k < Suc N. infos s2 ! k = (infos s1' ! k)\<lparr>bi_alloc := replicate (nbytes (N - k)) 0\<rparr>"
    "lmem s2 = fold (\<lambda>k m. list_init m (head s1' k)) [0..<Suc N] (lmem s1')"
    using init_alloc_slices_spec [OF s1'(1), of "base s1 + 48 * Suc N" 0] s1'(2) lim n(2) by auto
  have f2: "length (infos s2) = nsizes s2" "nsizes s2 = Suc N" using s2(2) s1' by (auto simp: same_fields_def)
  obtain s3 where s3: "init_split_slices s2 (base s1 + 48 * Suc N + slices (Suc N) 0) 1 =
      Ret (base s1 + 48 * Suc N + slices (Suc N) 0 + slices (Suc N) 1, s3)" "same_fields s3 s2"
    "\<forall>k < Suc N. infos s3 ! k = (if 1 \<le> k then (infos s2 ! k)\<lparr>bi_split := replicate (nbytes (N - k)) 0\<rparr> else infos s2 ! k)"
    "lmem s3 = lmem s2"
    using init_split_slices_spec [OF f2(1), of "base s1 + 48 * Suc N + slices (Suc N) 0" 1] f2(2) lim n(2) by auto
  have "infos s1' ! k = \<lparr>bi_free = base s1 + 48 * k, bi_alloc = [], bi_split = []\<rparr>" if "k \<le> N" for k
    using that by (simp add: s1'_def xs_def del: upt_Suc)
  then have inf: "\<forall>k \<le> N. infos s3 ! k = \<lparr>bi_free = base s1 + 48 * k, bi_alloc = replicate (nbytes (N - k)) 0,
        bi_split = (if k = 0 then [] else replicate (nbytes (N - k)) 0)\<rparr>"
    using s2(3) s3(3) by auto
  have "dlist (lmem s3) (base s1 + 48 * k) []" if "k \<le> N" for k
  proof -
    have "base s1 + 48 * k \<in> set (map (head s1') [0..<Suc N])"
      using hd [OF that] that by (metis atLeastLessThan_iff image_eqI le_imp_less_Suc list.set_map set_upt zero_le)
    from fold_list_init [OF this, of "lmem s1'"] show ?thesis
      using n(3) by (simp add: s3(4) s2(4) dlist_def)
  qed
  then have "\<forall>k \<le> N. dlist (lmem s3) (base s1 + 48 * k) []" by blast
  moreover have "base s1 + 48 * Suc N + slices (Suc N) 0 + slices (Suc N) 1 = base s1 + meta_bytes (Suc N)"
    by (simp add: meta_bytes_def)
  moreover have "base s3 = base s1 \<and> actual_end s3 = actual_end s1 \<and> nsizes s3 = Suc N \<and>
      leaf_size s3 = leaf_size s1 \<and> max_alignment s3 = max_alignment s1 \<and> length (infos s3) = Suc N"
    using s3(2) s2(2) s1' by (simp add: same_fields_def s1'_def)
  ultimately show ?thesis using ii s2(1) s3(1) inf unfolding s1'_def by auto
qed

definition laid_out :: "buddy_system \<Rightarrow> nat \<Rightarrow> bool" where
  "laid_out s N \<longleftrightarrow> nsizes s = Suc N \<and> length (infos s) = Suc N \<and>
    (\<forall>k \<le> N. infos s ! k = \<lparr>bi_free = base s + 48 * k, bi_alloc = replicate (nbytes (N - k)) 0,
        bi_split = (if k = 0 then [] else replicate (nbytes (N - k)) 0)\<rparr>) \<and>
    (\<forall>k \<le> N. dlist (lmem s) (base s + 48 * k) [])"

lemma laid_out_shape:
  assumes l: "laid_out s N" and N: "N < 63" and b: "0 < base s" "base s + 2 ^ N * leaf_size s < usize_lim"
    and lf: "is_power_of_two (leaf_size s)" "16 \<le> leaf_size s" "is_power_of_two (max_alignment s)"
      "leaf_size s dvd base s" "max_alignment s dvd base s"
    and lo: "base s + 48 * Suc N \<le> lo"
  shows "shape lo s"
proof -
  have n: "nsizes s = Suc N" "msz s = N" "length (infos s) = Suc N" using l by (auto simp: laid_out_def msz_def)
  have inf: "infos s ! k = \<lparr>bi_free = base s + 48 * k, bi_alloc = replicate (nbytes (N - k)) 0,
        bi_split = (if k = 0 then [] else replicate (nbytes (N - k)) 0)\<rparr>" if "k \<le> N" for k
    using l that by (auto simp: laid_out_def)
  then have hd: "head s k = base s + 48 * k" if "k \<le> N" for k using that by (simp add: head_def)
  have "inj_on (head s) {..< nsizes s}" using hd n by (auto simp: inj_on_def)
  moreover have "base s \<le> head s k \<and> head s k < lo" if "k < nsizes s" for k using hd [of k] that n lo by simp
  moreover have "2 ^ (msz s - k) \<le> 8 * length (bi_alloc (infos s ! k))" if "k < nsizes s" for k
    using inf [of k] that n nbytes_bits(1) by simp
  moreover have "2 ^ (msz s - k) \<le> 8 * length (bi_split (infos s ! k))" if "k < nsizes s" "0 < k" for k
    using inf [of k] that n nbytes_bits(1) by simp
  ultimately show ?thesis
    using N b lf lo n by (simp add: shape_def is_power_of_two_iff bsz_def)
qed

context buddy_bits
begin

lemma laid_out_zero:
  assumes l: "laid_out s N" and b: "blk_in N k b" shows "\<not> abit bf s k b" "\<not> sbit bf s k b"
proof -
  have k: "k \<le> N" using b by (simp add: blk_in_def)
  have "b div 8 < nbytes (N - k)" by (rule blk_byte [OF b nbytes_bits(1)])
  moreover have "infos s ! k = \<lparr>bi_free = base s + 48 * k, bi_alloc = replicate (nbytes (N - k)) 0,
        bi_split = (if k = 0 then [] else replicate (nbytes (N - k)) 0)\<rparr>"
    using l k by (auto simp: laid_out_def)
  ultimately show "\<not> abit bf s k b" "\<not> sbit bf s k b"
    by (simp_all add: abit_def sbit_def get_bit_spec)
qed

lemma mark_all:
  assumes l: "laid_out s3 N" and sh: "shape lo s3" and ro: "roomy M E N"
    and lo: "lo = base s3 + M * leaf_size s3" and ae: "actual_end s3 = base s3 + E * leaf_size s3"
  shows "\<exists>s4 s5. mark_meta bf s3 lo = Ret (M * leaf_size s3, s4) \<and>
    mark_unavail bf s4 = Ret ((2 ^ N - E) * leaf_size s3, s5) \<and> same_geom s5 s3 \<and>
    lists bf lo s5 (\<lambda>_. []) \<and> marked_state bf lo M E s5"
proof -
  have N: "msz s3 = N" using l by (simp add: laid_out_def msz_def)
  have ME: "M \<le> 2 ^ N" "E \<le> 2 ^ N"
  proof -
    have "M \<le> 2 ^ (N - 2)" "E < 2 ^ N" using ro by (auto simp: roomy_def)
    moreover have "(2::nat) ^ (N - 2) \<le> 2 ^ N" by (rule power_increasing) simp_all
    ultimately show "M \<le> 2 ^ N" "E \<le> 2 ^ N" by linarith+
  qed
  from mark_spec [OF sh, of M 0] ME N obtain s4 where
    s4: "mark bf s3 (base s3) lo = Ret s4" "same_geom s4 s3" "lmem s4 = lmem s3"
      "abit bf s4 = (\<lambda>k b. abit bf s3 k b \<or> k \<le> N \<and> rcut 0 k \<le> b \<and> b < lcut M k)"
      "sbit bf s4 = (\<lambda>k b. sbit bf s3 k b \<or> 0 < k \<and> k \<le> N \<and> rcut 0 k \<le> b \<and> b < lcut M k)"
    by (auto simp: lo)
  note G4 = same_geomD [OF s4(2)]
  have sh4: "shape lo s4" using sh by (simp add: G4)
  from mark_spec [OF sh4, of "2 ^ N" E] N obtain s5 where
    s5: "mark bf s4 (base s3 + E * leaf_size s3) (base s3 + 2 ^ N * leaf_size s3) = Ret s5" "same_geom s5 s4" "lmem s5 = lmem s4"
      "abit bf s5 = (\<lambda>k b. abit bf s4 k b \<or> k \<le> N \<and> rcut E k \<le> b \<and> b < lcut (2 ^ N) k)"
      "sbit bf s5 = (\<lambda>k b. sbit bf s4 k b \<or> 0 < k \<and> k \<le> N \<and> rcut E k \<le> b \<and> b < lcut (2 ^ N) k)"
    by (auto simp: G4)
  have g5: "same_geom s5 s3" by (rule same_geom_trans [OF s5(2) s4(2)])
  note G5 = same_geomD [OF g5]
  have "mark_meta bf s3 lo = Ret (M * leaf_size s3, s4)"
    using s4(1) by (simp add: mark_meta_def lo)
  moreover have "mark_unavail bf s4 = Ret ((2 ^ N - E) * leaf_size s3, s5)"
  proof -
    have "E * leaf_size s3 \<le> 2 ^ N * leaf_size s3" using ME(2) by (rule mult_le_mono1)
    moreover have "base s3 + 2 ^ N * leaf_size s3 < usize_lim"
      using shapeD(6) [OF sh] by (simp add: N bsz_def)
    ultimately show ?thesis
      using sh4 s5(1) blk_size_Ret [OF sh4, of N] N
      by (simp add: mark_unavail_def G4 ae bsz_def uadd_Ret diff_mult_distrib)
  qed
  moreover have ms: "marked_state bf lo M E s5"
  proof -
    have "abit bf s5 k b = marked M E k b \<and> sbit bf s5 k b = (0 < k \<and> marked M E k b)" if b: "blk_in N k b" for k b
    proof -
      have k: "k \<le> N" "b < 2 ^ (N - k)" using b by (auto simp: blk_in_def)
      then have "b * 2 ^ k < 2 ^ (N - k) * 2 ^ k" by simp
      then have "b * 2 ^ k < 2 ^ N" using k by (simp flip: power_add)
      then have "b < lcut (2 ^ N) k" by (simp add: lcut_less)
      then show ?thesis
        using laid_out_zero [OF l b] k(1)
        by (cases "k = 0") (auto simp: s5(4,5) s4(4,5) marked_cut rcut_def)
    qed
    then show ?thesis using ro lo ae by (simp add: marked_state_def G5 N)
  qed
  moreover have "lists bf lo s5 (\<lambda>_. [])"
  proof -
    have "dlist (lmem s5) (head s5 k) []" if "k \<le> N" for k
      using l that s4(3) s5(3) G5(4) by (simp add: laid_out_def head_def)
    then show ?thesis using sh marked_stateD(6) [OF ms] by (simp add: lists_def G5 N)
  qed
  ultimately show ?thesis using g5 by blast
qed

end

context buddy_bits
begin

lemma init_main:
  fixes start fin leaf align
  defines "B \<equiv> heap_base start (max leaf align)" and "A \<equiv> heap_end fin (max leaf align)"
    and "E \<equiv> range_leaves start fin leaf align"
  defines "N \<equiv> Suc (log2 E)"
  defines "lo \<equiv> heap_base (B + meta_bytes (Suc N)) leaf"
  assumes ni: "\<not> initialized s" and good: "good_range start fin leaf align"
  shows "\<exists>s'. bs_init bf s start fin leaf align = Ret (s', Inr ()) \<and> initialized s' \<and> buddy_inv bf lo s' \<and>
    base s' = B \<and> actual_end s' = A \<and> leaf_size s' = leaf \<and> max_alignment s' = align \<and> nsizes s' = Suc N \<and>
    lo \<le> B + 2 ^ (N - 2) * leaf \<and>
    used bf s' = {(0, b) |b. b < 2 ^ N \<and> \<not> (lo \<le> B + b * leaf \<and> B + b * leaf < A)}"
proof -
  note F = good_range_facts [OF good, folded B_def A_def E_def, folded N_def]
  from good have p: "is_power_of_two leaf" "is_power_of_two align" "16 \<le> leaf" "0 < leaf" "0 < start"
    by (auto simp: good_range_def)
  have N7: "7 \<le> N" using F(5) by (simp add: N_def)
  have N4: "(2::nat) ^ N = 4 * 2 ^ (N - 2)" by (rule pow2_quarter) (use N7 in simp)
  have meta: "meta_bytes (Suc N) \<le> 2 ^ (N - 2) * leaf"
  proof -
    have "meta_bytes (Suc N) \<le> 4 * 2 ^ N" using meta_small [OF N7] by (simp add: meta_bytes_def)
    also have "\<dots> = 2 ^ (N - 2) * 16" using N4 by simp
    also have "\<dots> \<le> 2 ^ (N - 2) * leaf" using p(3) by (rule mult_le_mono2)
    finally show ?thesis .
  qed
  define M where "M = (meta_bytes (Suc N) - 1) div leaf + 1"
  have mpos: "0 < meta_bytes (Suc N)" by (simp add: meta_bytes_def)
  have loM: "lo = B + M * leaf"
  proof -
    obtain c where c: "B = leaf * c" using F(9) by blast
    have e: "B + meta_bytes (Suc N) - 1 = (meta_bytes (Suc N) - 1) + c * leaf" using mpos c by (simp add: mult.commute)
    show ?thesis unfolding lo_def heap_base_def M_def e using p(4) c by (simp add: distrib_right)
  qed
  have lob: "B + meta_bytes (Suc N) \<le> lo"
    using heap_base_bounds [of "B + meta_bytes (Suc N)" leaf] mpos p(4) by (simp add: lo_def)
  have "(meta_bytes (Suc N) - 1) div leaf < 2 ^ (N - 2)"
    using meta mpos p(4) by (simp add: div_less_iff_less_mult)
  then have M: "M \<le> 2 ^ (N - 2)" "0 < M" by (simp_all add: M_def)
  then have "M * leaf \<le> 2 ^ (N - 2) * leaf" by (intro mult_le_mono1)
  then have lole: "lo \<le> B + 2 ^ (N - 2) * leaf" by (simp add: loM)
  have ro: "roomy M E N" using M N7 F(3,4) by (simp add: roomy_def N_def)
  have lim: "B + 2 ^ N * leaf < usize_lim" using F(7) by simp
  have q: "2 ^ (N - 2) * leaf \<le> 2 ^ N * leaf" unfolding N4 by simp
  have mlim: "B + meta_bytes (Suc N) < usize_lim" "lo < usize_lim" using lim q meta lole by linarith+
  have Bpos: "0 < B" using F(8) p(5) by simp
  define s1 where "s1 = s\<lparr>leaf_size := leaf, max_alignment := align, base := B, actual_end := A, nsizes := log2 E + 2\<rparr>"
  have geo: "init_geometry s start fin leaf align = Ret (B, s1)"
    using init_geometry_Ret [OF good, of s] by (simp add: s1_def B_def A_def E_def)
  have "nsizes s1 = Suc N" "N < 63" "0 < base s1" "base s1 + meta_bytes (Suc N) < usize_lim"
    using F(11) Bpos mlim by (simp_all add: s1_def N_def)
  from init_layout [OF this] obtain xs cur2 s2 s3 where
    L: "init_infos B (nsizes s1) = Ret (B + 48 * Suc N, xs)"
      "init_alloc_slices (s1\<lparr>infos := xs\<rparr>) (B + 48 * Suc N) 0 = Ret (cur2, s2)"
      "init_split_slices s2 cur2 1 = Ret (B + meta_bytes (Suc N), s3)"
    and f: "base s3 = B" "actual_end s3 = A" "nsizes s3 = Suc N" "leaf_size s3 = leaf" "max_alignment s3 = align"
    and lay: "laid_out s3 N"
    by (auto simp: s1_def laid_out_def)
  have "base s3 + 48 * Suc N \<le> lo" using lob by (simp add: f meta_bytes_def)
  then have sh: "shape lo s3"
    using laid_out_shape [OF lay, of lo] F(9,10,11) lim Bpos p by (simp add: f N_def)
  have "lo = base s3 + M * leaf_size s3" "actual_end s3 = base s3 + E * leaf_size s3" using loM F(1) by (simp_all add: f)
  from mark_all [OF lay sh ro this] obtain s4 s5 where
    K: "mark_meta bf s3 lo = Ret (M * leaf, s4)" "mark_unavail bf s4 = Ret ((2 ^ N - E) * leaf, s5)"
      "same_geom s5 s3" "lists bf lo s5 (\<lambda>_. [])" "marked_state bf lo M E s5" by (auto simp: f)
  note G5 = same_geomD [OF K(3)]
  from init_free_spec [OF K(4,5)] obtain s6 where
    I: "init_free bf s5 lo = Ret ((E - M) * leaf, s6)" "buddy_inv bf lo s6" "same_geom s6 s5"
      "abit bf s6 = abit bf s5" "sbit bf s6 = sbit bf s5" by (auto simp: G5 f)
  note G6 = same_geomD [OF same_geom_trans [OF I(3) K(3)]]
  have sh6: "shape lo s6" using sh by (simp add: G6)
  have N6: "msz s6 = N" "bsz s6 N = 2 ^ N * leaf" using f by (simp_all add: msz_def bsz_def G6)
  have "M * leaf \<le> 2 ^ N * leaf" using \<open>M * leaf \<le> 2 ^ (N - 2) * leaf\<close> q by (rule order_trans)
  moreover have "2 ^ N * leaf - M * leaf - (2 ^ N - E) * leaf = (E - M) * leaf"
  proof -
    have "E \<le> 2 ^ N" using F(4) by simp
    then have "2 ^ N - M - (2 ^ N - E) = E - M" by simp
    then show ?thesis by (simp flip: diff_mult_distrib)
  qed
  moreover have "(2 ^ N - E) * leaf \<le> 2 ^ N * leaf - M * leaf"
  proof -
    have "(2::nat) ^ (N - 2) \<le> 2 ^ (N - 1)" by (rule power_increasing) simp_all
    with M(1) have "M \<le> 2 ^ (N - 1)" by (rule order_trans)
    then have "M \<le> E" using F(3) by (simp add: N_def)
    then have "2 ^ N - E \<le> 2 ^ N - M" by simp
    then show ?thesis by (simp flip: diff_mult_distrib)
  qed
  moreover have "leaf \<le> fin - start" "start \<le> fin"
  proof -
    have "leaf * 65 \<le> E * leaf" using F(2) by simp
    then show "leaf \<le> fin - start" "start \<le> fin" using F(1,6,8) by linarith+
  qed
  moreover have "round_up (B + meta_bytes (Suc N)) leaf = Ret lo"
    using round_up_Ret [of "B + meta_bytes (Suc N)" leaf] mpos p(4) mlim(2) by (simp add: lo_def)
  ultimately have "bs_init bf s start fin leaf align = Ret (s6\<lparr>initialized := True\<rparr>, Inr ())"
    using ni p geo L K(1,2) I(1) sh6 blk_size_Ret [OF sh6, of N] N6
    by (simp add: bs_init_def)
  moreover have inv: "buddy_inv bf lo (s6\<lparr>initialized := True\<rparr>)"
    using I(2) rep_cong [of "s6\<lparr>initialized := True\<rparr>" s6] by (simp add: buddy_inv_def)
  moreover have "used bf (s6\<lparr>initialized := True\<rparr>) = {(0, b) |b. b < 2 ^ N \<and> \<not> (lo \<le> B + b * leaf \<and> B + b * leaf < A)}"
  proof -
    have "used bf (s6\<lparr>initialized := True\<rparr>) = used bf s5"
      using I(4,5) G6(1) G5(1) same_geomD(1) [OF initialized_frame(1)] by (simp add: used_def)
    also have "\<dots> = live N (marked M E) (\<lambda>k b. 0 < k \<and> marked M E k b)"
    proof -
      have e: "msz s5 = N" using N6(1) G6(1) G5(1) by simp
      show ?thesis
        unfolding used_def e by (rule tree_cong(2)) (use marked_stateD(4,5) [OF K(5)] e in simp_all)
    qed
    also have "\<dots> = {(0, b) |b. b < 2 ^ N \<and> (b < M \<or> E < b + 1)}"
      by (auto simp: live_def blk_in_def marked_def)
    also have "\<dots> = {(0, b) |b. b < 2 ^ N \<and> \<not> (lo \<le> B + b * leaf \<and> B + b * leaf < A)}"
      unfolding loM F(1) using p(4) by auto
    finally show ?thesis .
  qed
  ultimately show ?thesis using lole f by (auto simp: G6)
qed

end

end
