(* ===== verification/Params.thy ===== *)
theory Params
  imports Prelude
begin

text \<open>
  The constants of \<open>kernel/src/arch/riscv/qemu/param.rs\<close> and \<open>layout.rs\<close>.
\<close>

definition NPROC :: nat where "NPROC = 64"

definition NCPU :: nat where "NCPU = 8"

definition NDEV :: nat where "NDEV = 10"

definition MAXARG :: nat where "MAXARG = 32"

definition MAXPATH :: nat where "MAXPATH = 128"

definition LEAF_SIZE :: nat where "LEAF_SIZE = 16"

definition MAX_ALIGNMENT :: nat where "MAX_ALIGNMENT = 4096"

definition UART0 :: nat where "UART0 = 0x10000000"

definition UART0_IRQ :: nat where "UART0_IRQ = 10"

definition VIRTIO0 :: nat where "VIRTIO0 = 0x10001000"

definition VIRTIO0_IRQ :: nat where "VIRTIO0_IRQ = 1"

definition CLINT :: nat where "CLINT = 0x2000000"

definition PLIC_BASE :: nat where "PLIC_BASE = 0x0c000000"

definition E1000_REGS :: nat where "E1000_REGS = 0x40000000"

definition ECAM :: nat where "ECAM = 0x30000000"

definition VIRT_TEST :: nat where "VIRT_TEST = 0x100000"

definition MEM_SIZE :: nat where "MEM_SIZE = 128 * 1024 * 1024"

definition KERNEL_BASE :: nat where "KERNEL_BASE = 0x80000000"

definition PHYSTOP :: nat where "PHYSTOP = KERNEL_BASE + MEM_SIZE"

definition PGSIZE :: nat where "PGSIZE = 4096"

definition PGSHIFT :: nat where "PGSHIFT = 12"

definition PGMASKLEN :: nat where "PGMASKLEN = 9"

definition PGMASK :: nat where "PGMASK = 0x1FF"

definition MAXVA :: nat where "MAXVA = 2 ^ (9 + 9 + 9 + 12 - 1)"

definition TRAMPOLINE :: nat where "TRAMPOLINE = MAXVA - PGSIZE"

definition TRAPFRAME :: nat where "TRAPFRAME = TRAMPOLINE - PGSIZE"

lemmas layout_defs = PHYSTOP_def MEM_SIZE_def KERNEL_BASE_def PGSIZE_def MAXVA_def TRAMPOLINE_def TRAPFRAME_def

end
