(* ===== verification/KernelHeap.thy ===== *)
theory KernelHeap
  imports BuddyInit Params
begin

text \<open>
  The kernel heap of \<open>kernel/src/memory/kalloc.rs\<close>: the buddy system behind a spinlock as the
  global allocator, and \<open>PageAllocator::new_zeroed\<close> of \<open>kernel/src/memory/mod.rs\<close>. Each call holds
  the lock for its whole duration, so a call is one step on the buddy system. The theory states
  the properties of the allocator, and the contract \<open>block_allocator\<close> its clients rely on.
\<close>

definition heap_alloc :: "8 word bitops \<Rightarrow> buddy_system \<Rightarrow> layout \<Rightarrow> (nat \<times> buddy_system) outcome" where
  "heap_alloc bf s layout = bs_alloc bf s layout"

definition heap_dealloc :: "8 word bitops \<Rightarrow> buddy_system \<Rightarrow> nat \<Rightarrow> layout \<Rightarrow> buddy_system outcome" where
  "heap_dealloc bf s ptr layout = bs_dealloc bf s ptr layout"

text \<open>\<open>KernelHeap::init\<close> prints the result of \<open>BuddySystem::init\<close> and goes on in either case.\<close>

definition heap_init :: "8 word bitops \<Rightarrow> buddy_system \<Rightarrow> nat \<Rightarrow> nat \<Rightarrow> buddy_system outcome" where
  "heap_init bf s start end =
     bnd (bs_init bf s start end LEAF_SIZE MAX_ALIGNMENT) (\<lambda>(s', res). Ret s')"

definition kinit :: "8 word bitops \<Rightarrow> buddy_system \<Rightarrow> nat \<Rightarrow> buddy_system outcome" where
  "kinit bf s kernel_end = heap_init bf s kernel_end PHYSTOP"

text \<open>A \<open>Box\<close> of a layout; running out of memory is the panic of \<open>alloc_error_handler\<close>.\<close>

definition box_alloc :: "8 word bitops \<Rightarrow> buddy_system \<Rightarrow> layout \<Rightarrow> (nat \<times> buddy_system) outcome" where
  "box_alloc bf s layout = bnd (heap_alloc bf s layout) (\<lambda>(p, s').
     if p = 0 then Panic ''alloc error'' else Ret (p, s'))"

definition page_layout :: layout where
  "page_layout = \<lparr>lsize = PGSIZE, lalign = PGSIZE\<rparr>"

definition stack_layout :: layout where
  "stack_layout = \<lparr>lsize = PGSIZE * 4, lalign = PGSIZE\<rparr>"

text \<open>The bytes of a block.\<close>

definition region :: "buddy_system \<Rightarrow> nat \<times> nat \<Rightarrow> nat set" where
  "region s = (\<lambda>(k, b). {baddr s k b ..< baddr s k b + bsz s k})"

definition layout_ok :: "buddy_system \<Rightarrow> layout \<Rightarrow> bool" where
  "layout_ok s l \<longleftrightarrow> 0 < lsize l \<and> lsize l \<le> 2 ^ 63 \<and> is_power_of_two (lalign l) \<and>
     lalign l \<le> lsize l \<and> lalign l \<le> max_alignment s"

lemma region_overlap:
  assumes "shape lo s" "x \<in> region s (k, b)" "x \<in> region s (j, c)"
  shows "leaves k b \<inter> leaves j c \<noteq> {}"
proof -
  define y where "y = (x - base s) div leaf_size s"
  have in_leaf: "y \<in> leaves k b" if "x \<in> region s (k, b)" for k b
  proof -
    from that have "b * 2 ^ k * leaf_size s \<le> x - base s" "x - base s < (b + 1) * 2 ^ k * leaf_size s"
      by (auto simp: region_def baddr_def bsz_def algebra_simps)
    then show ?thesis
      using shapeD(4) [OF assms(1)]
      by (simp add: leaves_def y_def less_eq_div_iff_mult_less_eq div_less_iff_less_mult)
  qed
  from in_leaf [OF assms(2)] in_leaf [OF assms(3)] show ?thesis by blast
qed

lemma used_regions_disjoint:
  assumes "buddy_inv bf lo s" "x \<in> used bf s" "y \<in> used bf s" "x \<noteq> y"
  shows "region s x \<inter> region s y = {}"
proof -
  from assms(1) have S: "shape lo s" "tree_inv (msz s) (abit bf s) (sbit bf s)"
    by (auto simp: buddy_inv_def rep_def)
  obtain k b j c where xy: "x = (k, b)" "y = (j, c)" by (cases x, cases y)
  show ?thesis
  proof (rule ccontr)
    assume "region s x \<inter> region s y \<noteq> {}"
    then have "leaves k b \<inter> leaves j c \<noteq> {}" using region_overlap [OF S(1)] xy by blast
    from member_no_overlap [OF S(2) _ _ this] assms(2-4) xy show False
      by (auto simp: member_blk_def used_def)
  qed
qed

lemma block_aligned:
  assumes s: "shape lo s" and l: "is_power_of_two a" "a \<le> bsz s k" "a \<le> max_alignment s"
  shows "a dvd baddr s k b"
proof -
  obtain n where n: "leaf_size s = 2 ^ n" using s by (auto simp: shape_def)
  obtain m where m: "max_alignment s = 2 ^ m" using s by (auto simp: shape_def)
  obtain e where e: "a = 2 ^ e" using l(1) by (auto simp: is_power_of_two_iff)
  have "a dvd max_alignment s" using l(3) unfolding m e by (simp add: le_imp_power_dvd)
  then have "a dvd base s" using s by (auto simp: shape_def intro: dvd_trans)
  moreover have "bsz s k = 2 ^ (k + n)" by (simp add: bsz_def n power_add)
  then have "a dvd bsz s k" using l(2) unfolding e by (simp add: le_imp_power_dvd)
  ultimately show ?thesis by (simp add: baddr_def)
qed

lemma same_used_same_free:
  assumes i: "buddy_inv bf lo s" "buddy_inv bf lo' s'" and g: "msz s' = msz s" and u: "used bf s' = used bf s"
  shows "free_at bf s' k = free_at bf s k"
proof -
  from i have "tree_inv (msz s) (abit bf s) (sbit bf s)" "tree_inv (msz s) (abit bf s') (sbit bf s')"
    using g by (auto simp: buddy_inv_def rep_def)
  moreover have "live (msz s) (abit bf s) (sbit bf s) = live (msz s) (abit bf s') (sbit bf s')"
    using u g by (simp add: used_def)
  ultimately have "blk_in (msz s) k b \<Longrightarrow> abit bf s k b = abit bf s' k b \<and> sbit bf s k b = sbit bf s' k b" for k b
    by (rule live_determines)
  then show ?thesis unfolding free_at_def g by (intro tree_cong(3)) simp_all
qed

lemma inv_shape: "buddy_inv bf lo s \<Longrightarrow> shape lo s"
  by (auto simp: buddy_inv_def rep_def)



text \<open>
  The contract of the allocator towards its clients: \<open>owned s\<close> is the set of blocks handed out, as
  pairs of a start address and a length.
\<close>

locale block_allocator =
  fixes inv :: "'s \<Rightarrow> bool" and owned :: "'s \<Rightarrow> (nat \<times> nat) set" and ok :: "'s \<Rightarrow> layout \<Rightarrow> bool"
    and alloc :: "'s \<Rightarrow> layout \<Rightarrow> (nat \<times> 's) outcome" and dealloc :: "'s \<Rightarrow> nat \<Rightarrow> layout \<Rightarrow> 's outcome"
  assumes alloc_law: "inv s \<Longrightarrow> ok s l \<Longrightarrow>
      \<exists>p s'. alloc s l = Ret (p, s') \<and> inv s' \<and> (\<forall>l'. ok s' l' = ok s l') \<and>
        (p = 0 \<and> s' = s \<or> p \<noteq> 0 \<and> lalign l dvd p \<and> (\<exists>n \<ge> lsize l. owned s' = insert (p, n) (owned s) \<and>
          (p, n) \<notin> owned s \<and> (\<forall>(q, m) \<in> owned s. {p ..< p + n} \<inter> {q ..< q + m} = {})))"
    and dealloc_law: "inv s \<Longrightarrow> (p, n) \<in> owned s \<Longrightarrow> lsize l \<le> n \<Longrightarrow>
      \<exists>s'. dealloc s p l = Ret s' \<and> inv s' \<and> (\<forall>l'. ok s' l' = ok s l') \<and> owned s' = owned s - {(p, n)}"
    and owned_disjoint: "inv s \<Longrightarrow> x \<in> owned s \<Longrightarrow> y \<in> owned s \<Longrightarrow> x \<noteq> y \<Longrightarrow>
      {fst x ..< fst x + snd x} \<inter> {fst y ..< fst y + snd y} = {}"
begin

lemma alloc_twice_disjoint:
  assumes "inv s" "ok s l1" "ok s l2" "alloc s l1 = Ret (p, s1)" "p \<noteq> 0" "alloc s1 l2 = Ret (q, s2)" "q \<noteq> 0"
  shows "{p ..< p + lsize l1} \<inter> {q ..< q + lsize l2} = {}"
proof -
  from alloc_law [OF assms(1,2)] assms(4,5) obtain n where
    1: "inv s1" "\<forall>l'. ok s1 l' = ok s l'" "lsize l1 \<le> n" "owned s1 = insert (p, n) (owned s)" by auto
  from alloc_law [OF 1(1), of l2] 1(2) assms(3,6,7) obtain m where
    2: "lsize l2 \<le> m" "\<forall>(a, c) \<in> owned s1. {q ..< q + m} \<inter> {a ..< a + c} = {}" by auto
  from 2(2) 1(4) have d: "{q ..< q + m} \<inter> {p ..< p + n} = {}" by auto
  have "{p ..< p + lsize l1} \<subseteq> {p ..< p + n}" "{q ..< q + lsize l2} \<subseteq> {q ..< q + m}"
    using 1(3) 2(1) by auto
  with d show ?thesis by blast
qed

lemma alloc_then_dealloc:
  assumes "inv s" "ok s l" "alloc s l = Ret (p, s1)" "p \<noteq> 0"
  shows "\<exists>s2. dealloc s1 p l = Ret s2 \<and> inv s2 \<and> owned s2 = owned s"
proof -
  from alloc_law [OF assms(1,2)] assms(3,4) obtain n where
    1: "inv s1" "lsize l \<le> n" "owned s1 = insert (p, n) (owned s)" "(p, n) \<notin> owned s" by auto
  from dealloc_law [OF 1(1) _ 1(2), of p] 1(3,4) show ?thesis by auto
qed

end

text \<open>The blocks of the buddy system that were handed out: in use and outside the metadata.\<close>

definition handed :: "8 word bitops \<Rightarrow> nat \<Rightarrow> buddy_system \<Rightarrow> (nat \<times> nat) set" where
  "handed bf lo s = (\<lambda>(k, b). (baddr s k b, bsz s k)) ` {(k, b) \<in> used bf s. usable lo s k b}"

lemma bsz_inj: "shape lo s \<Longrightarrow> bsz s k = bsz s j \<longleftrightarrow> k = j"
  using shapeD(4) [of lo s] by (simp add: bsz_def)

lemma baddr_cancel: "shape lo s \<Longrightarrow> baddr s k b = baddr s k c \<longleftrightarrow> b = c"
  by (simp add: baddr_eq)

lemma handed_upd:
  assumes g: "same_geom s' s" and s: "shape lo s"
  shows "used bf s' = insert (k, b) (used bf s) \<Longrightarrow> usable lo s k b \<Longrightarrow>
      handed bf lo s' = insert (baddr s k b, bsz s k) (handed bf lo s)"
    and "used bf s' = used bf s - {(k, b)} \<Longrightarrow> handed bf lo s' = handed bf lo s - {(baddr s k b, bsz s k)}"
  using same_geomD [OF g] baddr_cancel [OF s] bsz_inj [OF s]
  by (auto simp: handed_def)

lemma handed_region:
  assumes "(p, n) \<in> handed bf lo s"
  obtains k b where "(k, b) \<in> used bf s" "usable lo s k b" "p = baddr s k b" "n = bsz s k"
    "region s (k, b) = {p ..< p + n}"
  using assms by (auto simp: handed_def region_def)

lemma handed_fresh:
  "shape lo s \<Longrightarrow> (k, b) \<notin> used bf s \<Longrightarrow> (baddr s k b, bsz s k) \<notin> handed bf lo s"
  by (auto simp: handed_def baddr_cancel bsz_inj)

context buddy_bits
begin

lemma alloc_block:
  assumes i: "buddy_inv bf lo s" and l: "layout_ok s l"
  shows "bs_alloc bf s l = Ret (0, s) \<or> (\<exists>k b s'. bs_alloc bf s l = Ret (baddr s k b, s') \<and>
    baddr s k b \<noteq> 0 \<and> buddy_inv bf lo s' \<and> same_geom s' s \<and> (k, b) \<notin> used bf s \<and>
    used bf s' = insert (k, b) (used bf s) \<and> usable lo s k b \<and> fits s (lsize l) k \<and>
    lalign l dvd baddr s k b \<and> (\<forall>x \<in> used bf s. region s (k, b) \<inter> region s x = {}))"
proof -
  note S = inv_shape [OF i]
  from l have L: "0 < lsize l" "lsize l \<le> 2 ^ 63" "lalign l \<le> max_alignment s" "is_power_of_two (lalign l)"
    "lalign l \<le> lsize l" by (auto simp: layout_ok_def)
  from alloc_main [OF i L(1-3)] obtain k where k: "fits s (lsize l) k" and
    K: "if \<forall>j. k \<le> j \<longrightarrow> j < nsizes s \<longrightarrow> free_at bf s j = {} then bs_alloc bf s l = Ret (0, s)
     else (\<exists>b s'. bs_alloc bf s l = Ret (baddr s k b, s') \<and> buddy_inv bf lo s' \<and> same_geom s' s \<and>
       (k, b) \<notin> used bf s \<and> used bf s' = insert (k, b) (used bf s) \<and> usable lo s k b)" by blast
  show ?thesis
  proof (cases "\<forall>j. k \<le> j \<longrightarrow> j < nsizes s \<longrightarrow> free_at bf s j = {}")
    case False
    with K obtain b s' where B: "bs_alloc bf s l = Ret (baddr s k b, s')" "buddy_inv bf lo s'" "same_geom s' s"
       "(k, b) \<notin> used bf s" "used bf s' = insert (k, b) (used bf s)" "usable lo s k b" by auto
    have "region s (k, b) \<inter> region s x = {}" if "x \<in> used bf s" for x
    proof -
      have "region s' = region s" using same_geomD [OF B(3)] by (auto simp: region_def fun_eq_iff)
      then show ?thesis using used_regions_disjoint [OF B(2), of "(k, b)" x] B(4,5) that by auto
    qed
    moreover have "lalign l \<le> bsz s k" using k L(5) by (simp add: fits_def)
    then have "lalign l dvd baddr s k b" by (rule block_aligned [OF S L(4) _ L(3)])
    moreover have "baddr s k b \<noteq> 0" using shapeD(7) [OF S] by (simp add: baddr_def)
    ultimately show ?thesis using B k by blast
  qed (use K in simp)
qed

end

sublocale buddy_bits \<subseteq> heap: block_allocator "buddy_inv bf lo" "handed bf lo" layout_ok "heap_alloc bf" "heap_dealloc bf"
proof
  fix s :: buddy_system and l :: layout
  assume i: "buddy_inv bf lo s" and l: "layout_ok s l"
  note S = inv_shape [OF i]
  show "\<exists>p s'. heap_alloc bf s l = Ret (p, s') \<and> buddy_inv bf lo s' \<and> (\<forall>l'. layout_ok s' l' = layout_ok s l') \<and>
        (p = 0 \<and> s' = s \<or> p \<noteq> 0 \<and> lalign l dvd p \<and> (\<exists>n \<ge> lsize l. handed bf lo s' = insert (p, n) (handed bf lo s) \<and>
          (p, n) \<notin> handed bf lo s \<and> (\<forall>(q, m) \<in> handed bf lo s. {p ..< p + n} \<inter> {q ..< q + m} = {})))"
    using alloc_block [OF i l]
  proof (elim disjE exE conjE)
    fix k b s'
    assume B: "bs_alloc bf s l = Ret (baddr s k b, s')" "baddr s k b \<noteq> 0" "buddy_inv bf lo s'" "same_geom s' s"
      "(k, b) \<notin> used bf s" "used bf s' = insert (k, b) (used bf s)" "usable lo s k b" "fits s (lsize l) k"
      "lalign l dvd baddr s k b" "\<forall>x \<in> used bf s. region s (k, b) \<inter> region s x = {}"
    have "{baddr s k b ..< baddr s k b + bsz s k} \<inter> {q ..< q + m} = {}" if "(q, m) \<in> handed bf lo s" for q m
    proof -
      from that obtain j c where "(j, c) \<in> used bf s" "region s (j, c) = {q ..< q + m}"
        by (rule handed_region)
      then show ?thesis using B(10) by (auto simp: region_def)
    qed
    then show ?thesis
      using B handed_upd(1) [OF B(4) S B(6,7)] handed_fresh [OF S B(5)] same_geomD [OF B(4)]
      by (auto simp: heap_alloc_def layout_ok_def fits_def)
  qed (use i in \<open>auto simp: heap_alloc_def\<close>)
next
  fix s :: buddy_system and p n :: nat and l :: layout
  assume i: "buddy_inv bf lo s" and o: "(p, n) \<in> handed bf lo s" and l: "lsize l \<le> n"
  from o obtain k b where kb: "(k, b) \<in> used bf s" "usable lo s k b" "p = baddr s k b" "n = bsz s k"
    by (rule handed_region)
  from dealloc_main [OF i kb(1,2)] l kb(4) obtain s' where
    D: "bs_dealloc bf s (baddr s k b) l = Ret s'" "buddy_inv bf lo s'" "same_geom s' s" "used bf s' = used bf s - {(k, b)}"
    by auto
  show "\<exists>s'. heap_dealloc bf s p l = Ret s' \<and> buddy_inv bf lo s' \<and> (\<forall>l'. layout_ok s' l' = layout_ok s l') \<and>
      handed bf lo s' = handed bf lo s - {(p, n)}"
    using D handed_upd(2) [OF D(3) inv_shape [OF i] D(4)] same_geomD [OF D(3)] kb(3,4)
    by (auto simp: heap_dealloc_def layout_ok_def)
next
  fix s :: buddy_system and x y :: "nat \<times> nat"
  assume i: "buddy_inv bf lo s" and x: "x \<in> handed bf lo s" and y: "y \<in> handed bf lo s" and ne: "x \<noteq> y"
  obtain p n q m where xy: "x = (p, n)" "y = (q, m)" by (cases x, cases y)
  from x xy obtain k b where kb: "(k, b) \<in> used bf s" "p = baddr s k b" "n = bsz s k" "region s (k, b) = {p ..< p + n}"
    by (auto elim: handed_region)
  from y xy obtain j c where jc: "(j, c) \<in> used bf s" "q = baddr s j c" "m = bsz s j" "region s (j, c) = {q ..< q + m}"
    by (auto elim: handed_region)
  have "(k, b) \<noteq> (j, c)" using ne xy kb(2,3) jc(2,3) by auto
  from used_regions_disjoint [OF i kb(1) jc(1) this] xy kb(4) jc(4)
  show "{fst x ..< fst x + snd x} \<inter> {fst y ..< fst y + snd y} = {}" by simp
qed

interpretation std_heap: block_allocator "buddy_inv std_bitops lo" "handed std_bitops lo" layout_ok
  "heap_alloc std_bitops" "heap_dealloc std_bitops" for lo
  by (rule std_buddy.heap.block_allocator_axioms)

lemma buddy_bitsI: "bit_field bf \<Longrightarrow> buddy_bits bf"
  by (simp add: buddy_bits_def)

lemma leaves_region:
  assumes "shape lo s" "region s (j, c) \<inter> region s (k, b) = {}" shows "leaves j c \<inter> leaves k b = {}"
proof (rule ccontr)
  assume "leaves j c \<inter> leaves k b \<noteq> {}"
  then obtain y where y: "y \<in> leaves j c" "y \<in> leaves k b" by blast
  have lf: "0 < leaf_size s" by (rule shapeD(4) [OF assms(1)])
  have "base s + y * leaf_size s \<in> region s (k, b)" if "y \<in> leaves k b" for k b
  proof -
    from that have "b * 2 ^ k \<le> y" "y < (b + 1) * 2 ^ k" by (auto simp: leaves_def)
    then have "b * 2 ^ k * leaf_size s \<le> y * leaf_size s" "y * leaf_size s < (b + 1) * 2 ^ k * leaf_size s"
      using lf by (auto intro: mult_le_mono1)
    then show ?thesis by (simp add: region_def baddr_def bsz_def algebra_simps)
  qed
  with y assms(2) show False by blast
qed

text \<open>
  Whole pages handed out by the heap, as the virtual memory code uses them: a new page is aligned,
  was not handed out before, and lies above the metadata.
\<close>

definition pages :: "8 word bitops \<Rightarrow> nat \<Rightarrow> buddy_system \<Rightarrow> nat set" where
  "pages bf lo h = {p. p mod PGSIZE = 0 \<and> (\<exists>n \<ge> PGSIZE. (p, n) \<in> handed bf lo h)}"

definition page_inv :: "8 word bitops \<Rightarrow> nat \<Rightarrow> buddy_system \<Rightarrow> bool" where
  "page_inv bf lo h \<longleftrightarrow> buddy_inv bf lo h \<and> layout_ok h page_layout"

lemma handed_bounds:
  assumes "shape lo s" "(p, n) \<in> handed bf lo s" shows "lo \<le> p" "p + n < usize_lim"
proof -
  from assms(2) obtain k b where k: "(k, b) \<in> used bf s" "usable lo s k b" "p = baddr s k b" "n = bsz s k"
    by (rule handed_region)
  then show "lo \<le> p" by (simp add: usable_def)
  have "blk_in (msz s) k b" using k(1) by (simp add: used_def live_def)
  from baddr_end [OF this] show "p + n < usize_lim" using shapeD(6) [OF assms(1)] k by simp
qed

context buddy_bits
begin

lemma page_alloc:
  assumes "page_inv bf lo h"
  shows "box_alloc bf h page_layout = Panic ''alloc error'' \<or> (\<exists>p h'. box_alloc bf h page_layout = Ret (p, h') \<and>
    page_inv bf lo h' \<and> p mod PGSIZE = 0 \<and> lo \<le> p \<and> p + PGSIZE < usize_lim \<and>
    pages bf lo h' = insert p (pages bf lo h) \<and> p \<notin> pages bf lo h)"
proof -
  from assms have i: "buddy_inv bf lo h" and l: "layout_ok h page_layout" by (auto simp: page_inv_def)
  have sz: "lsize page_layout = PGSIZE" "lalign page_layout = PGSIZE" by (simp_all add: page_layout_def)
  from heap.alloc_law [OF i l] obtain p h' where
    A: "heap_alloc bf h page_layout = Ret (p, h')" "buddy_inv bf lo h'" "\<forall>l'. layout_ok h' l' = layout_ok h l'"
      "p = 0 \<and> h' = h \<or> p \<noteq> 0 \<and> PGSIZE dvd p \<and> (\<exists>n \<ge> PGSIZE. handed bf lo h' = insert (p, n) (handed bf lo h) \<and>
          (p, n) \<notin> handed bf lo h \<and> (\<forall>(q, m) \<in> handed bf lo h. {p ..< p + n} \<inter> {q ..< q + m} = {}))"
    unfolding sz by blast
  show ?thesis
  proof (cases "p = 0")
    case True
    then show ?thesis using A(1) by (simp add: box_alloc_def)
  next
    case False
    with A(4) obtain n where n: "PGSIZE dvd p" "PGSIZE \<le> n" "handed bf lo h' = insert (p, n) (handed bf lo h)"
      "\<forall>(q, m) \<in> handed bf lo h. {p ..< p + n} \<inter> {q ..< q + m} = {}" by blast
    have "0 < PGSIZE" by (simp add: PGSIZE_def)
    then have "p \<notin> pages bf lo h" using n(2,4) by (fastforce simp: pages_def)
    moreover have "pages bf lo h' = insert p (pages bf lo h)" using n(1-3) by (auto simp: pages_def)
    moreover have "lo \<le> p" "p + PGSIZE < usize_lim"
      using handed_bounds [OF inv_shape [OF A(2)], of p n bf] n(2,3) by auto
    ultimately show ?thesis using A(1-3) False l n(1) by (auto simp: box_alloc_def page_inv_def)
  qed
qed

end

text \<open>A small initialised heap, for the examples: 156 leaves of 16 bytes.\<close>

definition demo_mem :: list_mem where
  "demo_mem = (\<lambda>_. \<lparr>prev_ptr = 0, next_ptr = 0\<rparr>)"

lemma demo_range: "good_range 4096 6596 16 16"
  by (simp add: good_range_def heap_base_def heap_end_def is_power_of_two_def next_power_of_two_def bit_len.simps)

lemma demo_leaves: "range_leaves 4096 6596 16 16 = 156" "log2 156 = 7"
  "heap_base 4096 16 = 4096" "heap_end 6596 16 = 6592"
  by (simp_all add: range_leaves_def heap_base_def heap_end_def log2.simps)

lemma demo_heap:
  "\<exists>s lo. bs_init std_bitops (bs_uninit demo_mem) 4096 6596 16 16 = Ret (s, Inr ()) \<and>
     buddy_inv std_bitops lo s \<and> base s = 4096 \<and> leaf_size s = 16 \<and> max_alignment s = 16 \<and>
     nsizes s = 9 \<and> actual_end s = 6592 \<and> lo \<le> 4096 + 1024 \<and>
     used std_bitops s = {(0, b) |b. b < 256 \<and> \<not> (lo \<le> 4096 + b * 16 \<and> 4096 + b * 16 < 6592)}"
  using std_buddy.init_main [OF _ demo_range, of "bs_uninit demo_mem"]
  by (simp add: demo_leaves bs_uninit_def) blast

text \<open>C2: \<open>alloc\<close> on a consistent heap never panics. It returns null, or a block that no block in use
  overlaps, that lies between the metadata and the end of the heap, holds the requested size in the
  smallest size class that fits, and has the requested alignment; the heap stays consistent and
  exactly this block becomes used.\<close>

theorem heap_alloc_correct:
  assumes "bit_field bf" "buddy_inv bf lo s" "layout_ok s l"
  shows "heap_alloc bf s l = Ret (0, s) \<or> (\<exists>k b s'. heap_alloc bf s l = Ret (baddr s k b, s') \<and>
    baddr s k b \<noteq> 0 \<and> buddy_inv bf lo s' \<and> used bf s' = insert (k, b) (used bf s) \<and> (k, b) \<notin> used bf s \<and>
    lo \<le> baddr s k b \<and> baddr s k b + bsz s k \<le> actual_end s \<and> fits s (lsize l) k \<and>
    lalign l dvd baddr s k b \<and> (\<forall>x \<in> used bf s. region s (k, b) \<inter> region s x = {}))"
  using buddy_bits.alloc_block [OF buddy_bitsI [OF assms(1)] assms(2,3)]
  unfolding heap_alloc_def usable_def by blast

lemma demo_layout: "max_alignment s = 16 \<Longrightarrow> layout_ok s \<lparr>lsize = 100, lalign = 16\<rparr>"
  by (simp add: layout_ok_def is_power_of_two_def next_power_of_two_def bit_len.simps)

theorem heap_alloc_correct_witness:
  "\<exists>s lo. bs_init std_bitops (bs_uninit demo_mem) 4096 6596 16 16 = Ret (s, Inr ()) \<and>
     (\<exists>p s'. heap_alloc std_bitops s \<lparr>lsize = 100, lalign = 16\<rparr> = Ret (p, s') \<and> (p = 0 \<or> 16 dvd p \<and> lo \<le> p))"
proof -
  obtain s lo where d: "bs_init std_bitops (bs_uninit demo_mem) 4096 6596 16 16 = Ret (s, Inr ())"
    "buddy_inv std_bitops lo s" "max_alignment s = 16" using demo_heap by blast
  from heap_alloc_correct [OF std_bit.bit_field_axioms d(2) demo_layout [OF d(3)]] d(1)
  show ?thesis by auto
qed

text \<open>C3: \<open>dealloc\<close> of a block that was handed out never panics, with any layout that the block holds:
  its size is found again, buddies are coalesced as far as possible, exactly this block becomes unused
  and the heap stays consistent.\<close>

theorem heap_dealloc_correct:
  assumes "bit_field bf" "buddy_inv bf lo s" "(k, b) \<in> used bf s"
    "lo \<le> baddr s k b" "baddr s k b + bsz s k \<le> actual_end s" "lsize l \<le> bsz s k"
  shows "\<exists>s'. heap_dealloc bf s (baddr s k b) l = Ret s' \<and> buddy_inv bf lo s' \<and> used bf s' = used bf s - {(k, b)}"
  using buddy_bits.dealloc_main [OF buddy_bitsI [OF assms(1)] assms(2,3) _ assms(6)] assms(4,5)
  unfolding heap_dealloc_def usable_def by blast

context buddy_bits
begin

lemma alloc_complete:
  assumes i: "buddy_inv bf lo s" and l: "layout_ok s l" and f: "fits s (lsize l) k" and b: "blk_in (msz s) k b"
    and d: "\<forall>x \<in> used bf s. region s x \<inter> region s (k, b) = {}"
  shows "\<exists>p s'. heap_alloc bf s l = Ret (p, s') \<and> p \<noteq> 0"
proof -
  have S: "shape lo s" "tree_inv (msz s) (abit bf s) (sbit bf s)" using i by (auto simp: buddy_inv_def rep_def)
  from l have L: "0 < lsize l" "lsize l \<le> 2 ^ 63" "lalign l \<le> max_alignment s" by (auto simp: layout_ok_def)
  from alloc_main [OF i L] obtain i where i: "fits s (lsize l) i" and
    K: "if \<forall>j. i \<le> j \<longrightarrow> j < nsizes s \<longrightarrow> free_at bf s j = {} then bs_alloc bf s l = Ret (0, s)
     else (\<exists>b s'. bs_alloc bf s l = Ret (baddr s i b, s') \<and> buddy_inv bf lo s' \<and> same_geom s' s \<and>
       (i, b) \<notin> used bf s \<and> used bf s' = insert (i, b) (used bf s) \<and> usable lo s i b)" by blast
  have "i = k" using fits_unique [OF i f] .
  moreover have "leaves j c \<inter> leaves k b = {}" if "(j, c) \<in> live (msz s) (abit bf s) (sbit bf s)" for j c
    using leaves_region [OF S(1)] d that by (auto simp: used_def)
  then obtain j where "k \<le> j" "j \<le> msz s" "free_at bf s j \<noteq> {}"
    using untouched_free [OF S(2) b] by (auto simp: free_at_def)
  ultimately have "\<not> (\<forall>j. i \<le> j \<longrightarrow> j < nsizes s \<longrightarrow> free_at bf s j = {})" using shapeD(2) [OF S(1)] by auto
  then obtain b s' where "bs_alloc bf s l = Ret (baddr s i b, s')" using K by (simp only: if_False) blast
  moreover have "baddr s i b \<noteq> 0" using shapeD(7) [OF S(1)] by (simp add: baddr_def)
  ultimately show ?thesis by (auto simp: heap_alloc_def)
qed

end

text \<open>The demo heap with one block of 128 bytes handed out.\<close>

lemma demo_free_block:
  assumes "base s = 4096" "leaf_size s = 16" "lo \<le> 4096 + 1024" "nsizes s = 9"
    "used bf s = {(0, b) |b. b < 256 \<and> \<not> (lo \<le> 4096 + b * 16 \<and> 4096 + b * 16 < 6592)}"
  shows "fits s 100 3" "blk_in (msz s) 3 8" "\<forall>x \<in> used bf s. region s x \<inter> region s (3, 8) = {}"
  using assms by (auto simp: fits_def bsz_def blk_in_def msz_def region_def baddr_def)

lemma demo_alloc:
  "\<exists>s lo p s1. buddy_inv std_bitops lo s \<and> layout_ok s \<lparr>lsize = 100, lalign = 16\<rparr> \<and>
     fits s 100 3 \<and> blk_in (msz s) 3 8 \<and> (\<forall>x \<in> used std_bitops s. region s x \<inter> region s (3, 8) = {}) \<and>
     heap_alloc std_bitops s \<lparr>lsize = 100, lalign = 16\<rparr> = Ret (p, s1) \<and> p \<noteq> 0"
proof -
  obtain s lo where d: "buddy_inv std_bitops lo s" "max_alignment s = 16" "base s = 4096" "leaf_size s = 16"
    "lo \<le> 4096 + 1024" "nsizes s = 9"
    "used std_bitops s = {(0, b) |b. b < 256 \<and> \<not> (lo \<le> 4096 + b * 16 \<and> 4096 + b * 16 < 6592)}"
    using demo_heap by blast
  note f = demo_free_block [OF d(3-7)] and l = demo_layout [OF d(2)]
  have "fits s (lsize \<lparr>lsize = 100, lalign = 16\<rparr>) 3" using f(1) by simp
  from std_buddy.alloc_complete [OF d(1) l this f(2,3)] show ?thesis using d(1) l f by blast
qed

lemma demo_used:
  "\<exists>s lo k b. buddy_inv std_bitops lo s \<and> (k, b) \<in> used std_bitops s \<and> usable lo s k b \<and> 100 \<le> bsz s k"
proof -
  obtain s lo p s1 where d: "buddy_inv std_bitops lo s" "layout_ok s \<lparr>lsize = 100, lalign = 16\<rparr>"
    "heap_alloc std_bitops s \<lparr>lsize = 100, lalign = 16\<rparr> = Ret (p, s1)" "p \<noteq> 0" using demo_alloc by blast
  from std_buddy.alloc_block [OF d(1,2)] d(3,4) obtain k b where
    B: "buddy_inv std_bitops lo s1" "same_geom s1 s" "used std_bitops s1 = insert (k, b) (used std_bitops s)"
    "usable lo s k b" "fits s 100 k" by (auto simp: heap_alloc_def)
  have "(k, b) \<in> used std_bitops s1" "usable lo s1 k b" "100 \<le> bsz s1 k"
    using B same_geomD [OF B(2)] by (simp_all add: fits_def)
  with B(1) show ?thesis by blast
qed

theorem heap_dealloc_correct_witness:
  "\<exists>s lo k b s'. (k, b) \<in> used std_bitops s \<and> 100 \<le> bsz s k \<and>
     heap_dealloc std_bitops s (baddr s k b) \<lparr>lsize = 100, lalign = 16\<rparr> = Ret s' \<and>
     buddy_inv std_bitops lo s' \<and> (k, b) \<notin> used std_bitops s'"
proof -
  obtain s lo k b where d: "buddy_inv std_bitops lo s" "(k, b) \<in> used std_bitops s" "usable lo s k b" "100 \<le> bsz s k"
    using demo_used by blast
  then have "lo \<le> baddr s k b" "baddr s k b + bsz s k \<le> actual_end s" by (auto simp: usable_def)
  from heap_dealloc_correct [OF std_bit.bit_field_axioms d(1,2) this, of "\<lparr>lsize = 100, lalign = 16\<rparr>"] d
  show ?thesis by auto
qed

text \<open>C18: No memory is lost to fragmentation of the bookkeeping: whenever some block of the needed size
  class is disjoint from all blocks in use, \<open>alloc\<close> returns a block.\<close>

theorem heap_alloc_complete:
  assumes "bit_field bf" "buddy_inv bf lo s" "layout_ok s l"
    and "fits s (lsize l) k" "blk_in (msz s) k b" "\<forall>x \<in> used bf s. region s x \<inter> region s (k, b) = {}"
  shows "\<exists>p s'. heap_alloc bf s l = Ret (p, s') \<and> p \<noteq> 0"
  by (rule buddy_bits.alloc_complete [OF buddy_bitsI [OF assms(1)] assms(2-6)])

theorem heap_alloc_complete_witness:
  "\<exists>s p s'. heap_alloc std_bitops s \<lparr>lsize = 100, lalign = 16\<rparr> = Ret (p, s') \<and> p \<noteq> 0"
proof -
  obtain s lo where d: "buddy_inv std_bitops lo s" "layout_ok s \<lparr>lsize = 100, lalign = 16\<rparr>"
    "fits s 100 3" "blk_in (msz s) 3 8" "\<forall>x \<in> used std_bitops s. region s x \<inter> region s (3, 8) = {}"
    using demo_alloc by blast
  have "fits s (lsize \<lparr>lsize = 100, lalign = 16\<rparr>) 3" using d(3) by simp
  from heap_alloc_complete [OF std_bit.bit_field_axioms d(1,2) this d(4,5)] show ?thesis by blast
qed

text \<open>C17: Allocating and freeing again restores the heap: the same blocks are used, and the free blocks of
  every size are the same sets as before, so that splitting is undone completely by coalescing.\<close>

theorem alloc_dealloc_restores:
  assumes "bit_field bf" "buddy_inv bf lo s" "layout_ok s l" "heap_alloc bf s l = Ret (p, s1)" "p \<noteq> 0"
  shows "\<exists>s2. heap_dealloc bf s1 p l = Ret s2 \<and> buddy_inv bf lo s2 \<and> used bf s2 = used bf s \<and>
    (\<forall>k. free_at bf s2 k = free_at bf s k)"
proof -
  note bb = buddy_bitsI [OF assms(1)]
  from buddy_bits.alloc_block [OF bb assms(2,3)] assms(4,5) obtain k b where
    B: "p = baddr s k b" "buddy_inv bf lo s1" "same_geom s1 s" "(k, b) \<notin> used bf s"
      "used bf s1 = insert (k, b) (used bf s)" "usable lo s k b" "fits s (lsize l) k" by (auto simp: heap_alloc_def)
  note G = same_geomD [OF B(3)]
  have "(k, b) \<in> used bf s1" "usable lo s1 k b" "lsize l \<le> bsz s1 k" using B by (simp_all add: G fits_def)
  from buddy_bits.dealloc_main [OF bb B(2) this] obtain s2 where
    D: "bs_dealloc bf s1 p l = Ret s2" "buddy_inv bf lo s2" "same_geom s2 s1" "used bf s2 = used bf s1 - {(k, b)}"
    by (auto simp: G B(1))
  have u: "used bf s2 = used bf s" using D(4) B(4,5) by simp
  have "msz s2 = msz s" using same_geomD(1) [OF D(3)] G(1) by simp
  from same_used_same_free [OF assms(2) D(2) this u] u D show ?thesis by (auto simp: heap_dealloc_def)
qed

theorem alloc_dealloc_restores_witness:
  "\<exists>s p s1 s2. p \<noteq> 0 \<and> heap_alloc std_bitops s \<lparr>lsize = 100, lalign = 16\<rparr> = Ret (p, s1) \<and>
     heap_dealloc std_bitops s1 p \<lparr>lsize = 100, lalign = 16\<rparr> = Ret s2 \<and> used std_bitops s2 = used std_bitops s"
proof -
  obtain s lo p s1 where d: "buddy_inv std_bitops lo s" "layout_ok s \<lparr>lsize = 100, lalign = 16\<rparr>"
    "heap_alloc std_bitops s \<lparr>lsize = 100, lalign = 16\<rparr> = Ret (p, s1)" "p \<noteq> 0" using demo_alloc by blast
  from alloc_dealloc_restores [OF std_bit.bit_field_axioms d] d show ?thesis by blast
qed

text \<open>C15: \<open>init\<close> succeeds on every uninitialised system and every range of more than 64 leaves that is
  not an exact power of two of leaves: the heap is consistent, the metadata takes at most a quarter of
  the managed power of two, and exactly the leaves of the metadata and past the end are in use, so that
  everything between is free.\<close>

theorem bs_init_correct:
  assumes "bit_field bf" "\<not> initialized s" "good_range start fin leaf align"
  shows "\<exists>s' lo. bs_init bf s start fin leaf align = Ret (s', Inr ()) \<and> initialized s' \<and> buddy_inv bf lo s' \<and>
    base s' = heap_base start (max leaf align) \<and> actual_end s' = heap_end fin (max leaf align) \<and>
    4 * (lo - base s') \<le> bsz s' (msz s') \<and>
    used bf s' = {(0, b) |b. b < 2 ^ msz s' \<and> \<not> (lo \<le> baddr s' 0 b \<and> baddr s' 0 b < actual_end s')}"
proof -
  define N where "N = Suc (log2 (range_leaves start fin leaf align))"
  from buddy_bits.init_main [OF buddy_bitsI [OF assms(1)] assms(2,3)] obtain s' lo where
    I: "bs_init bf s start fin leaf align = Ret (s', Inr ())" "initialized s'" "buddy_inv bf lo s'"
      "base s' = heap_base start (max leaf align)" "actual_end s' = heap_end fin (max leaf align)"
      "leaf_size s' = leaf" "nsizes s' = Suc N" "lo \<le> base s' + 2 ^ (N - 2) * leaf"
      "used bf s' = {(0, b) |b. b < 2 ^ N \<and> \<not> (lo \<le> base s' + b * leaf \<and> base s' + b * leaf < actual_end s')}"
    unfolding N_def by auto
  have "2 \<le> N" using good_range_facts(5) [OF assms(3)] by (simp add: N_def)
  then have "(2::nat) ^ N = 4 * 2 ^ (N - 2)" by (rule pow2_quarter)
  then have "4 * (lo - base s') \<le> 2 ^ N * leaf" using I(8) by simp
  then show ?thesis using I by (auto simp: msz_def bsz_def baddr_def)
qed

theorem bs_init_correct_witness:
  "\<exists>s'. bs_init std_bitops (bs_uninit demo_mem) 4096 6596 16 16 = Ret (s', Inr ()) \<and> base s' = 4096"
proof -
  have "\<not> initialized (bs_uninit demo_mem)" by (simp add: bs_uninit_def)
  from bs_init_correct [OF std_bit.bit_field_axioms this demo_range] show ?thesis by (auto simp: demo_leaves)
qed

text \<open>\<open>kinit\<close> on a kernel image of at most 64 MiB; whole pages can be allocated from its heap.\<close>

lemma kinit_heap:
  assumes "bit_field bf" "KERNEL_BASE < kernel_end" "kernel_end \<le> KERNEL_BASE + 64 * 1024 * 1024 - PGSIZE"
  shows "\<exists>s lo. kinit bf (bs_uninit m) kernel_end = Ret s \<and> initialized s \<and> page_inv bf lo s \<and>
    kernel_end \<le> base s \<and> base s < lo \<and> actual_end s = PHYSTOP \<and> leaf_size s = 16 \<and> nsizes s = 24 \<and>
    base s < KERNEL_BASE + 64 * 1024 * 1024 \<and> lo \<le> base s + 2 ^ 21 * 16 \<and>
    used bf s = {(0, b) |b. b < 2 ^ 23 \<and> \<not> (lo \<le> base s + b * 16 \<and> base s + b * 16 < PHYSTOP)}"
proof -
  define B where "B = heap_base kernel_end 4096"
  have mx: "max LEAF_SIZE MAX_ALIGNMENT = 4096" by (simp add: LEAF_SIZE_def MAX_ALIGNMENT_def)
  have A: "heap_end PHYSTOP 4096 = PHYSTOP" by (simp add: heap_end_def layout_defs)
  have kb: "kernel_end \<le> B" "B < kernel_end + 4096"
    using heap_base_bounds [of kernel_end 4096] assms(2) by (auto simp: B_def)
  have dv: "B mod 4096 = 0" by (simp add: B_def heap_base_def)
  have b: "KERNEL_BASE < B" "B < KERNEL_BASE + 64 * 1024 * 1024" using kb assms(2,3) by (auto simp: PGSIZE_def KERNEL_BASE_def)
  obtain q where q: "B = 4096 * q" using dv by (auto simp: mod_eq_0_iff_dvd)
  have "PHYSTOP - B = 16 * (142606336 - 256 * q)" by (simp add: q layout_defs diff_mult_distrib2)
  then have d16: "(PHYSTOP - B) div 16 = 142606336 - 256 * q" by simp
  have e1: "2 ^ 22 < (PHYSTOP - B) div 16" using b unfolding d16 q by (simp add: layout_defs)
  have e2: "(PHYSTOP - B) div 16 < 2 ^ 23" using b unfolding d16 q by (simp add: layout_defs)
  have np: "\<not> is_power_of_two ((PHYSTOP - B) div 16)"
  proof
    assume "is_power_of_two ((PHYSTOP - B) div 16)"
    then obtain a where a: "(PHYSTOP - B) div 16 = 2 ^ a" by (auto simp: is_power_of_two_iff)
    have "22 < a" using e1 unfolding a by (rule power_less_imp_less_exp [rotated]) simp
    moreover have "a < 23" using e2 unfolding a by (rule power_less_imp_less_exp [rotated]) simp
    ultimately show False by simp
  qed
  have "is_power_of_two LEAF_SIZE" "is_power_of_two MAX_ALIGNMENT"
    unfolding is_power_of_two_iff LEAF_SIZE_def MAX_ALIGNMENT_def
    by (rule exI [of _ 4], simp) (rule exI [of _ 12], simp)
  note pow = this
  then have good: "good_range kernel_end PHYSTOP LEAF_SIZE MAX_ALIGNMENT"
    unfolding good_range_def mx A using np b assms(2) by (simp add: B_def layout_defs LEAF_SIZE_def)
  have "\<not> initialized (bs_uninit m)" by (simp add: bs_uninit_def)
  note M = buddy_bits.init_main [OF buddy_bitsI [OF assms(1)] this good, unfolded mx A, folded B_def]
  have E: "range_leaves kernel_end PHYSTOP LEAF_SIZE MAX_ALIGNMENT = (PHYSTOP - B) div 16"
    unfolding range_leaves_def mx A by (simp add: B_def LEAF_SIZE_def)
  have N: "log2 ((PHYSTOP - B) div 16) = 22"
  proof -
    let ?x = "(PHYSTOP - B) div 16"
    have g: "2 ^ log2 ?x \<le> ?x" "?x < 2 ^ Suc (log2 ?x)" using log2_bounds [of ?x] e1 by auto
    have "(2 :: nat) ^ 22 < 2 ^ Suc (log2 ?x)" by (rule less_trans [OF e1 g(2)])
    from power_less_imp_less_exp [OF _ this] have "22 < Suc (log2 ?x)" by simp
    moreover have "(2 :: nat) ^ log2 ?x < 2 ^ 23" by (rule le_less_trans [OF g(1) e2])
    from power_less_imp_less_exp [OF _ this] have "log2 ?x < 23" by simp
    ultimately show ?thesis by simp
  qed
  have num: "Suc 22 = (23 :: nat)" "Suc 23 = (24 :: nat)" "23 - 2 = (21 :: nat)" by simp_all
  from M obtain s lo where
    s: "bs_init bf (bs_uninit m) kernel_end PHYSTOP 16 MAX_ALIGNMENT = Ret (s, Inr ())" "initialized s"
      "buddy_inv bf lo s" "base s = B" "actual_end s = PHYSTOP" "max_alignment s = MAX_ALIGNMENT"
      "leaf_size s = 16" "nsizes s = 24" "lo \<le> B + 2 ^ 21 * 16"
      "used bf s = {(0, b) |b. b < 2 ^ 23 \<and> \<not> (lo \<le> B + b * 16 \<and> B + b * 16 < PHYSTOP)}"
    unfolding E N num unfolding LEAF_SIZE_def by blast
  have "layout_ok s page_layout"
    using pow(2) s(6) by (simp add: layout_ok_def page_layout_def PGSIZE_def MAX_ALIGNMENT_def)
  moreover have "base s < lo" using s(3) by (simp add: buddy_inv_def rep_def shape_def)
  moreover have "kinit bf (bs_uninit m) kernel_end = Ret s"
    using s(1) by (simp add: kinit_def heap_init_def LEAF_SIZE_def)
  ultimately show ?thesis
    using s(2-) kb(1) b(2) unfolding page_inv_def s(4) by (intro exI [of _ s] exI [of _ lo]) (simp add: s(4))
qed

text \<open>C19: \<open>kinit\<close> sets up the kernel heap for every kernel image that ends in the first 64 MiB of RAM
  (less one page): the heap is consistent and runs to \<open>PHYSTOP\<close>.\<close>

theorem kinit_correct:
  assumes "bit_field bf" "KERNEL_BASE < kernel_end" "kernel_end \<le> KERNEL_BASE + 64 * 1024 * 1024 - PGSIZE"
  shows "\<exists>s lo. kinit bf (bs_uninit m) kernel_end = Ret s \<and> initialized s \<and> buddy_inv bf lo s \<and>
    kernel_end \<le> base s \<and> actual_end s = PHYSTOP"
  using kinit_heap [OF assms, of m] unfolding page_inv_def by blast

theorem kinit_correct_witness:
  "\<exists>s. kinit std_bitops (bs_uninit demo_mem) 0x80200000 = Ret s \<and> actual_end s = PHYSTOP"
  using kinit_correct [OF std_bit.bit_field_axioms, of "0x80200000" demo_mem]
  by (auto simp: KERNEL_BASE_def PGSIZE_def)



end
