(* ===== verification/Pte.thy ===== *)
theory Pte
  imports Params
begin

unbundle bit_operations_syntax

text \<open>
  Addresses (\<open>kernel/src/memory/address.rs\<close>, \<open>mapping/mod.rs\<close>) and page table entries
  (\<open>mapping/page_table_entry.rs\<close>). An address is a \<open>usize\<close>, a natural number with checked arithmetic;
  an entry is a 64-bit word with the flags in its low ten bits and the page number above them.
\<close>

type_synonym pte = "64 word"

definition pg_round_down :: "nat \<Rightarrow> nat" where
  "pg_round_down a = unat ((of_nat a :: 64 word) AND NOT (of_nat PGSIZE - 1))"

definition pg_round_up :: "nat \<Rightarrow> nat outcome" where
  "pg_round_up a = bnd (uadd a PGSIZE) (\<lambda>b. bnd (usub b 1) (\<lambda>c. Ret (pg_round_down c)))"

definition is_page_aligned :: "nat \<Rightarrow> bool" where
  "is_page_aligned a \<longleftrightarrow> a mod PGSIZE = 0"

definition add_page :: "nat \<Rightarrow> nat outcome" where
  "add_page a = uadd a PGSIZE"

definition page_num :: "nat \<Rightarrow> nat \<Rightarrow> nat" where
  "page_num va level = unat (drop_bit (PGSHIFT + level * PGMASKLEN) (of_nat va :: 64 word) AND of_nat PGMASK)"

definition PTE_V :: pte where "PTE_V = push_bit 0 1"

definition PTE_R :: pte where "PTE_R = push_bit 1 1"

definition PTE_W :: pte where "PTE_W = push_bit 2 1"

definition PTE_X :: pte where "PTE_X = push_bit 3 1"

definition PTE_U :: pte where "PTE_U = push_bit 4 1"

definition is_valid :: "pte \<Rightarrow> bool" where
  "is_valid p \<longleftrightarrow> p AND PTE_V > 0"

text \<open>As in the source, \<open>is_user\<close> tests the valid bit.\<close>

definition is_user :: "pte \<Rightarrow> bool" where
  "is_user p \<longleftrightarrow> p AND PTE_V > 0"

definition is_read :: "pte \<Rightarrow> bool" where
  "is_read p \<longleftrightarrow> p AND PTE_R > 0"

definition is_write :: "pte \<Rightarrow> bool" where
  "is_write p \<longleftrightarrow> p AND PTE_W > 0"

definition is_execute :: "pte \<Rightarrow> bool" where
  "is_execute p \<longleftrightarrow> p AND PTE_X > 0"

definition is_leaf :: "pte \<Rightarrow> bool" where
  "is_leaf p \<longleftrightarrow> \<not> (p AND (PTE_R OR PTE_W OR PTE_X) = 0)"

definition add_valid_bit :: "pte \<Rightarrow> pte" where
  "add_valid_bit p = p OR PTE_V"

definition add_user_bit :: "pte \<Rightarrow> pte" where
  "add_user_bit p = p OR PTE_U"

definition rm_user_bit :: "pte \<Rightarrow> pte" where
  "rm_user_bit p = p AND NOT PTE_U"

definition as_pagetable :: "pte \<Rightarrow> nat" where
  "as_pagetable p = unat (push_bit 12 (drop_bit 10 p))"

definition as_pte :: "nat \<Rightarrow> pte" where
  "as_pte addr = push_bit 10 (drop_bit 12 (of_nat addr))"

definition as_flags :: "pte \<Rightarrow> 64 word" where
  "as_flags p = p AND 0x3FF"

definition write_perm :: "nat \<Rightarrow> 64 word \<Rightarrow> pte" where
  "write_perm pa perm = push_bit 10 (drop_bit 12 (of_nat pa)) OR (perm OR PTE_V)"

text \<open>Single bits of the flags.\<close>

lemma flag_bit: "bit (push_bit k (1 :: 'a::len word)) n \<longleftrightarrow> k < LENGTH('a) \<and> n = k"
  unfolding bit_push_bit_iff bit_1_iff by auto

lemma flag_bits [simp]:
  "bit PTE_V n \<longleftrightarrow> n = 0" "bit PTE_R n \<longleftrightarrow> n = 1" "bit PTE_W n \<longleftrightarrow> n = 2"
  "bit PTE_X n \<longleftrightarrow> n = 3" "bit PTE_U n \<longleftrightarrow> n = 4"
  unfolding PTE_V_def PTE_R_def PTE_W_def PTE_X_def PTE_U_def flag_bit by auto

lemma and_flag_pos: "0 < p AND push_bit k (1 :: 'a::len word) \<longleftrightarrow> k < LENGTH('a) \<and> bit p k"
proof -
  have "p AND push_bit k 1 = 0 \<longleftrightarrow> \<not> (k < LENGTH('a) \<and> bit p k)"
    unfolding bit_eq_iff [of _ "0 :: 'a word"] bit_and_iff flag_bit by auto
  then show ?thesis by (simp add: word_neq_0_conv [symmetric])
qed

lemma flag_tests:
  "is_valid p \<longleftrightarrow> bit p 0" "is_user p \<longleftrightarrow> bit p 0" "is_read p \<longleftrightarrow> bit p 1"
  "is_write p \<longleftrightarrow> bit p 2" "is_execute p \<longleftrightarrow> bit p 3"
  unfolding is_valid_def is_user_def is_read_def is_write_def is_execute_def
    PTE_V_def PTE_R_def PTE_W_def PTE_X_def and_flag_pos by simp_all

lemma is_leaf_bits: "is_leaf p \<longleftrightarrow> bit p 1 \<or> bit p 2 \<or> bit p 3"
  unfolding is_leaf_def bit_eq_iff [of _ "0 :: 64 word"] bit_and_iff bit_or_iff flag_bits
  by (auto simp: conj_disj_distribL ex_disj_distrib)

lemma valid_zero [simp]: "\<not> is_valid 0"
  by (simp add: flag_tests)

text \<open>Low bits of an aligned address, and low bits of small words.\<close>

lemma aligned_bits:
  assumes "is_page_aligned a" "n < 12" shows "\<not> bit (of_nat a :: 64 word) n"
proof -
  obtain q where "a = q * 2 ^ 12" using assms(1) by (auto simp: is_page_aligned_def PGSIZE_def)
  then have "(of_nat a :: 64 word) = push_bit 12 (of_nat q)" by (simp add: push_bit_eq_mult)
  then show ?thesis using assms(2) by (simp add: bit_push_bit_iff)
qed

lemma unat_usize: "a < usize_lim \<Longrightarrow> unat (of_nat a :: 64 word) = a"
  by (simp add: usize_lim_def unat_of_nat)

lemma small_bits:
  assumes "(w :: 64 word) < 2 ^ k" "k \<le> n" shows "\<not> bit w n"
proof -
  have "unat w < 2 ^ n"
  proof (cases "n < 64")
    case True
    have "(2 :: 64 word) ^ k = of_nat (2 ^ k)" by simp
    moreover have "(2::nat) ^ k < usize_lim"
      unfolding usize_lim_def using assms(2) True by (intro power_strict_increasing) auto
    ultimately have "unat ((2 :: 64 word) ^ k) = 2 ^ k" by (simp only: unat_usize)
    then have "unat w < 2 ^ k" using assms(1) by (simp add: word_less_nat_alt)
    also have "\<dots> \<le> 2 ^ n" using assms(2) by (rule power_increasing) simp
    finally show ?thesis .
  next
    case False
    then have "(2::nat) ^ 64 \<le> 2 ^ n" by (intro power_increasing) auto
    then show ?thesis using unsigned_less [where ?'a = nat, of w] by simp
  qed
  then have "\<not> bit (unat w) n" by (simp add: bit_iff_odd)
  then show ?thesis by (auto simp: bit_unsigned_iff dest: bit_imp_le_length)
qed

text \<open>Masking is rounding.\<close>

lemma unat_shift: "a < usize_lim \<Longrightarrow> unat (drop_bit n (of_nat a :: 64 word)) = a div 2 ^ n"
  unfolding unat_drop_bit_eq by (simp only: unat_usize drop_bit_eq_div)

lemma pg_round_down_eq: "a < usize_lim \<Longrightarrow> pg_round_down a = a div PGSIZE * PGSIZE"
proof -
  assume a: "a < usize_lim"
  have m: "NOT (of_nat PGSIZE - 1) = (push_bit 12 (mask 52) :: 64 word)"
    by (simp add: PGSIZE_def mask_eq_exp_minus_1 push_bit_eq_mult)
  have "(of_nat a AND NOT (of_nat PGSIZE - 1) :: 64 word) = push_bit 12 (drop_bit 12 (of_nat a))"
    unfolding m by (rule bit_word_eqI) (auto simp: bit_and_iff bit_push_bit_iff bit_drop_bit_eq bit_mask_iff)
  also have "unat \<dots> = a div 4096 * 4096"
  proof -
    have "unat (drop_bit 12 (of_nat a :: 64 word)) = a div 4096"
      using unat_shift [OF a, of 12] by simp
    moreover have "a div 4096 * 4096 < 2 ^ 64" using a by (simp add: usize_lim_def)
    ultimately show ?thesis
      by (simp add: push_bit_eq_mult unat_word_ariths mult.commute)
  qed
  finally show ?thesis by (simp add: pg_round_down_def PGSIZE_def)
qed

lemma page_num_eq: "a < usize_lim \<Longrightarrow> page_num a l = a div 2 ^ (12 + 9 * l) mod 512"
proof -
  assume a: "a < usize_lim"
  have m: "(w :: 64 word) AND 0x1FF = take_bit 9 w" for w
    by (simp add: take_bit_eq_mask mask_eq_exp_minus_1)
  have "page_num a l = unat (take_bit 9 (drop_bit (12 + 9 * l) (of_nat a :: 64 word)))"
    by (simp add: page_num_def PGSHIFT_def PGMASKLEN_def PGMASK_def m mult.commute)
  also have "\<dots> = a div 2 ^ (12 + 9 * l) mod 2 ^ 9"
    unfolding unsigned_take_bit_eq unat_shift [OF a] by (rule take_bit_eq_mod)
  finally show ?thesis by simp
qed

text \<open>What \<open>write_perm\<close> stores is read back by the accessors.\<close>

lemma write_perm_bits:
  assumes "is_page_aligned pa" "perm < 0x400"
  shows "bit (write_perm pa perm) n \<longleftrightarrow>
    n < 64 \<and> (if n < 10 then bit (perm OR PTE_V) n else n + 2 < 64 \<and> bit (of_nat pa :: 64 word) (n + 2))"
proof (cases "n < 10")
  case True
  then show ?thesis by (simp add: write_perm_def bit_or_iff bit_push_bit_iff)
next
  case False
  have "\<not> bit perm n" using small_bits [of perm 10 n] assms(2) False by simp
  then show ?thesis
    using False by (auto simp: write_perm_def bit_or_iff bit_push_bit_iff bit_drop_bit_eq dest: bit_imp_le_length)
qed

lemma as_pagetable_write_perm:
  assumes "is_page_aligned pa" "perm < 0x400" "pa < usize_lim"
  shows "as_pagetable (write_perm pa perm) = pa"
proof -
  have "push_bit 12 (drop_bit 10 (write_perm pa perm)) = (of_nat pa :: 64 word)"
  proof (rule bit_word_eqI)
    fix n assume "n < LENGTH(64)"
    moreover have "Suc (Suc (n - 2)) = n" if "\<not> n < 12" using that by simp
    ultimately show "bit (push_bit 12 (drop_bit 10 (write_perm pa perm))) n = bit (of_nat pa :: 64 word) n"
      using aligned_bits [OF assms(1), of n]
      by (cases "n < 12") (auto simp: bit_push_bit_iff bit_drop_bit_eq write_perm_bits [OF assms(1,2)])
  qed
  then show ?thesis by (simp add: as_pagetable_def unat_usize [OF assms(3)])
qed

lemma as_flags_write_perm:
  assumes "is_page_aligned pa" "perm < 0x400"
  shows "as_flags (write_perm pa perm) = perm OR PTE_V"
proof (rule bit_word_eqI)
  fix n assume n: "n < LENGTH(64)"
  have m: "bit (0x3FF :: 64 word) n \<longleftrightarrow> n < 10"
  proof -
    have e: "(0x3FF :: 64 word) = mask 10" by (simp add: mask_eq_exp_minus_1)
    show ?thesis unfolding e bit_mask_iff using n by simp
  qed
  have "\<not> bit perm n" if "\<not> n < 10" using small_bits [of perm 10 n] assms(2) that by simp
  then show "bit (as_flags (write_perm pa perm)) n = bit (perm OR PTE_V) n"
    unfolding as_flags_def bit_and_iff m write_perm_bits [OF assms] using n by (auto simp: bit_or_iff)
qed

lemma is_valid_write_perm: "is_page_aligned pa \<Longrightarrow> perm < 0x400 \<Longrightarrow> is_valid (write_perm pa perm)"
  by (simp add: flag_tests write_perm_bits bit_or_iff)

lemma as_pte_write: "is_page_aligned pa \<Longrightarrow> as_pte pa OR PTE_V = write_perm pa 0"
  by (simp add: as_pte_def write_perm_def)

lemma write_perm_flags:
  assumes "is_page_aligned pa" "perm < 0x400" "0 < n" "n < 10"
  shows "bit (write_perm pa perm) n = bit perm n"
  using assms by (simp add: write_perm_bits bit_or_iff)

end
