(* ===== verification/PageTable.thy ===== *)
theory PageTable
  imports KernelHeap Pte
begin

text \<open>
  Sv39 page tables in physical memory (\<open>kernel/src/memory/mapping/page_table.rs\<close>) and
  \<open>PageAllocator::new_zeroed\<close> (\<open>kernel/src/memory/mod.rs\<close>). Physical memory is an array of 64-bit
  cells, a byte is a part of its cell; pages come from the kernel heap. A reference to an entry is
  its physical address and a page table is the address of its page. \<open>drop_in_place\<close> of a page table
  does nothing in the source, since its type has no destructor.
\<close>

record vm =
  ram :: "nat \<Rightarrow> 64 word"
  heap :: buddy_system

definition read64 :: "(nat \<Rightarrow> 64 word) \<Rightarrow> nat \<Rightarrow> 64 word" where
  "read64 m a = m (a div 8)"

definition write64 :: "(nat \<Rightarrow> 64 word) \<Rightarrow> nat \<Rightarrow> 64 word \<Rightarrow> (nat \<Rightarrow> 64 word)" where
  "write64 m a v = m(a div 8 := v)"

definition read8 :: "(nat \<Rightarrow> 64 word) \<Rightarrow> nat \<Rightarrow> 8 word" where
  "read8 m a = ucast (drop_bit (8 * (a mod 8)) (m (a div 8)))"

definition write8 :: "(nat \<Rightarrow> 64 word) \<Rightarrow> nat \<Rightarrow> 8 word \<Rightarrow> (nat \<Rightarrow> 64 word)" where
  "write8 m a v = m(a div 8 :=
     (m (a div 8) AND NOT (push_bit (8 * (a mod 8)) 0xFF)) OR push_bit (8 * (a mod 8)) (ucast v))"

fun write_bytes :: "(nat \<Rightarrow> 64 word) \<Rightarrow> nat \<Rightarrow> 8 word list \<Rightarrow> (nat \<Rightarrow> 64 word)" where
  "write_bytes m a [] = m"
| "write_bytes m a (v # vs) = write_bytes (write8 m a v) (a + 1) vs"

definition read_bytes :: "(nat \<Rightarrow> 64 word) \<Rightarrow> nat \<Rightarrow> nat \<Rightarrow> 8 word list" where
  "read_bytes m a n = map (\<lambda>i. read8 m (a + i)) [0..<n]"

text \<open>\<open>core::ptr::copy\<close> moves bytes that may overlap; \<open>mem_copy\<close> is the byte loop of \<open>misc.rs\<close>.\<close>

definition ptr_copy :: "(nat \<Rightarrow> 64 word) \<Rightarrow> nat \<Rightarrow> nat \<Rightarrow> nat \<Rightarrow> (nat \<Rightarrow> 64 word)" where
  "ptr_copy m src dst n = write_bytes m dst (read_bytes m src n)"

primrec mem_copy :: "(nat \<Rightarrow> 64 word) \<Rightarrow> nat \<Rightarrow> nat \<Rightarrow> nat \<Rightarrow> (nat \<Rightarrow> 64 word)" where
  "mem_copy m dst src 0 = m"
| "mem_copy m dst src (Suc n) =
     (let m' = mem_copy m dst src n in write8 m' (dst + n) (read8 m' (src + n)))"

definition zero_page :: "(nat \<Rightarrow> 64 word) \<Rightarrow> nat \<Rightarrow> (nat \<Rightarrow> 64 word)" where
  "zero_page m p = (\<lambda>i. if p div 8 \<le> i \<and> i < p div 8 + PGSIZE div 8 then 0 else m i)"

definition new_zeroed :: "8 word bitops \<Rightarrow> vm \<Rightarrow> (nat \<times> vm) outcome" where
  "new_zeroed bf st = bnd (box_alloc bf (heap st) page_layout) (\<lambda>(p, h).
     Ret (p, st\<lparr>ram := zero_page (ram st) p, heap := h\<rparr>))"

definition pte_at :: "(nat \<Rightarrow> 64 word) \<Rightarrow> nat \<Rightarrow> nat \<Rightarrow> pte" where
  "pte_at m pt i = read64 m (pt + 8 * i)"

definition translate :: "(nat \<Rightarrow> 64 word) \<Rightarrow> nat \<Rightarrow> nat \<Rightarrow> nat option" where
  "translate m root va =
     (if va > MAXVA then None
      else let p2 = pte_at m root (page_num va 2) in
        if is_valid p2
        then let p1 = pte_at m (as_pagetable p2) (page_num va 1) in
          if is_valid p1 then Some (as_pagetable p1 + 8 * page_num va 0) else None
        else None)"

definition as_satp :: "nat \<Rightarrow> 64 word" where
  "as_satp pt = push_bit 60 8 OR drop_bit PGSHIFT (of_nat pt)"

text \<open>\<open>clear\<close> writes zero to every entry, \<open>write\<close> copies the entries of another table.\<close>

definition pgt_clear :: "(nat \<Rightarrow> 64 word) \<Rightarrow> nat \<Rightarrow> (nat \<Rightarrow> 64 word)" where
  "pgt_clear m pt = fold (\<lambda>i m. write64 m (pt + 8 * i) 0) [0..<PGSIZE div 8] m"

definition pgt_write :: "(nat \<Rightarrow> 64 word) \<Rightarrow> nat \<Rightarrow> nat \<Rightarrow> (nat \<Rightarrow> 64 word)" where
  "pgt_write m pt other = fold (\<lambda>i m. write64 m (pt + 8 * i) (pte_at m other i)) [0..<512] m"

text \<open>
  \<open>free\<close> recurses into the tables below; \<open>d\<close> bounds the depth of the recursion, which is three on
  a well-formed table. The second argument counts the entries that remain.
\<close>

fun pgt_free :: "nat \<Rightarrow> nat \<Rightarrow> (nat \<Rightarrow> 64 word) \<Rightarrow> nat \<Rightarrow> (nat \<Rightarrow> 64 word) outcome" where
  "pgt_free d 0 m pt = Ret m"
| "pgt_free d (Suc n) m pt =
     (let i = 511 - n; p = pte_at m pt i in
      if is_valid p \<and> \<not> is_leaf p
      then (case d of
              0 \<Rightarrow> Panic ''stack overflow''
            | Suc d' \<Rightarrow> bnd (pgt_free d' 512 m (as_pagetable p)) (\<lambda>m'.
                pgt_free d n (write64 m' (pt + 8 * i) 0) pt))
      else if is_valid p then Panic ''pagetable free(): leaf not be removed''
      else pgt_free d n m pt)"

text \<open>One level of \<open>translate_or_alloc\<close>: follow the entry, or link a new zeroed table.\<close>

definition walk_alloc :: "8 word bitops \<Rightarrow> vm \<Rightarrow> nat \<Rightarrow> nat \<Rightarrow> (nat \<times> vm) outcome" where
  "walk_alloc bf st pt i =
     (let p = pte_at (ram st) pt i in
      if is_valid p then Ret (as_pagetable p, st)
      else bnd (new_zeroed bf st) (\<lambda>(np, st').
        Ret (np, st'\<lparr>ram := write64 (ram st') (pt + 8 * i) (as_pte np OR PTE_V)\<rparr>)))"

definition translate_or_alloc :: "8 word bitops \<Rightarrow> vm \<Rightarrow> nat \<Rightarrow> nat \<Rightarrow> (nat \<times> vm) outcome" where
  "translate_or_alloc bf st root va =
     (if va > MAXVA then Panic ''walk''
      else bnd (walk_alloc bf st root (page_num va 2)) (\<lambda>(p1, st1).
        bnd (walk_alloc bf st1 p1 (page_num va 1)) (\<lambda>(p0, st2).
        Ret (p0 + 8 * page_num va 0, st2))))"

definition pgt_translate :: "(nat \<Rightarrow> 64 word) \<Rightarrow> nat \<Rightarrow> nat \<Rightarrow> nat option" where
  "pgt_translate m root va =
     (if va > MAXVA then None
      else case translate m root va of
        None \<Rightarrow> None
      | Some a \<Rightarrow> (let p = read64 m a in
          if \<not> is_valid p then None else if \<not> is_user p then None else Some (as_pagetable p)))"

text \<open>
  \<open>map\<close>: the loop runs until \<open>va\<close> reaches \<open>last\<close>; both are multiples of the page size and \<open>va\<close> is not
  above \<open>last\<close>, so \<open>n\<close>, the number of pages between them, counts the iterations.
\<close>

primrec map_loop :: "8 word bitops \<Rightarrow> nat \<Rightarrow> 64 word \<Rightarrow> nat \<Rightarrow> vm \<Rightarrow> nat \<Rightarrow> nat \<Rightarrow> (bool \<times> vm) outcome" where
  "map_loop bf root perm 0 st va pa = Ret (True, st)"
| "map_loop bf root perm (Suc n) st va pa =
     bnd (translate_or_alloc bf st root va) (\<lambda>(a, st1).
     if is_valid (read64 (ram st1) a) then Panic ''remap''
     else let st2 = st1\<lparr>ram := write64 (ram st1) a (write_perm pa perm)\<rparr> in
       bnd (add_page va) (\<lambda>va'. bnd (add_page pa) (\<lambda>pa'. map_loop bf root perm n st2 va' pa')))"

definition pgt_map :: "8 word bitops \<Rightarrow> vm \<Rightarrow> nat \<Rightarrow> nat \<Rightarrow> nat \<Rightarrow> nat \<Rightarrow> 64 word \<Rightarrow> (bool \<times> vm) outcome" where
  "pgt_map bf st root va pa sz perm =
     bnd (uadd va sz) (\<lambda>e. bnd (pg_round_up e) (\<lambda>last.
     let va0 = pg_round_down va in map_loop bf root perm ((last - va0) div PGSIZE) st va0 pa))"

definition kernel_map :: "8 word bitops \<Rightarrow> vm \<Rightarrow> nat \<Rightarrow> nat \<Rightarrow> nat \<Rightarrow> nat \<Rightarrow> 64 word \<Rightarrow> vm outcome" where
  "kernel_map bf st root va pa sz perm = bnd (pgt_map bf st root va pa sz perm) (\<lambda>(ok, st').
     if \<not> ok then Panic ''Core virtual address mapping failure'' else Ret st')"

definition uvmcreate :: "8 word bitops \<Rightarrow> vm \<Rightarrow> (nat \<times> vm) outcome" where
  "uvmcreate bf st = new_zeroed bf st"

definition urwx :: "64 word" where
  "urwx = PTE_W OR PTE_R OR PTE_X OR PTE_U"

definition uvm_init :: "8 word bitops \<Rightarrow> vm \<Rightarrow> nat \<Rightarrow> 8 word list \<Rightarrow> vm outcome" where
  "uvm_init bf st root src =
     (if length src \<ge> PGSIZE then Panic ''inituvm: more than a page''
      else bnd (new_zeroed bf st) (\<lambda>(page, st1).
        let st2 = st1\<lparr>ram := zero_page (ram st1) page\<rparr> in
        bnd (pgt_map bf st2 root 0 page PGSIZE urwx) (\<lambda>(ok, st3).
        Ret (st3\<lparr>ram := write_bytes (ram st3) page src\<rparr>))))"

text \<open>\<open>uvm_unmap\<close> checks that the pages are mapped leaves; it changes neither the table nor the heap.\<close>

primrec uvm_unmap_loop :: "(nat \<Rightarrow> 64 word) \<Rightarrow> nat \<Rightarrow> nat \<Rightarrow> nat \<Rightarrow> unit outcome" where
  "uvm_unmap_loop m root 0 va = Ret ()"
| "uvm_unmap_loop m root (Suc n) va =
     (case translate m root va of
        None \<Rightarrow> Panic ''uvm_unmap''
      | Some a \<Rightarrow>
          if \<not> is_valid (read64 m a) then Panic ''uvm_unmap: not mapped''
          else if as_flags (read64 m a) = PTE_V then Panic ''uvm_unmap: not a leaf''
          else bnd (add_page va) (uvm_unmap_loop m root n))"

definition uvm_unmap :: "vm \<Rightarrow> nat \<Rightarrow> nat \<Rightarrow> nat \<Rightarrow> bool \<Rightarrow> vm outcome" where
  "uvm_unmap st root va npages free =
     (if \<not> is_page_aligned va then Panic ''uvm_unmap: not aligned''
      else bnd (uvm_unmap_loop (ram st) root npages va) (\<lambda>_. Ret st))"

definition uvm_dealloc :: "vm \<Rightarrow> nat \<Rightarrow> nat \<Rightarrow> nat \<Rightarrow> (nat \<times> vm) outcome" where
  "uvm_dealloc st root old_size new_size =
     (if new_size \<ge> old_size then Ret (old_size, st)
      else bnd (pg_round_up new_size) (\<lambda>n. bnd (pg_round_up old_size) (\<lambda>u.
        if n < u then bnd (uvm_unmap st root n ((u - n) div PGSIZE) True) (\<lambda>st'. Ret (new_size, st'))
        else Ret (new_size, st))))"

function uvm_alloc_loop ::
  "8 word bitops \<Rightarrow> vm \<Rightarrow> nat \<Rightarrow> nat \<Rightarrow> nat \<Rightarrow> nat \<Rightarrow> (nat option \<times> vm) outcome" where
  "uvm_alloc_loop bf st root old_size cur new_size =
     (if cur < new_size
      then bnd (new_zeroed bf st) (\<lambda>(page, st1).
        let st2 = st1\<lparr>ram := zero_page (ram st1) page\<rparr> in
        bnd (pgt_map bf st2 root cur page PGSIZE urwx) (\<lambda>(ok, st3).
        if \<not> ok then bnd (uvm_dealloc st3 root cur old_size) (\<lambda>(_, st4). Ret (None, st4))
        else uvm_alloc_loop bf st3 root old_size (cur + PGSIZE) new_size))
      else Ret (Some new_size, st))"
  by pat_completeness auto
termination
  by (relation "measure (\<lambda>(bf, st, root, old_size, cur, new_size). new_size - cur)") (auto simp: PGSIZE_def)

definition uvm_alloc :: "8 word bitops \<Rightarrow> vm \<Rightarrow> nat \<Rightarrow> nat \<Rightarrow> nat \<Rightarrow> (nat option \<times> vm) outcome" where
  "uvm_alloc bf st root old_size new_size =
     (if new_size < old_size then Ret (Some old_size, st)
      else bnd (pg_round_up old_size) (\<lambda>o'. uvm_alloc_loop bf st root o' o' new_size))"

text \<open>
  \<open>uvm_copy\<close>: the loop runs until \<open>va\<close> equals the size. Beyond \<open>MAXVA\<close> there is no entry and the
  routine panics, so it ends also for a size that is not a multiple of the page size.
\<close>

function uvm_copy_loop :: "8 word bitops \<Rightarrow> vm \<Rightarrow> nat \<Rightarrow> nat \<Rightarrow> nat \<Rightarrow> nat \<Rightarrow> ((string + unit) \<times> vm) outcome" where
  "uvm_copy_loop bf st root child sz va =
     (if va = sz then Ret (Inr (), st)
      else if va > MAXVA then Panic ''uvmcopy: No exist pte(pte should exist)''
      else case translate (ram st) root va of
        None \<Rightarrow> Panic ''uvmcopy: No exist pte(pte should exist)''
      | Some a \<Rightarrow> (let p = read64 (ram st) a in
          if \<not> is_valid p then Panic ''uvmcopy(): page not present''
          else bnd (new_zeroed bf st) (\<lambda>(page, st1).
            let st2 = st1\<lparr>ram := pgt_write (ram st1) page (as_pagetable p)\<rparr> in
            bnd (pgt_map bf st2 child va page PGSIZE (as_flags p)) (\<lambda>(ok, st3).
            if \<not> ok then bnd (uvm_unmap st3 child 0 (va div PGSIZE) True) (\<lambda>st4. Ret (Inl ''uvmcopy: Fail.'', st4))
            else if va + PGSIZE < usize_lim then uvm_copy_loop bf st3 root child sz (va + PGSIZE)
            else Panic ''attempt to add with overflow''))))"
  by pat_completeness auto
termination
  by (relation "measure (\<lambda>(bf, st, root, child, sz, va). MAXVA + 1 - va)") (auto simp: PGSIZE_def)

definition uvm_copy :: "8 word bitops \<Rightarrow> vm \<Rightarrow> nat \<Rightarrow> nat \<Rightarrow> nat \<Rightarrow> ((string + unit) \<times> vm) outcome" where
  "uvm_copy bf st root child sz = uvm_copy_loop bf st root child sz 0"

definition uvm_free :: "vm \<Rightarrow> nat \<Rightarrow> nat \<Rightarrow> vm outcome" where
  "uvm_free st root sz =
     (if sz > 0 then bnd (pg_round_up sz) (\<lambda>e. uvm_unmap st root 0 (e div PGSIZE) True) else Ret st)"

definition uvm_clear :: "vm \<Rightarrow> nat \<Rightarrow> nat \<Rightarrow> vm outcome" where
  "uvm_clear st root va =
     (case translate (ram st) root va of
        Some a \<Rightarrow> Ret (st\<lparr>ram := write64 (ram st) a (rm_user_bit (read64 (ram st) a))\<rparr>)
      | None \<Rightarrow> Panic ''uvmclear(): Not found valid pte for virtualaddress'')"

definition proc_free_pagetable :: "vm \<Rightarrow> nat \<Rightarrow> nat \<Rightarrow> vm outcome" where
  "proc_free_pagetable st root sz =
     bnd (uvm_unmap st root TRAMPOLINE 1 False) (\<lambda>st1.
     bnd (uvm_unmap st1 root TRAPFRAME 1 False) (\<lambda>st2. uvm_free st2 root sz))"

declare uvm_alloc_loop.simps [simp del] uvm_copy_loop.simps [simp del] pgt_free.simps [simp del]

end
