(* ===== verification/PageTableWf.thy ===== *)
theory PageTableWf
  imports PageTable
begin

text \<open>
  Page tables as partial functions. \<open>tab m root is\<close> follows the table entries with the indices \<open>is\<close>
  from the table at \<open>root\<close>; \<open>entry m root va\<close> is the valid leaf entry of an address. A well-formed
  table reaches every table page by one path only, so that writing an entry changes exactly the
  translations that go through it. The lemmas give the effect of each mapping routine on \<open>entry\<close>.
\<close>

primrec tab :: "(nat \<Rightarrow> 64 word) \<Rightarrow> nat \<Rightarrow> nat list \<Rightarrow> nat option" where
  "tab m r [] = Some r"
| "tab m r (i # is) = (let p = pte_at m r i in if is_valid p then tab m (as_pagetable p) is else None)"

definition idx_ok :: "nat list \<Rightarrow> bool" where
  "idx_ok is \<longleftrightarrow> length is \<le> 2 \<and> (\<forall>i \<in> set is. i < 512)"

definition tables :: "(nat \<Rightarrow> 64 word) \<Rightarrow> nat \<Rightarrow> nat set" where
  "tables m root = {a. \<exists>is. idx_ok is \<and> tab m root is = Some a}"

definition pt_wf :: "(nat \<Rightarrow> 64 word) \<Rightarrow> nat \<Rightarrow> bool" where
  "pt_wf m root \<longleftrightarrow> (\<forall>a \<in> tables m root. is_page_aligned a) \<and>
     (\<forall>is js a. idx_ok is \<longrightarrow> idx_ok js \<longrightarrow> tab m root is = Some a \<longrightarrow> tab m root js = Some a \<longrightarrow> is = js)"

text \<open>The leaf entry at three indices, and the one an address selects.\<close>

definition leaf :: "(nat \<Rightarrow> 64 word) \<Rightarrow> nat \<Rightarrow> nat \<Rightarrow> nat \<Rightarrow> nat \<Rightarrow> pte option" where
  "leaf m root i j k = (case tab m root [i, j] of None \<Rightarrow> None
     | Some t \<Rightarrow> (if is_valid (pte_at m t k) then Some (pte_at m t k) else None))"

definition entry :: "(nat \<Rightarrow> 64 word) \<Rightarrow> nat \<Rightarrow> nat \<Rightarrow> pte option" where
  "entry m root va = leaf m root (page_num va 2) (page_num va 1) (page_num va 0)"

text \<open>Cells of aligned pages.\<close>

lemma aligned_multiple: "is_page_aligned a \<Longrightarrow> \<exists>q. a = 4096 * q"
  by (auto simp: is_page_aligned_def PGSIZE_def dvd_def)

lemma page_cell: "is_page_aligned a \<Longrightarrow> (a + 8 * i) div 8 = a div 8 + i"
  by (auto simp: is_page_aligned_def PGSIZE_def)

lemma cell_eq:
  assumes "is_page_aligned a" "is_page_aligned b" "i < 512" "j < 512"
  shows "a div 8 + i = b div 8 + j \<longleftrightarrow> a = b \<and> i = j"
proof -
  obtain q r where "a = 4096 * q" "b = 4096 * r"
    using aligned_multiple [OF assms(1)] aligned_multiple [OF assms(2)] by blast
  moreover have "512 * q + i = 512 * r + j \<longleftrightarrow> q = r \<and> i = j"
    using assms(3,4) div_mult_self4 [of 512 q i] by (metis add_left_cancel add_right_cancel div_less div_mult_self4 zero_neq_numeral)
  ultimately show ?thesis by simp
qed

lemma pte_at_write:
  assumes "is_page_aligned a" "is_page_aligned b" "i < 512" "j < 512"
  shows "pte_at (write64 m (a + 8 * i) v) b j = (if a = b \<and> i = j then v else pte_at m b j)"
  using cell_eq [OF assms]
  by (auto simp: pte_at_def read64_def write64_def page_cell [OF assms(1)] page_cell [OF assms(2)])

lemma pte_at_zero:
  assumes "is_page_aligned p" "is_page_aligned b" "j < 512"
  shows "pte_at (zero_page m p) b j = (if b = p then 0 else pte_at m b j)"
proof -
  obtain q r where "p = 4096 * q" "b = 4096 * r"
    using aligned_multiple [OF assms(1)] aligned_multiple [OF assms(2)] by blast
  moreover have "512 * q \<le> 512 * r + j \<and> 512 * r + j < 512 * q + 512 \<longleftrightarrow> r = q"
    using assms(3) by (auto intro: antisym)
  ultimately show ?thesis
    by (simp add: pte_at_def read64_def zero_page_def page_cell [OF assms(2)] PGSIZE_def)
qed

lemma page_num_lt: "page_num va l < 512"
proof -
  have m: "(0x1FF :: 64 word) = mask 9" by (simp add: mask_eq_exp_minus_1)
  have "unat (w AND mask 9 :: 64 word) < 512" for w
    unfolding take_bit_eq_mask [symmetric] unsigned_take_bit_eq
    using take_bit_nat_less_exp [of 9 "unat w"] by simp
  then show ?thesis unfolding page_num_def PGMASK_def by (simp add: m)
qed

lemma idx_ok_simps [simp]:
  "idx_ok []" "idx_ok [i] \<longleftrightarrow> i < 512" "idx_ok [i, j] \<longleftrightarrow> i < 512 \<and> j < 512"
  by (auto simp: idx_ok_def)

lemma pt_wf_aligned: "pt_wf m root \<Longrightarrow> idx_ok is \<Longrightarrow> tab m root is = Some a \<Longrightarrow> is_page_aligned a"
  by (auto simp: pt_wf_def tables_def)

lemma pt_wf_inj: "pt_wf m root \<Longrightarrow> idx_ok is \<Longrightarrow> idx_ok js \<Longrightarrow> tab m root is = Some a \<Longrightarrow>
  tab m root js = Some a \<Longrightarrow> is = js"
  unfolding pt_wf_def by blast

lemma tab_append: "tab m r (is @ js) = (case tab m r is of None \<Rightarrow> None | Some a \<Rightarrow> tab m a js)"
  by (induction "is" arbitrary: r) (auto simp: Let_def)

text \<open>A path only depends on the entries it reads.\<close>

lemma tab_cong:
  assumes "\<And>as i bs a. is = as @ i # bs \<Longrightarrow> tab m r as = Some a \<Longrightarrow> pte_at m' a i = pte_at m a i"
  shows "tab m' r is = tab m r is"
  using assms
proof (induction "is" arbitrary: r)
  case (Cons i "is")
  have e: "pte_at m' r i = pte_at m r i" using Cons.prems [of "[]" i "is" r] by simp
  show ?case
  proof (cases "is_valid (pte_at m r i)")
    case True
    have "tab m' (as_pagetable (pte_at m r i)) is = tab m (as_pagetable (pte_at m r i)) is"
      by (rule Cons.IH) (use Cons.prems True in \<open>auto simp: Let_def intro: Cons.prems [of "i # _"]\<close>)
    then show ?thesis using e by (simp add: Let_def)
  qed (use e in \<open>simp add: Let_def\<close>)
qed simp

lemma idx_ok_prefix: "idx_ok (as @ i # bs) \<Longrightarrow> idx_ok as \<and> i < 512 \<and> length as < 2"
  by (auto simp: idx_ok_def)

text \<open>Changing memory outside the tables changes nothing.\<close>

lemma tab_frame:
  assumes "pt_wf m root" "\<And>a i. a \<in> tables m root \<Longrightarrow> i < 512 \<Longrightarrow> pte_at m' a i = pte_at m a i" "idx_ok is"
  shows "tab m' root is = tab m root is"
  by (rule tab_cong) (use assms idx_ok_prefix in \<open>fastforce simp: tables_def\<close>)

lemma tables_frame:
  assumes "pt_wf m root" "\<And>a i. a \<in> tables m root \<Longrightarrow> i < 512 \<Longrightarrow> pte_at m' a i = pte_at m a i"
  shows "tables m' root = tables m root" "pt_wf m' root" "leaf m' root i j k = leaf m root i j k \<or> \<not> (i < 512 \<and> j < 512 \<and> k < 512)"
proof -
  have T: "tab m' root is = tab m root is" if "idx_ok is" for "is"
    using tab_frame [OF assms(1) _ that] assms(2) by blast
  show t: "tables m' root = tables m root" using T by (auto simp: tables_def)
  show "pt_wf m' root" using assms(1) T unfolding pt_wf_def t by simp
  show "leaf m' root i j k = leaf m root i j k \<or> \<not> (i < 512 \<and> j < 512 \<and> k < 512)"
  proof (cases "i < 512 \<and> j < 512 \<and> k < 512")
    case True
    then have "idx_ok [i, j]" by simp
    then have "tab m' root [i, j] = tab m root [i, j]" by (rule T)
    moreover have "pte_at m' t k = pte_at m t k" if "tab m root [i, j] = Some t" for t
    proof (rule assms(2))
      show "t \<in> tables m root" unfolding tables_def using that True by (blast intro: idx_ok_simps(3) [THEN iffD2])
    qed (use True in simp)
    ultimately show ?thesis by (auto simp: leaf_def split: option.splits)
  qed simp
qed

text \<open>Writing the entry \<open>i\<close> of the table at path \<open>p\<close>.\<close>

lemma tab_write_other:
  assumes wf: "pt_wf m root" and p: "idx_ok p" "tab m root p = Some a" and i: "i < 512"
    and q: "idx_ok q" "\<And>bs. q \<noteq> p @ i # bs"
  shows "tab (write64 m (a + 8 * i) v) root q = tab m root q"
proof (rule tab_cong)
  fix as j bs b assume e: "q = as @ j # bs" and b: "tab m root as = Some b"
  note o = idx_ok_prefix [OF q(1) [unfolded e]]
  have "\<not> (a = b \<and> i = j)" using pt_wf_inj [OF wf p(1) _ p(2), of as] o b q(2) [of bs] e by auto
  then show "pte_at (write64 m (a + 8 * i) v) b j = pte_at m b j"
    using pte_at_write [OF pt_wf_aligned [OF wf p] pt_wf_aligned [OF wf _ b] i, of j m v] o by auto
qed

text \<open>Writing a leaf entry leaves the tables alone and changes exactly this translation.\<close>

lemma leaf_write:
  fixes v :: pte
  assumes wf: "pt_wf m root" and t: "tab m root [i, j] = Some a" and idx: "i < 512" "j < 512" "k < 512"
  defines "m' \<equiv> write64 m (a + 8 * k) v"
  shows "pt_wf m' root" "tables m' root = tables m root"
    and "i' < 512 \<Longrightarrow> j' < 512 \<Longrightarrow> k' < 512 \<Longrightarrow> leaf m' root i' j' k' =
      (if (i', j', k') = (i, j, k) then (if is_valid v then Some v else None) else leaf m root i' j' k')"
proof -
  have T: "tab m' root q = tab m root q" if "idx_ok q" for q
    unfolding m'_def by (rule tab_write_other [OF wf _ t idx(3) that]) (use idx that in \<open>auto simp: idx_ok_def\<close>)
  show t': "tables m' root = tables m root" using T by (auto simp: tables_def)
  show "pt_wf m' root" using wf T unfolding pt_wf_def t' by simp
  assume idx': "i' < 512" "j' < 512" "k' < 512"
  show "leaf m' root i' j' k' =
      (if (i', j', k') = (i, j, k) then (if is_valid v then Some v else None) else leaf m root i' j' k')"
  proof (cases "tab m root [i', j']")
    case None
    then show ?thesis using T [of "[i', j']"] t idx' by (auto simp: leaf_def)
  next
    case (Some b)
    have "pte_at m' b k' = (if a = b \<and> k = k' then v else pte_at m b k')"
      unfolding m'_def
      by (rule pte_at_write) (use pt_wf_aligned [OF wf _ t] pt_wf_aligned [OF wf _ Some] idx idx' in auto)
    moreover have "a = b \<longleftrightarrow> (i', j') = (i, j)"
      using pt_wf_inj [OF wf _ _ t, of "[i', j']"] Some t idx idx' by auto
    ultimately show ?thesis using Some T [of "[i', j']"] idx' by (auto simp: leaf_def)
  qed
qed

end
