(* ===== verification/PageTableMap.thy ===== *)
theory PageTableMap
  imports PageTableWf
begin

text \<open>
  The effect of the mapping routines. \<open>vm_inv\<close> is the invariant of a page table whose pages come from
  the heap, \<open>vm_ext\<close> what the routines keep: pages in use stay in use, memory that is neither a table
  nor a new page keeps its contents. A routine either meets its specification or the heap is exhausted.
\<close>

definition in_page :: "nat \<Rightarrow> nat \<Rightarrow> bool" where
  "in_page p c \<longleftrightarrow> p div 8 \<le> c \<and> c < p div 8 + 512"

definition vm_inv :: "8 word bitops \<Rightarrow> nat \<Rightarrow> nat \<Rightarrow> vm \<Rightarrow> bool" where
  "vm_inv bf lo root st \<longleftrightarrow> page_inv bf lo (heap st) \<and> pt_wf (ram st) root \<and>
     tables (ram st) root \<subseteq> insert root (pages bf lo (heap st)) \<and>
     (root \<in> pages bf lo (heap st) \<or> root + PGSIZE \<le> lo)"

definition vm_ext :: "8 word bitops \<Rightarrow> nat \<Rightarrow> nat \<Rightarrow> vm \<Rightarrow> vm \<Rightarrow> bool" where
  "vm_ext bf lo root st st' \<longleftrightarrow> pages bf lo (heap st) \<subseteq> pages bf lo (heap st') \<and>
     tables (ram st) root \<subseteq> tables (ram st') root \<and>
     tables (ram st') root \<inter> pages bf lo (heap st) \<subseteq> tables (ram st) root \<and>
     (\<forall>c. (\<forall>t \<in> tables (ram st') root. \<not> in_page t c) \<longrightarrow>
       (\<forall>p \<in> pages bf lo (heap st') - pages bf lo (heap st). \<not> in_page p c) \<longrightarrow> ram st' c = ram st c)"

definition same_leaves :: "nat \<Rightarrow> vm \<Rightarrow> vm \<Rightarrow> bool" where
  "same_leaves root st st' \<longleftrightarrow>
     (\<forall>i < 512. \<forall>j < 512. \<forall>k < 512. leaf (ram st') root i j k = leaf (ram st) root i j k)"

definition oom_or :: "('a \<Rightarrow> bool) \<Rightarrow> 'a outcome \<Rightarrow> bool" where
  "oom_or P x \<longleftrightarrow> (case x of Ret y \<Rightarrow> P y | Panic e \<Rightarrow> e = ''alloc error'')"

lemma oom_or_Ret [simp]: "oom_or P (Ret y) = P y"
  by (simp add: oom_or_def)

lemma oom_or_bnd: "oom_or P x \<Longrightarrow> (\<And>y. x = Ret y \<Longrightarrow> P y \<Longrightarrow> oom_or Q (f y)) \<Longrightarrow> oom_or Q (bnd x f)"
  by (cases x) (auto simp: oom_or_def)

lemma oom_or_mono: "oom_or P x \<Longrightarrow> (\<And>y. x = Ret y \<Longrightarrow> P y \<Longrightarrow> Q y) \<Longrightarrow> oom_or Q x"
  by (cases x) (auto simp: oom_or_def)

lemma vm_ext_refl [simp]: "vm_ext bf lo root st st"
  by (simp add: vm_ext_def)

lemma vm_extD:
  assumes "vm_ext bf lo root st st'"
  shows "pages bf lo (heap st) \<subseteq> pages bf lo (heap st')" "tables (ram st) root \<subseteq> tables (ram st') root"
    "tables (ram st') root \<inter> pages bf lo (heap st) \<subseteq> tables (ram st) root"
    "(\<And>t. t \<in> tables (ram st') root \<Longrightarrow> \<not> in_page t c) \<Longrightarrow>
     (\<And>p. p \<in> pages bf lo (heap st') \<Longrightarrow> p \<notin> pages bf lo (heap st) \<Longrightarrow> \<not> in_page p c) \<Longrightarrow> ram st' c = ram st c"
  using assms by (simp_all add: vm_ext_def)

lemma vm_extI:
  assumes "pages bf lo (heap st) \<subseteq> pages bf lo (heap st')" "tables (ram st) root \<subseteq> tables (ram st') root"
    "tables (ram st') root \<inter> pages bf lo (heap st) \<subseteq> tables (ram st) root"
    "\<And>c. (\<And>t. t \<in> tables (ram st') root \<Longrightarrow> \<not> in_page t c) \<Longrightarrow>
     (\<And>p. p \<in> pages bf lo (heap st') \<Longrightarrow> p \<notin> pages bf lo (heap st) \<Longrightarrow> \<not> in_page p c) \<Longrightarrow> ram st' c = ram st c"
  shows "vm_ext bf lo root st st'"
  unfolding vm_ext_def using assms by simp

lemma vm_ext_trans:
  assumes "vm_ext bf lo root st st1" "vm_ext bf lo root st1 st2" shows "vm_ext bf lo root st st2"
proof (rule vm_extI)
  note A = vm_extD [OF assms(1)] and B = vm_extD [OF assms(2)]
  show "pages bf lo (heap st) \<subseteq> pages bf lo (heap st2)" using A(1) B(1) by (rule subset_trans)
  show "tables (ram st) root \<subseteq> tables (ram st2) root" using A(2) B(2) by (rule subset_trans)
  show "tables (ram st2) root \<inter> pages bf lo (heap st) \<subseteq> tables (ram st) root"
  proof
    fix t assume "t \<in> tables (ram st2) root \<inter> pages bf lo (heap st)"
    then have "t \<in> tables (ram st1) root" "t \<in> pages bf lo (heap st)"
      using subsetD [OF A(1), of t] subsetD [OF B(3), of t] by simp_all
    then show "t \<in> tables (ram st) root" using subsetD [OF A(3), of t] by simp
  qed
  fix c assume t: "\<And>t. t \<in> tables (ram st2) root \<Longrightarrow> \<not> in_page t c"
    and p: "\<And>p. p \<in> pages bf lo (heap st2) \<Longrightarrow> p \<notin> pages bf lo (heap st) \<Longrightarrow> \<not> in_page p c"
  have "ram st2 c = ram st1 c" by (rule B(4)) (use t p subsetD [OF A(1)] in \<open>simp_all, blast\<close>)
  also have "ram st1 c = ram st c" by (rule A(4)) (use t p subsetD [OF B(1)] subsetD [OF B(2)] in simp_all)
  finally show "ram st2 c = ram st c" .
qed

lemma same_leaves_refl [simp]: "same_leaves root st st"
  by (simp add: same_leaves_def)

lemma same_leaves_trans: "same_leaves root st st1 \<Longrightarrow> same_leaves root st1 st2 \<Longrightarrow> same_leaves root st st2"
  by (simp add: same_leaves_def)

lemma in_page_pte: "is_page_aligned t \<Longrightarrow> i < 512 \<Longrightarrow> in_page t ((t + 8 * i) div 8)"
  by (simp add: in_page_def page_cell)

lemma in_page_inj: "is_page_aligned p \<Longrightarrow> is_page_aligned q \<Longrightarrow> in_page p c \<Longrightarrow> in_page q c \<Longrightarrow> p = q"
  using cell_eq [of p q "c - p div 8" "c - q div 8"] by (auto simp: in_page_def)

lemma zero_page_out: "\<not> in_page p c \<Longrightarrow> zero_page m p c = m c"
  by (auto simp: zero_page_def in_page_def PGSIZE_def)

lemma write64_out: "is_page_aligned t \<Longrightarrow> i < 512 \<Longrightarrow> \<not> in_page t c \<Longrightarrow> write64 m (t + 8 * i) v c = m c"
  using in_page_pte [of t i] by (auto simp: write64_def)

text \<open>Linking a new zeroed table below the entry \<open>i\<close> of the table at path \<open>is\<close>.\<close>

lemma link_tab:
  assumes wf: "pt_wf m root" and "is": "idx_ok (is @ [i])" "tab m root is = Some pt"
    and inv: "\<not> is_valid (pte_at m pt i)" and p: "is_page_aligned p" "p < usize_lim" "p \<notin> tables m root"
    and z: "\<And>k. k < 512 \<Longrightarrow> pte_at m p k = 0"
  defines "m' \<equiv> write64 m (pt + 8 * i) (as_pte p OR PTE_V)"
  assumes q: "idx_ok q"
  shows "tab m' root q = (if q = is @ [i] then Some p else tab m root q)"
proof (cases "\<exists>bs. q = is @ i # bs")
  case False
  have ok: "idx_ok is" "i < 512" using idx_ok_prefix [of "is" i "[]"] "is"(1) by auto
  have "tab m' root q = tab m root q" unfolding m'_def
    by (rule tab_write_other [OF wf ok(1) "is"(2) ok(2) q]) (use False in blast)
  then show ?thesis using False by auto
next
  case True
  then obtain bs where bs: "q = is @ i # bs" by blast
  have ok: "idx_ok is" "i < 512" "idx_ok (i # bs)"
    using idx_ok_prefix [of "is" i "[]"] "is"(1) q bs by (auto simp: idx_ok_def)
  have t: "tab m' root is = Some pt" unfolding m'_def
    using tab_write_other [OF wf ok(1) "is"(2) ok(2) ok(1)] "is"(2) by simp
  have al: "is_page_aligned pt" and ptt: "pt \<in> tables m root"
    using pt_wf_aligned [OF wf ok(1) "is"(2)] ok(1) "is"(2) by (auto simp: tables_def)
  have e: "pte_at m' pt i = write_perm p 0"
    unfolding m'_def using pte_at_write [OF al al ok(2) ok(2)] p(1) by (simp add: as_pte_write)
  have v: "is_valid (write_perm p 0)" "as_pagetable (write_perm p 0) = p"
    using p by (auto intro: is_valid_write_perm as_pagetable_write_perm)
  have o: "tab m root q = None" using "is"(2) inv bs by (simp add: tab_append)
  have "tab m' root q = tab m' p bs" using t e v bs by (simp add: tab_append)
  also have "\<dots> = (if bs = [] then Some p else None)"
  proof (cases bs)
    case (Cons j js)
    then have "j < 512" using ok(3) by (auto simp: idx_ok_def)
    moreover have "pt \<noteq> p" using ptt p(3) by blast
    ultimately have "pte_at m' p j = 0"
      unfolding m'_def using pte_at_write [OF al p(1) ok(2), of j m] z by simp
    then show ?thesis using Cons by simp
  qed simp
  finally show ?thesis using o bs by auto
qed

lemma link_table:
  assumes wf: "pt_wf m root" and "is": "idx_ok (is @ [i])" "tab m root is = Some pt"
    and inv: "\<not> is_valid (pte_at m pt i)" and p: "is_page_aligned p" "p < usize_lim" "p \<notin> tables m root"
    and z: "\<And>k. k < 512 \<Longrightarrow> pte_at m p k = 0"
  defines "m' \<equiv> write64 m (pt + 8 * i) (as_pte p OR PTE_V)"
  shows "tables m' root = insert p (tables m root)" "pt_wf m' root"
    and "a < 512 \<Longrightarrow> b < 512 \<Longrightarrow> c < 512 \<Longrightarrow> leaf m' root a b c = leaf m root a b c"
proof -
  note T = link_tab [OF wf "is" inv p z, folded m'_def]
  have ok: "idx_ok is" "i < 512" "length is < 2" using idx_ok_prefix [of "is" i "[]"] "is"(1) by auto
  have n: "tab m root (is @ [i]) = None" using "is"(2) inv by (simp add: tab_append)
  show t: "tables m' root = insert p (tables m root)"
    using T "is"(1) n unfolding tables_def by (auto split: if_splits) (metis option.distinct(1))
  show "pt_wf m' root"
    using wf p(1,3) T unfolding pt_wf_def t by (auto simp: tables_def split: if_splits)
  have al: "is_page_aligned pt" "pt \<in> tables m root"
    using pt_wf_aligned [OF wf ok(1) "is"(2)] ok(1) "is"(2) by (auto simp: tables_def)
  assume idx: "a < 512" "b < 512" "c < 512"
  have E: "pte_at m' t c = pte_at m t c" if "is_page_aligned t" "t \<noteq> pt" for t
    unfolding m'_def using pte_at_write [OF al(1) that(1) ok(2) idx(3), of m] that(2) by simp
  show "leaf m' root a b c = leaf m root a b c"
  proof (cases "[a, b] = is @ [i]")
    case True
    then have "tab m' root [a, b] = Some p" "tab m root [a, b] = None" using T [of "[a, b]"] n idx by auto
    moreover have "p \<noteq> pt" using al(2) p(3) by blast
    ultimately show ?thesis using E [OF p(1)] z [OF idx(3)] by (simp add: leaf_def del: tab.simps)
  next
    case False
    then have t: "tab m' root [a, b] = tab m root [a, b]" using T [of "[a, b]"] idx by auto
    show ?thesis
    proof (cases "tab m root [a, b]")
      case (Some t)
      have "t \<noteq> pt" using pt_wf_inj [OF wf _ ok(1) Some, of] "is"(2) idx ok(3) by auto
      then show ?thesis using E pt_wf_aligned [OF wf _ Some] idx Some \<open>tab m' root [a, b] = _\<close> by (simp add: leaf_def)
    qed (use t in \<open>simp add: leaf_def\<close>)
  qed
qed

text \<open>Writing to a page that is not a table.\<close>

lemma page_frame:
  assumes "pt_wf m root" "is_page_aligned p" "p \<notin> tables m root" "\<And>c. \<not> in_page p c \<Longrightarrow> m' c = m c"
  shows "tables m' root = tables m root" "pt_wf m' root"
    and "i < 512 \<Longrightarrow> j < 512 \<Longrightarrow> k < 512 \<Longrightarrow> leaf m' root i j k = leaf m root i j k"
proof -
  have f: "pte_at m' a i = pte_at m a i" if a: "a \<in> tables m root" "i < 512" for a i
  proof -
    have "is_page_aligned a" "a \<noteq> p" using assms(1,3) a by (auto simp: pt_wf_def)
    then have "\<not> in_page p ((a + 8 * i) div 8)"
      using in_page_inj [OF assms(2) _ _ in_page_pte [OF _ a(2)], of a] by blast
    then show ?thesis using assms(4) by (simp add: pte_at_def read64_def)
  qed
  show "tables m' root = tables m root" "pt_wf m' root"
    using tables_frame(1,2) [OF assms(1) f] by auto
  show "i < 512 \<Longrightarrow> j < 512 \<Longrightarrow> k < 512 \<Longrightarrow> leaf m' root i j k = leaf m root i j k"
    using tables_frame(3) [OF assms(1) f, of i j k] by auto
qed

definition fresh_page :: "8 word bitops \<Rightarrow> nat \<Rightarrow> nat \<Rightarrow> vm \<Rightarrow> nat \<Rightarrow> vm \<Rightarrow> bool" where
  "fresh_page bf lo root st p st' \<longleftrightarrow> is_page_aligned p \<and> lo \<le> p \<and> p + PGSIZE < usize_lim \<and>
     p \<notin> pages bf lo (heap st) \<and> pages bf lo (heap st') = insert p (pages bf lo (heap st)) \<and>
     ram st' = zero_page (ram st) p \<and> p \<notin> tables (ram st) root \<and> tables (ram st') root = tables (ram st) root"

context buddy_bits
begin

lemma new_zeroed_ok:
  assumes "vm_inv bf lo root st"
  shows "oom_or (\<lambda>(p, st'). vm_inv bf lo root st' \<and> vm_ext bf lo root st st' \<and> same_leaves root st st' \<and>
    fresh_page bf lo root st p st') (new_zeroed bf st)"
proof -
  from assms have i: "page_inv bf lo (heap st)" "pt_wf (ram st) root"
    "tables (ram st) root \<subseteq> insert root (pages bf lo (heap st))"
    "root \<in> pages bf lo (heap st) \<or> root + PGSIZE \<le> lo" by (auto simp: vm_inv_def)
  show ?thesis
  proof (cases "box_alloc bf (heap st) page_layout = Panic ''alloc error''")
    case True
    then show ?thesis by (simp add: new_zeroed_def oom_or_def)
  next
    case False
    with page_alloc [OF i(1)] obtain p h' where A: "box_alloc bf (heap st) page_layout = Ret (p, h')"
      "page_inv bf lo h'" "p mod PGSIZE = 0" "lo \<le> p" "p + PGSIZE < usize_lim"
      "pages bf lo h' = insert p (pages bf lo (heap st))" "p \<notin> pages bf lo (heap st)" by auto
    have al: "is_page_aligned p" using A(3) by (simp add: is_page_aligned_def)
    have "0 < PGSIZE" by (simp add: PGSIZE_def)
    then have pt: "p \<notin> tables (ram st) root" using i(3,4) A(4,7) by auto
    note Z = page_frame [OF i(2) al pt, of "zero_page (ram st) p", OF zero_page_out]
    let ?st = "st\<lparr>ram := zero_page (ram st) p, heap := h'\<rparr>"
    have "vm_inv bf lo root ?st" using i(3,4) A(2,6) Z by (auto simp: vm_inv_def)
    moreover have "vm_ext bf lo root st ?st"
      by (rule vm_extI) (use A(6,7) Z in \<open>auto intro: zero_page_out\<close>)
    moreover have "same_leaves root st ?st" using Z(3) by (simp add: same_leaves_def)
    moreover have "fresh_page bf lo root st p ?st" using al A Z pt by (simp add: fresh_page_def)
    ultimately show ?thesis using A(1) by (simp add: new_zeroed_def)
  qed
qed

lemma walk_alloc_ok:
  assumes v: "vm_inv bf lo root st" and "is": "idx_ok (is @ [i])" "tab (ram st) root is = Some pt"
  shows "oom_or (\<lambda>(p, st'). vm_inv bf lo root st' \<and> vm_ext bf lo root st st' \<and> same_leaves root st st' \<and>
    tab (ram st') root (is @ [i]) = Some p) (walk_alloc bf st pt i)"
proof (cases "is_valid (pte_at (ram st) pt i)")
  case True
  then show ?thesis using v "is"(2) by (simp add: walk_alloc_def tab_append)
next
  case False
  have wf: "pt_wf (ram st) root" using v by (simp add: vm_inv_def)
  have ok: "idx_ok is" "i < 512" using idx_ok_prefix [of "is" i "[]"] "is"(1) by auto
  have pt: "is_page_aligned pt" "pt \<in> tables (ram st) root"
    using pt_wf_aligned [OF wf ok(1) "is"(2)] ok(1) "is"(2) by (auto simp: tables_def)
  show ?thesis unfolding walk_alloc_def Let_def if_not_P [OF False]
  proof (rule oom_or_bnd [OF new_zeroed_ok [OF v]], clarsimp)
    fix p st1
    assume v1: "vm_inv bf lo root st1" and x: "vm_ext bf lo root st st1" and l: "same_leaves root st st1"
      and f: "fresh_page bf lo root st p st1"
    from f have p: "is_page_aligned p" "p + PGSIZE < usize_lim" "p \<notin> pages bf lo (heap st)"
      "pages bf lo (heap st1) = insert p (pages bf lo (heap st))" "ram st1 = zero_page (ram st) p"
      "p \<notin> tables (ram st) root" "tables (ram st1) root = tables (ram st) root" by (auto simp: fresh_page_def)
    have wf1: "pt_wf (ram st1) root" using v1 by (simp add: vm_inv_def)
    have pl: "p < usize_lim" using p(2) by simp
    have e: "pte_at (ram st1) a k = (if a = p then 0 else pte_at (ram st) a k)"
      if "is_page_aligned a" "k < 512" for a k
      using pte_at_zero [OF p(1) that] p(5) by simp
    have t1: "tab (ram st1) root is = Some pt"
    proof -
      have "tab (ram st1) root is = tab (ram st) root is"
        by (rule tab_frame [OF wf _ ok(1)]) (use e p(6) wf in \<open>auto simp: pt_wf_def\<close>)
      then show ?thesis using "is"(2) by simp
    qed
    have nv: "\<not> is_valid (pte_at (ram st1) pt i)" using e [OF pt(1) ok(2)] False pt(2) p(6) by auto
    let ?m = "write64 (ram st1) (pt + 8 * i) (as_pte p OR PTE_V)"
    have L: "tables ?m root = insert p (tables (ram st1) root)" "pt_wf ?m root"
      "\<And>a b c. a < 512 \<Longrightarrow> b < 512 \<Longrightarrow> c < 512 \<Longrightarrow> leaf ?m root a b c = leaf (ram st1) root a b c"
      using link_table [OF wf1 "is"(1) t1 nv p(1) pl] e [OF p(1)] p(6,7) by auto
    have "tab ?m root (is @ [i]) = Some p"
      using link_tab [OF wf1 "is"(1) t1 nv p(1) pl _ _ "is"(1)] e [OF p(1)] p(6,7) by auto
    moreover have "vm_inv bf lo root (st1\<lparr>ram := ?m\<rparr>)"
      using v1 L(1,2) p(4,7) unfolding vm_inv_def by auto
    moreover have "same_leaves root st (st1\<lparr>ram := ?m\<rparr>)"
      using l L(3) by (simp add: same_leaves_def)
    moreover have "vm_ext bf lo root st (st1\<lparr>ram := ?m\<rparr>)"
    proof (rule vm_extI)
      fix c assume t: "\<And>t. t \<in> tables (ram (st1\<lparr>ram := ?m\<rparr>)) root \<Longrightarrow> \<not> in_page t c"
      then have "\<not> in_page pt c" "\<not> in_page p c" using L(1) pt(2) p(7) by auto
      then show "ram (st1\<lparr>ram := ?m\<rparr>) c = ram st c"
        using write64_out [OF pt(1) ok(2)] p(5) by (simp add: zero_page_out)
    qed (use L(1) p in auto)
    ultimately show "vm_inv bf lo root (st1\<lparr>ram := ?m\<rparr>) \<and> vm_ext bf lo root st (st1\<lparr>ram := ?m\<rparr>) \<and>
      same_leaves root st (st1\<lparr>ram := ?m\<rparr>) \<and> tab ?m root (is @ [i]) = Some p" by simp
  qed
qed

lemma translate_or_alloc_ok:
  assumes v: "vm_inv bf lo root st" and va: "va \<le> MAXVA"
  shows "oom_or (\<lambda>(a, st'). vm_inv bf lo root st' \<and> vm_ext bf lo root st st' \<and> same_leaves root st st' \<and>
    (\<exists>t. tab (ram st') root [page_num va 2, page_num va 1] = Some t \<and> a = t + 8 * page_num va 0))
    (translate_or_alloc bf st root va)"
proof -
  have na: "\<not> va > MAXVA" using va by simp
  have w2: "idx_ok ([] @ [page_num va 2])" and w1: "idx_ok ([page_num va 2] @ [page_num va 1])"
    by (simp_all add: page_num_lt)
  show ?thesis unfolding translate_or_alloc_def if_not_P [OF na]
  proof (rule oom_or_bnd [OF walk_alloc_ok [OF v w2 tab.simps(1)]])
    fix y assume y: "case y of (p, st') \<Rightarrow> vm_inv bf lo root st' \<and> vm_ext bf lo root st st' \<and>
      same_leaves root st st' \<and> tab (ram st') root ([] @ [page_num va 2]) = Some p"
    obtain p1 st1 where [simp]: "y = (p1, st1)" by (cases y)
    from y have v1: "vm_inv bf lo root st1" and x: "vm_ext bf lo root st st1" "same_leaves root st st1"
      and t1: "tab (ram st1) root [page_num va 2] = Some p1" by simp_all
    show "oom_or (\<lambda>(a, st'). vm_inv bf lo root st' \<and> vm_ext bf lo root st st' \<and> same_leaves root st st' \<and>
        (\<exists>t. tab (ram st') root [page_num va 2, page_num va 1] = Some t \<and> a = t + 8 * page_num va 0))
      (case y of (p1, st1) \<Rightarrow>
        bnd (walk_alloc bf st1 p1 (page_num va 1)) (\<lambda>(p0, st2). Ret (p0 + 8 * page_num va 0, st2)))"
      unfolding \<open>y = _\<close> prod.case
      by (rule oom_or_bnd [OF walk_alloc_ok [OF v1 w1 t1]])
        (clarsimp simp del: tab.simps(2), blast intro: vm_ext_trans [OF x(1)] same_leaves_trans [OF x(2)])
  qed
qed

end

text \<open>An address below \<open>2\<^sup>3\<^sup>9\<close> selects its entry by its page number, one to one.\<close>

lemma page_digits: "v < 2 ^ 27 \<Longrightarrow> v = (v div 2 ^ 18 mod 512) * 2 ^ 18 + (v div 2 ^ 9 mod 512) * 2 ^ 9 + v mod (512 :: nat)"
proof -
  assume "v < 2 ^ 27"
  then have "v div 2 ^ 18 < 512" by (simp add: div_less_iff_less_mult)
  then have a: "v div 2 ^ 18 mod 512 = v div 2 ^ 18" by simp
  have b: "v div 2 ^ 18 = v div 512 div 512" by (simp add: div_mult2_eq [symmetric])
  have "(x * 512 + y) * 512 + z = x * 2 ^ 18 + y * 2 ^ 9 + z" for x y z :: nat
    by (simp add: algebra_simps)
  from this [of "v div 512 div 512" "v div 512 mod 512" "v mod 512"]
  have "v = v div 512 div 512 * 2 ^ 18 + v div 512 mod 512 * 2 ^ 9 + v mod 512"
    by (simp only: div_mult_mod_eq)
  then show ?thesis unfolding a unfolding b by simp
qed

lemma page_num_inj:
  assumes "va < 2 ^ 39" "va' < 2 ^ 39"
  shows "(page_num va 2, page_num va 1, page_num va 0) = (page_num va' 2, page_num va' 1, page_num va' 0) \<longleftrightarrow>
    va div PGSIZE = va' div PGSIZE"
proof -
  have P: "page_num a 2 = a div PGSIZE div 2 ^ 18 mod 512" "page_num a 1 = a div PGSIZE div 2 ^ 9 mod 512"
    "page_num a 0 = a div PGSIZE mod 512" "a div PGSIZE < 2 ^ 27" if "a < 2 ^ 39" for a
    using that by (simp_all add: page_num_eq usize_lim_def PGSIZE_def div_mult2_eq [symmetric] div_less_iff_less_mult)
  show ?thesis
    using page_digits [OF P(4) [OF assms(1)]] page_digits [OF P(4) [OF assms(2)]]
    unfolding P [OF assms(1)] P [OF assms(2)] by (metis prod.inject)
qed

lemma same_leaves_entry: "same_leaves root st st' \<Longrightarrow> entry (ram st') root va = entry (ram st) root va"
  by (simp add: same_leaves_def entry_def page_num_lt)

lemma entry_write:
  assumes "pt_wf m root" "tab m root [page_num va 2, page_num va 1] = Some t" "va < 2 ^ 39" "va' < 2 ^ 39"
  shows "entry (write64 m (t + 8 * page_num va 0) v) root va' =
    (if va' div PGSIZE = va div PGSIZE then (if is_valid v then Some v else None) else entry m root va')"
  unfolding entry_def leaf_write(3) [OF assms(1,2) page_num_lt page_num_lt page_num_lt page_num_lt page_num_lt page_num_lt]
    page_num_inj [OF assms(4,3)] by simp

lemma entry_read:
  "tab m root [page_num va 2, page_num va 1] = Some t \<Longrightarrow> entry m root va =
   (if is_valid (read64 m (t + 8 * page_num va 0)) then Some (read64 m (t + 8 * page_num va 0)) else None)"
  by (simp add: entry_def leaf_def pte_at_def del: tab.simps)

lemma entry_page:
  "va < 2 ^ 39 \<Longrightarrow> va' < 2 ^ 39 \<Longrightarrow> va div PGSIZE = va' div PGSIZE \<Longrightarrow> entry m root va = entry m root va'"
  using page_num_inj [of va va'] by (simp add: entry_def)

text \<open>Writing a leaf entry through the address the walk returned.\<close>

lemma write_entry_ok:
  fixes p :: pte
  assumes v: "vm_inv bf lo root st" and t: "tab (ram st) root [page_num va 2, page_num va 1] = Some t"
  defines "st' \<equiv> st\<lparr>ram := write64 (ram st) (t + 8 * page_num va 0) p\<rparr>"
  shows "vm_inv bf lo root st'" "vm_ext bf lo root st st'"
proof -
  have wf: "pt_wf (ram st) root" using v by (simp add: vm_inv_def)
  note W = leaf_write(1,2) [OF wf t page_num_lt page_num_lt page_num_lt, of va 0 p]
  have tt: "t \<in> tables (ram st) root" "is_page_aligned t"
    using t pt_wf_aligned [OF wf _ t] by (auto simp: tables_def page_num_lt simp del: tab.simps
        intro: exI [of _ "[page_num va 2, page_num va 1]"])
  show "vm_inv bf lo root st'" using v W by (simp add: vm_inv_def st'_def)
  show "vm_ext bf lo root st st'"
    by (rule vm_extI) (use W tt in \<open>auto simp: st'_def page_num_lt intro!: write64_out\<close>)
qed

lemma aligned_add: "is_page_aligned a \<Longrightarrow> is_page_aligned (a + PGSIZE)"
  by (simp add: is_page_aligned_def)

definition mapped :: "nat \<Rightarrow> nat \<Rightarrow> nat \<Rightarrow> nat \<Rightarrow> 64 word \<Rightarrow> vm \<Rightarrow> vm \<Rightarrow> bool" where
  "mapped root va pa n perm st st' \<longleftrightarrow> (\<forall>va' < 2 ^ 39. entry (ram st') root va' =
     (if va \<le> va' \<and> va' < va + n * PGSIZE then Some (write_perm (pa + (va' - va) div PGSIZE * PGSIZE) perm)
      else entry (ram st) root va'))"

lemma mapped_Suc:
  assumes al: "is_page_aligned va"
    and 1: "\<And>va'. va' < 2 ^ 39 \<Longrightarrow> entry (ram st1) root va' =
      (if va' div PGSIZE = va div PGSIZE then Some (write_perm pa perm) else entry (ram st) root va')"
    and 2: "mapped root (va + PGSIZE) (pa + PGSIZE) n perm st1 st2"
  shows "mapped root va pa (Suc n) perm st st2"
  unfolding mapped_def
proof (intro allI impI)
  fix va' :: nat assume l: "va' < 2 ^ 39"
  obtain q where q: "va = PGSIZE * q" using aligned_multiple [OF al] by (auto simp: PGSIZE_def)
  have g: "0 < PGSIZE" by (simp add: PGSIZE_def)
  have d: "va' div PGSIZE = va div PGSIZE \<longleftrightarrow> va \<le> va' \<and> va' < va + PGSIZE"
  proof -
    have "va div PGSIZE = q" using q g by simp
    then show ?thesis using div_nat_eqI [of PGSIZE q va'] q g
      by (metis add.commute div_le_dividend div_less_iff_less_mult less_eq_div_iff_mult_less_eq le_antisym
          less_Suc_eq_le mult.commute mult_Suc_right nat_less_le order_refl)
  qed
  note E = 2 [unfolded mapped_def, rule_format, OF l] 1 [OF l]
  show "entry (ram st2) root va' =
    (if va \<le> va' \<and> va' < va + Suc n * PGSIZE then Some (write_perm (pa + (va' - va) div PGSIZE * PGSIZE) perm)
     else entry (ram st) root va')"
  proof (cases "va + PGSIZE \<le> va'")
    case True
    then have "va' - va = PGSIZE + (va' - (va + PGSIZE))" by simp
    then have "(va' - va) div PGSIZE = Suc ((va' - (va + PGSIZE)) div PGSIZE)"
      using g by (metis Suc_eq_plus1 div_add_self1 less_numeral_extra(3))
    then show ?thesis using True E d by (simp add: algebra_simps)
  next
    case False
    then show ?thesis using E d by (auto simp: div_less)
  qed
qed

context buddy_bits
begin

lemma map_loop_ok:
  assumes "vm_inv bf lo root st" "is_page_aligned va" "is_page_aligned pa" "perm < 0x400"
    "va + n * PGSIZE \<le> MAXVA + PGSIZE" "pa + n * PGSIZE < usize_lim"
    "\<And>k. k < n \<Longrightarrow> entry (ram st) root (va + k * PGSIZE) = None"
  shows "oom_or (\<lambda>(ok, st'). ok \<and> vm_inv bf lo root st' \<and> vm_ext bf lo root st st' \<and>
    mapped root va pa n perm st st') (map_loop bf root perm n st va pa)"
  using assms
proof (induction n arbitrary: st va pa)
  case 0
  then show ?case by (auto simp: mapped_def)
next
  case (Suc n)
  note P = Suc.prems
  have va: "va \<le> MAXVA" using P(5) by simp
  then have va39: "va < 2 ^ 39" by (simp add: MAXVA_def)
  have pa: "pa < usize_lim" using P(6) by simp
  show ?case unfolding map_loop.simps
  proof (rule oom_or_bnd [OF translate_or_alloc_ok [OF P(1) va]])
    fix y assume y: "case y of (a, st') \<Rightarrow> vm_inv bf lo root st' \<and> vm_ext bf lo root st st' \<and> same_leaves root st st' \<and>
      (\<exists>t. tab (ram st') root [page_num va 2, page_num va 1] = Some t \<and> a = t + 8 * page_num va 0)"
    obtain a st1 where [simp]: "y = (a, st1)" by (cases y)
    from y obtain t where v1: "vm_inv bf lo root st1" and x1: "vm_ext bf lo root st st1"
      and l1: "same_leaves root st st1" and t: "tab (ram st1) root [page_num va 2, page_num va 1] = Some t"
      and a: "a = t + 8 * page_num va 0" by (auto simp del: tab.simps)
    have nv: "\<not> is_valid (read64 (ram st1) a)"
      using entry_read [OF t] same_leaves_entry [OF l1, of va] P(7) [of 0] a by (auto split: if_splits)
    let ?st2 = "st1\<lparr>ram := write64 (ram st1) a (write_perm pa perm)\<rparr>"
    note W = write_entry_ok [OF v1 t, of "write_perm pa perm", folded a]
    have wf: "pt_wf (ram st1) root" using v1 by (simp add: vm_inv_def)
    have e: "entry (ram ?st2) root va' =
        (if va' div PGSIZE = va div PGSIZE then Some (write_perm pa perm) else entry (ram st) root va')"
      if "va' < 2 ^ 39" for va'
      using entry_write [OF wf t va39 that, of "write_perm pa perm", folded a] is_valid_write_perm [OF P(3,4)]
        same_leaves_entry [OF l1, of va'] by simp
    have ap: "add_page va = Ret (va + PGSIZE)" "add_page pa = Ret (pa + PGSIZE)"
      using va P(6) by (auto simp: add_page_def uadd_def layout_defs usize_lim_def)
    have "oom_or (\<lambda>(ok, st'). ok \<and> vm_inv bf lo root st' \<and> vm_ext bf lo root ?st2 st' \<and>
      mapped root (va + PGSIZE) (pa + PGSIZE) n perm ?st2 st') (map_loop bf root perm n ?st2 (va + PGSIZE) (pa + PGSIZE))"
    proof (rule Suc.IH [OF W(1) aligned_add [OF P(2)] aligned_add [OF P(3)] P(4)])
      fix k assume k: "k < n"
      have "va + PGSIZE + k * PGSIZE + PGSIZE \<le> va + Suc n * PGSIZE"
        using mult_le_mono1 [of "Suc (Suc k)" "Suc n" PGSIZE] k by simp
      then have "va + PGSIZE + k * PGSIZE < 2 ^ 39" using P(5) by (simp add: MAXVA_def)
      moreover have "(va + PGSIZE + k * PGSIZE) div PGSIZE \<noteq> va div PGSIZE"
        by (simp add: PGSIZE_def)
      ultimately show "entry (ram ?st2) root (va + PGSIZE + k * PGSIZE) = None"
        using e P(7) [of "Suc k"] k by (simp add: algebra_simps)
    qed (use P(5,6) in \<open>auto simp: algebra_simps\<close>)
    then show "oom_or (\<lambda>(ok, st'). ok \<and> vm_inv bf lo root st' \<and> vm_ext bf lo root st st' \<and>
        mapped root va pa (Suc n) perm st st')
      (case y of (a, st1) \<Rightarrow> if is_valid (read64 (ram st1) a) then Panic ''remap''
        else let st2 = st1\<lparr>ram := write64 (ram st1) a (write_perm pa perm)\<rparr> in
          bnd (add_page va) (\<lambda>va'. bnd (add_page pa) (\<lambda>pa'. map_loop bf root perm n st2 va' pa')))"
      using nv ap by (simp add: Let_def)
        (erule oom_or_mono, clarsimp, blast intro: vm_ext_trans [OF x1] vm_ext_trans [OF W(2)] mapped_Suc [OF P(2) e])
  qed
qed

end

text \<open>Rounding, and the number of pages that an address range touches.\<close>

lemma pg_round_up_eq:
  "a + PGSIZE < usize_lim \<Longrightarrow> pg_round_up a = Ret ((a + PGSIZE - 1) div PGSIZE * PGSIZE)"
  by (simp add: pg_round_up_def uadd_def pg_round_down_eq PGSIZE_def)

definition npages :: "nat \<Rightarrow> nat \<Rightarrow> nat" where
  "npages va sz = (va + sz + PGSIZE - 1) div PGSIZE - va div PGSIZE"

lemma npages_page: "is_page_aligned va \<Longrightarrow> npages va PGSIZE = 1"
  by (auto simp: npages_def is_page_aligned_def PGSIZE_def)

lemma round_aligned [simp]: "is_page_aligned a \<Longrightarrow> a div PGSIZE * PGSIZE = a"
  by (auto simp: is_page_aligned_def)

lemma aligned_page [simp]: "is_page_aligned (a div PGSIZE * PGSIZE)"
  by (simp add: is_page_aligned_def)

context buddy_bits
begin

lemma pgt_map_ok:
  assumes v: "vm_inv bf lo root st" and al: "is_page_aligned pa" and perm: "perm < 0x400"
    and r: "va + sz \<le> MAXVA + PGSIZE" "pa + npages va sz * PGSIZE < usize_lim"
    and e: "\<And>k. k < npages va sz \<Longrightarrow> entry (ram st) root (va div PGSIZE * PGSIZE + k * PGSIZE) = None"
  shows "oom_or (\<lambda>(ok, st'). ok \<and> vm_inv bf lo root st' \<and> vm_ext bf lo root st st' \<and>
    mapped root (va div PGSIZE * PGSIZE) pa (npages va sz) perm st st') (pgt_map bf st root va pa sz perm)"
proof -
  have g: "0 < PGSIZE" by (simp add: PGSIZE_def)
  have l: "va + sz + PGSIZE < usize_lim" "va < usize_lim" using r(1) by (auto simp: layout_defs usize_lim_def)
  have "npages va sz * PGSIZE = (va + sz + PGSIZE - 1) div PGSIZE * PGSIZE - va div PGSIZE * PGSIZE"
    by (simp add: npages_def diff_mult_distrib)
  then have n: "((va + sz + PGSIZE - 1) div PGSIZE * PGSIZE - va div PGSIZE * PGSIZE) div PGSIZE = npages va sz"
    using g by (metis nonzero_mult_div_cancel_right less_numeral_extra(3))
  have "(va + sz + PGSIZE - 1) div PGSIZE \<le> MAXVA div PGSIZE + 1"
    using div_le_mono [OF r(1), of PGSIZE] r(1) by (simp add: layout_defs)
  moreover have "va div PGSIZE \<le> (va + sz + PGSIZE - 1) div PGSIZE" by (rule div_le_mono) (use g in simp)
  ultimately have "va div PGSIZE + npages va sz \<le> MAXVA div PGSIZE + 1" by (simp add: npages_def)
  from mult_le_mono1 [OF this, of PGSIZE]
  have b: "va div PGSIZE * PGSIZE + npages va sz * PGSIZE \<le> MAXVA + PGSIZE"
    by (simp add: layout_defs algebra_simps)
  have "pgt_map bf st root va pa sz perm =
      map_loop bf root perm (npages va sz) st (va div PGSIZE * PGSIZE) pa"
    using l by (simp add: pgt_map_def uadd_def pg_round_up_eq pg_round_down_eq Let_def n [unfolded One_nat_def])
  then show ?thesis using map_loop_ok [OF v aligned_page al perm b r(2) e] by simp
qed

end

text \<open>What the routines keep: a page in use that is not a table keeps its contents.\<close>

lemma pages_aligned: "p \<in> pages bf lo h \<Longrightarrow> is_page_aligned p"
  by (simp add: pages_def is_page_aligned_def)

lemma ext_keeps_page:
  assumes x: "vm_ext bf lo root st st'" and v': "vm_inv bf lo root st'"
    and p: "p \<in> pages bf lo (heap st)" "p \<notin> tables (ram st) root" and c: "in_page p c"
  shows "ram st' c = ram st c" "p \<notin> tables (ram st') root"
proof -
  note X = vm_extD [OF x]
  show t: "p \<notin> tables (ram st') root" using X(3) p by auto
  show "ram st' c = ram st c"
  proof (rule X(4))
    fix t assume "t \<in> tables (ram st') root"
    then show "\<not> in_page t c"
      using in_page_inj [OF _ pages_aligned [OF p(1)] _ c, of t] t v' by (auto simp: vm_inv_def pt_wf_def)
  next
    fix q assume "q \<in> pages bf lo (heap st')" "q \<notin> pages bf lo (heap st)"
    then show "\<not> in_page q c"
      using in_page_inj [OF pages_aligned pages_aligned [OF p(1)] _ c, of q] p(1) by auto
  qed
qed

text \<open>
  Filling a range of page numbers \<open>q ..< e\<close> with new pages. \<open>f v\<close> is the page that is mapped at the
  page number \<open>v\<close>: new, not a table, different for different \<open>v\<close>, with permissions \<open>perm v\<close> and
  contents \<open>cont v\<close>.
\<close>

definition filled :: "8 word bitops \<Rightarrow> nat \<Rightarrow> nat \<Rightarrow> nat \<Rightarrow> nat \<Rightarrow> (nat \<Rightarrow> 64 word) \<Rightarrow> (nat \<Rightarrow> nat \<Rightarrow> 64 word) \<Rightarrow>
    vm \<Rightarrow> vm \<Rightarrow> bool" where
  "filled bf lo root q e perm cont st st' \<longleftrightarrow> (\<exists>f. inj_on f {q ..< e} \<and>
     (\<forall>va < 2 ^ 39. entry (ram st') root va = (if q \<le> va div PGSIZE \<and> va div PGSIZE < e
        then Some (write_perm (f (va div PGSIZE)) (perm (va div PGSIZE))) else entry (ram st) root va)) \<and>
     (\<forall>v \<in> {q ..< e}. is_page_aligned (f v) \<and> f v \<in> pages bf lo (heap st') \<and> f v \<notin> pages bf lo (heap st) \<and>
        f v \<notin> tables (ram st') root \<and> (\<forall>j < 512. ram st' (f v div 8 + j) = cont v j)))"

definition new_page_at :: "8 word bitops \<Rightarrow> nat \<Rightarrow> nat \<Rightarrow> nat \<Rightarrow> 64 word \<Rightarrow> (nat \<Rightarrow> 64 word) \<Rightarrow> nat \<Rightarrow> vm \<Rightarrow> vm \<Rightarrow> bool" where
  "new_page_at bf lo root q perm cont p st st' \<longleftrightarrow> vm_inv bf lo root st' \<and> vm_ext bf lo root st st' \<and>
     mapped root (q * PGSIZE) p 1 perm st st' \<and> is_page_aligned p \<and> p \<in> pages bf lo (heap st') \<and>
     p \<notin> pages bf lo (heap st) \<and> p \<notin> tables (ram st') root \<and> (\<forall>j < 512. ram st' (p div 8 + j) = cont j)"

lemma zero_page_idem: "zero_page (zero_page m p) p = zero_page m p"
  by (auto simp: zero_page_def)

lemma urwx_lt: "urwx < 0x400"
  by (simp add: urwx_def PTE_W_def PTE_R_def PTE_X_def PTE_U_def push_bit_eq_mult)

lemma page_range: "q * PGSIZE \<le> va \<and> va < q * PGSIZE + 1 * PGSIZE \<longleftrightarrow> va div PGSIZE = q"
  by (auto simp: PGSIZE_def)

lemma mapped_one:
  assumes "mapped root (q * PGSIZE) p 1 perm st st1" "va < 2 ^ 39"
  shows "entry (ram st1) root va = (if va div PGSIZE = q then Some (write_perm p perm) else entry (ram st) root va)"
proof -
  have "va div PGSIZE = q \<Longrightarrow> (va - q * PGSIZE) div PGSIZE = 0"
    by (auto simp: minus_div_mult_eq_mod PGSIZE_def)
  then show ?thesis using assms unfolding mapped_def page_range by auto
qed

lemma in_page_cell [simp]: "j < 512 \<Longrightarrow> in_page p (p div 8 + j)"
  by (simp add: in_page_def)

lemma filled_Suc:
  assumes n: "new_page_at bf lo root q (perm q) (cont q) p st st1"
    and v2: "vm_inv bf lo root st2" and x2: "vm_ext bf lo root st1 st2"
    and g: "filled bf lo root (Suc q) e perm cont st1 st2" and q: "q < e"
  shows "filled bf lo root q e perm cont st st2"
proof -
  from n have x1: "vm_ext bf lo root st st1" and e1: "mapped root (q * PGSIZE) p 1 (perm q) st st1"
    and p: "is_page_aligned p" "p \<in> pages bf lo (heap st1)" "p \<notin> pages bf lo (heap st)" "p \<notin> tables (ram st1) root"
    and c: "\<And>j. j < 512 \<Longrightarrow> ram st1 (p div 8 + j) = cont q j" by (auto simp: new_page_at_def)
  from g obtain f where inj: "inj_on f {Suc q ..< e}"
    and E: "\<And>va. va < 2 ^ 39 \<Longrightarrow> entry (ram st2) root va = (if Suc q \<le> va div PGSIZE \<and> va div PGSIZE < e
        then Some (write_perm (f (va div PGSIZE)) (perm (va div PGSIZE))) else entry (ram st1) root va)"
    and F: "\<And>v. v \<in> {Suc q ..< e} \<Longrightarrow> is_page_aligned (f v) \<and> f v \<in> pages bf lo (heap st2) \<and>
        f v \<notin> pages bf lo (heap st1) \<and> f v \<notin> tables (ram st2) root \<and> (\<forall>j < 512. ram st2 (f v div 8 + j) = cont v j)"
    unfolding filled_def by auto
  have r: "{q ..< e} = insert q {Suc q ..< e}" using q by auto
  have np: "f v \<noteq> p" if "v \<in> {Suc q ..< e}" for v using F [OF that] p(2) by auto
  have "inj_on (f(q := p)) {q ..< e}"
    unfolding r using np inj by (fastforce simp: inj_on_def)
  moreover have "entry (ram st2) root va = (if q \<le> va div PGSIZE \<and> va div PGSIZE < e
      then Some (write_perm ((f(q := p)) (va div PGSIZE)) (perm (va div PGSIZE))) else entry (ram st) root va)"
    if "va < 2 ^ 39" for va
    using E [OF that] mapped_one [OF e1 that] q by auto
  moreover have "is_page_aligned ((f(q := p)) v) \<and> (f(q := p)) v \<in> pages bf lo (heap st2) \<and>
      (f(q := p)) v \<notin> pages bf lo (heap st) \<and> (f(q := p)) v \<notin> tables (ram st2) root \<and>
      (\<forall>j < 512. ram st2 ((f(q := p)) v div 8 + j) = cont v j)"
    if "v \<in> {q ..< e}" for v
  proof (cases "v = q")
    case True
    then show ?thesis
      using p(1-3) c ext_keeps_page [OF x2 v2 p(2,4)] in_page_cell [of 0 p] vm_extD(1) [OF x2] by auto
  next
    case False
    then show ?thesis using F [of v] that vm_extD(1) [OF x1] by auto
  qed
  ultimately show ?thesis unfolding filled_def by blast
qed

context buddy_bits
begin

text \<open>One round: a new page, filled by \<open>fill\<close>, mapped at the page number \<open>q\<close>.\<close>

lemma page_round_ok:
  assumes v: "vm_inv bf lo root st" and q: "q * PGSIZE \<le> MAXVA" and e: "entry (ram st) root (q * PGSIZE) = None"
    and perm: "perm < 0x400" and fill: "\<And>p m c. \<not> in_page p c \<Longrightarrow> fill p m c = m c"
    and cont: "\<And>p j. is_page_aligned p \<Longrightarrow> p \<notin> pages bf lo (heap st) \<Longrightarrow> j < 512 \<Longrightarrow>
      fill p (zero_page (ram st) p) (p div 8 + j) = cont j"
  shows "oom_or (\<lambda>(p, st1). oom_or (\<lambda>(ok, st2). ok \<and> new_page_at bf lo root q perm cont p st st2)
    (pgt_map bf (st1\<lparr>ram := fill p (ram st1)\<rparr>) root (q * PGSIZE) p PGSIZE perm)) (new_zeroed bf st)"
proof (rule oom_or_mono [OF new_zeroed_ok [OF v]], clarify)
  fix p st0
  assume v0: "vm_inv bf lo root st0" and x0: "vm_ext bf lo root st st0" and l0: "same_leaves root st st0"
    and f: "fresh_page bf lo root st p st0"
  define st1 where "st1 = st0\<lparr>ram := fill p (ram st0)\<rparr>"
  from f have p: "is_page_aligned p" "p + PGSIZE < usize_lim" "p \<in> pages bf lo (heap st1)" "p \<notin> pages bf lo (heap st)"
    "p \<notin> tables (ram st0) root" and z: "ram st0 = zero_page (ram st) p"
    by (auto simp: fresh_page_def st1_def)
  have wf0: "pt_wf (ram st0) root" using v0 by (simp add: vm_inv_def)
  note Z = page_frame [OF wf0 p(1,5), of "fill p (ram st0)", OF fill]
  have v1: "vm_inv bf lo root st1" using v0 Z by (simp add: vm_inv_def st1_def)
  have l1: "same_leaves root st st1" using l0 Z(3) by (simp add: same_leaves_def st1_def)
  have x1: "vm_ext bf lo root st st1"
  proof (rule vm_extI)
    fix c assume "\<And>t. t \<in> tables (ram st1) root \<Longrightarrow> \<not> in_page t c"
      and o: "\<And>p. p \<in> pages bf lo (heap st1) \<Longrightarrow> p \<notin> pages bf lo (heap st) \<Longrightarrow> \<not> in_page p c"
    then show "ram st1 c = ram st c"
      using o [OF p(3,4)] fill z by (simp add: st1_def zero_page_out)
  qed (use vm_extD(1-3) [OF x0] Z in \<open>auto simp: st1_def\<close>)
  have pt: "p \<notin> tables (ram st1) root" using p(5) Z by (simp add: st1_def)
  have al: "is_page_aligned (q * PGSIZE)" by (simp add: is_page_aligned_def)
  note n = npages_page [OF al] and d = round_aligned [OF al]
  show "oom_or (\<lambda>(ok, st2). ok \<and> new_page_at bf lo root q perm cont p st st2)
    (pgt_map bf (st0\<lparr>ram := fill p (ram st0)\<rparr>) root (q * PGSIZE) p PGSIZE perm)"
    unfolding st1_def [symmetric]
  proof (rule oom_or_mono [OF pgt_map_ok [OF v1 p(1) perm, of "q * PGSIZE" PGSIZE, unfolded n d]])
    fix k :: nat assume "k < 1"
    then show "entry (ram st1) root (q * PGSIZE + k * PGSIZE) = None"
      using e same_leaves_entry [OF l1] by simp
  next
    fix y assume "case y of (ok, st2) \<Rightarrow> ok \<and> vm_inv bf lo root st2 \<and> vm_ext bf lo root st1 st2 \<and>
      mapped root (q * PGSIZE) p 1 perm st1 st2"
    then obtain st2 where y: "y = (True, st2)" and v2: "vm_inv bf lo root st2" and x2: "vm_ext bf lo root st1 st2"
      and m: "mapped root (q * PGSIZE) p 1 perm st1 st2" by (cases y) auto
    have "mapped root (q * PGSIZE) p 1 perm st st2"
      using m same_leaves_entry [OF l1] by (simp add: mapped_def)
    moreover have "ram st2 (p div 8 + j) = cont j" if "j < 512" for j
      using ext_keeps_page(1) [OF x2 v2 p(3) pt in_page_cell [OF that]] cont [OF p(1,4) that] z by (simp add: st1_def)
    moreover have "p \<notin> tables (ram st2) root" "p \<in> pages bf lo (heap st2)"
      using ext_keeps_page(2) [OF x2 v2 p(3) pt in_page_cell [of 0]] vm_extD(1) [OF x2] p(3) by auto
    ultimately show "case y of (ok, st2) \<Rightarrow> ok \<and> new_page_at bf lo root q perm cont p st st2"
      using y v2 vm_ext_trans [OF x1 x2] p(1,4) by (simp add: new_page_at_def)
  qed (use q p(2) in auto)
qed

end

context buddy_bits
begin

lemma uvm_alloc_loop_ok:
  assumes "vm_inv bf lo root st" "new_size \<le> MAXVA + PGSIZE"
    "\<And>v. q \<le> v \<Longrightarrow> v * PGSIZE < new_size \<Longrightarrow> entry (ram st) root (v * PGSIZE) = None"
  shows "oom_or (\<lambda>(r, st'). r = Some new_size \<and> vm_inv bf lo root st' \<and> vm_ext bf lo root st st' \<and>
    filled bf lo root q ((new_size + PGSIZE - 1) div PGSIZE) (\<lambda>_. urwx) (\<lambda>_ _. 0) st st')
    (uvm_alloc_loop bf st root old_size (q * PGSIZE) new_size)"
  using assms
proof (induction "(new_size + PGSIZE - 1) div PGSIZE - q" arbitrary: q st)
  let ?e = "(new_size + PGSIZE - 1) div PGSIZE"
  case (0 q)
  then have "\<not> q * PGSIZE < new_size" by (simp add: PGSIZE_def)
  then show ?case using 0 by (subst uvm_alloc_loop.simps) (auto simp: filled_def)
next
  let ?e = "(new_size + PGSIZE - 1) div PGSIZE"
  case (Suc n q)
  have q: "q < ?e" using Suc.hyps(2) by simp
  then have lt: "q * PGSIZE < new_size" by (simp add: PGSIZE_def)
  have qm: "q * PGSIZE \<le> MAXVA" using lt Suc.prems(2) by (simp add: layout_defs)
  have n: "n = ?e - Suc q" using Suc.hyps(2) by simp
  have e: "entry (ram st) root (q * PGSIZE) = None" using Suc.prems(3) lt by simp
  let ?Q = "\<lambda>(r, st'). r = Some new_size \<and> vm_inv bf lo root st' \<and> vm_ext bf lo root st st' \<and>
    filled bf lo root q ?e (\<lambda>_. urwx) (\<lambda>_ _. 0) st st'"
  show ?case unfolding uvm_alloc_loop.simps [of bf st root old_size "q * PGSIZE"] if_P [OF lt]
  proof (rule oom_or_bnd [OF page_round_ok [OF Suc.prems(1) qm e urwx_lt,
        where fill = "\<lambda>p m. zero_page m p" and cont = "\<lambda>_. 0"]])
    fix y assume y: "case y of (p, st1) \<Rightarrow> oom_or (\<lambda>(ok, st2). ok \<and> new_page_at bf lo root q urwx (\<lambda>_. 0) p st st2)
      (pgt_map bf (st1\<lparr>ram := zero_page (ram st1) p\<rparr>) root (q * PGSIZE) p PGSIZE urwx)"
    obtain p st1 where ps: "y = (p, st1)" by (cases y)
    from y have R: "oom_or (\<lambda>(ok, st2). ok \<and> new_page_at bf lo root q urwx (\<lambda>_. 0) p st st2)
      (pgt_map bf (st1\<lparr>ram := zero_page (ram st1) p\<rparr>) root (q * PGSIZE) p PGSIZE urwx)" by (simp add: ps)
    show "oom_or ?Q (case y of (p, st1) \<Rightarrow> let st2 = st1\<lparr>ram := zero_page (ram st1) p\<rparr> in
      bnd (pgt_map bf st2 root (q * PGSIZE) p PGSIZE urwx) (\<lambda>(ok, st3).
        if \<not> ok then bnd (uvm_dealloc st3 root (q * PGSIZE) old_size) (\<lambda>(_, st4). Ret (None, st4))
        else uvm_alloc_loop bf st3 root old_size (q * PGSIZE + PGSIZE) new_size))"
      unfolding Let_def ps prod.case
    proof (rule oom_or_bnd [OF R], clarify)
      fix ok st2
      assume ok: "ok" and np: "new_page_at bf lo root q urwx (\<lambda>_. 0) p st st2"
      then have v2: "vm_inv bf lo root st2" and x2: "vm_ext bf lo root st st2"
        and m: "mapped root (q * PGSIZE) p 1 urwx st st2" by (auto simp: new_page_at_def)
      have n2: "entry (ram st2) root (v * PGSIZE) = None" if "Suc q \<le> v" "v * PGSIZE < new_size" for v
      proof -
        have "v * PGSIZE < 2 ^ 39" using that(2) Suc.prems(2) by (simp add: layout_defs)
        moreover have "\<not> v * PGSIZE < q * PGSIZE + 1 * PGSIZE" using that(1) by (simp add: PGSIZE_def)
        ultimately show ?thesis using m that Suc.prems(3) [of v] unfolding mapped_def by simp
      qed
      have c: "q * PGSIZE + PGSIZE = Suc q * PGSIZE" and nok: "\<not> \<not> ok" using ok by simp_all
      from Suc.hyps(1) [OF n v2 Suc.prems(2) n2]
      show "oom_or ?Q (if \<not> ok then bnd (uvm_dealloc st2 root (q * PGSIZE) old_size) (\<lambda>(_, st4). Ret (None, st4))
        else uvm_alloc_loop bf st2 root old_size (q * PGSIZE + PGSIZE) new_size)"
        unfolding c if_not_P [OF nok]
        by (rule oom_or_mono) (use filled_Suc [OF np] q vm_ext_trans [OF x2] in auto)
    qed
  qed (auto simp: zero_page_def in_page_def PGSIZE_def)
qed

lemma uvm_alloc_ok:
  assumes "vm_inv bf lo root st" "old_size \<le> new_size" "new_size \<le> MAXVA + PGSIZE"
    "\<And>v. (old_size + PGSIZE - 1) div PGSIZE \<le> v \<Longrightarrow> v * PGSIZE < new_size \<Longrightarrow> entry (ram st) root (v * PGSIZE) = None"
  shows "oom_or (\<lambda>(r, st'). r = Some new_size \<and> vm_inv bf lo root st' \<and> vm_ext bf lo root st st' \<and>
    filled bf lo root ((old_size + PGSIZE - 1) div PGSIZE) ((new_size + PGSIZE - 1) div PGSIZE) (\<lambda>_. urwx) (\<lambda>_ _. 0) st st')
    (uvm_alloc bf st root old_size new_size)"
proof -
  have "old_size + PGSIZE < usize_lim" using assms(2,3) by (simp add: layout_defs usize_lim_def)
  from pg_round_up_eq [OF this] show ?thesis
    unfolding uvm_alloc_def using uvm_alloc_loop_ok [OF assms(1,3,4)] assms(2) by simp
qed

end

end
