(* ===== verification/UvmCopy.thy ===== *)
theory UvmCopy
  imports PageTableMap
begin

text \<open>
  \<open>uvm_copy\<close>, the copy of a process image: the child gets new pages with the contents and the
  permissions of the pages of the parent, and the parent is not changed.
\<close>

text \<open>Copying a page word by word.\<close>

lemma pgt_write_out: "\<not> in_page p c \<Longrightarrow> pgt_write m p q c = m c"
proof -
  assume c: "\<not> in_page p c"
  have "n \<le> 512 \<Longrightarrow> fold (\<lambda>i m. write64 m (p + 8 * i) (pte_at m q i)) [0..<n] m c = m c" for n
    using c by (induction n) (auto simp: write64_def in_page_def)
  then show ?thesis by (simp add: pgt_write_def)
qed

lemma pgt_write_in:
  assumes "is_page_aligned p" "is_page_aligned q" "p \<noteq> q" "j < 512"
  shows "pgt_write m p q (p div 8 + j) = m (q div 8 + j)"
proof -
  have o: "q div 8 + i \<noteq> p div 8 + k" if "i < 512" "k < 512" for i k
    using cell_eq [OF assms(2,1) that] assms(3) by auto
  have "fold (\<lambda>i m. write64 m (p + 8 * i) (pte_at m q i)) [0..<n] m (p div 8 + j) = (if j < n then m (q div 8 + j) else m (p div 8 + j)) \<and>
    (\<forall>i < 512. fold (\<lambda>i m. write64 m (p + 8 * i) (pte_at m q i)) [0..<n] m (q div 8 + i) = m (q div 8 + i))"
    if "n \<le> 512" for n
    using that
  proof (induction n)
    case (Suc n)
    have "n < 512" using Suc.prems by simp
    then have "q div 8 + i \<noteq> n + p div 8" if "i < 512" for i using o [OF that, of n] by (simp add: add.commute)
    then show ?case
      using Suc assms(4) \<open>n < 512\<close>
      by (simp add: write64_def pte_at_def read64_def less_Suc_eq add.commute [of n "q div 8"])
  qed simp
  from this [of 512] assms(4) show ?thesis by (simp add: pgt_write_def)
qed

text \<open>
  What \<open>uvm_copy\<close> needs of the parent: its tables and the pages it maps below page number \<open>e\<close> are pages
  of the heap and not tables of the child.
\<close>

definition parent_ok :: "8 word bitops \<Rightarrow> nat \<Rightarrow> nat \<Rightarrow> nat \<Rightarrow> nat \<Rightarrow> vm \<Rightarrow> bool" where
  "parent_ok bf lo root child e st \<longleftrightarrow> pt_wf (ram st) root \<and>
     (\<forall>t \<in> tables (ram st) root. t \<in> pages bf lo (heap st) \<and> t \<notin> tables (ram st) child) \<and>
     (\<forall>v < e. \<exists>p. entry (ram st) root (v * PGSIZE) = Some p \<and>
        as_pagetable p \<in> pages bf lo (heap st) \<and> as_pagetable p \<notin> tables (ram st) child)"

definition source_page :: "vm \<Rightarrow> nat \<Rightarrow> nat \<Rightarrow> nat" where
  "source_page st root v = as_pagetable (the (entry (ram st) root (v * PGSIZE)))"

definition source_perm :: "vm \<Rightarrow> nat \<Rightarrow> nat \<Rightarrow> 64 word" where
  "source_perm st root v = as_flags (the (entry (ram st) root (v * PGSIZE)))"

definition source_word :: "vm \<Rightarrow> nat \<Rightarrow> nat \<Rightarrow> nat \<Rightarrow> 64 word" where
  "source_word st root v j = ram st (source_page st root v div 8 + j)"

lemma as_flags_lt: "as_flags p < 0x400"
proof -
  have "p AND 0x3FF \<le> (0x3FF :: 64 word)" by (simp add: word_and_le1)
  then show ?thesis unfolding as_flags_def by (rule order.strict_trans1) simp
qed

lemma ext_keeps_other:
  assumes x: "vm_ext bf lo child st st'" and v': "vm_inv bf lo child st'" and wf: "pt_wf (ram st) root"
    and t: "\<forall>t \<in> tables (ram st) root. t \<in> pages bf lo (heap st) \<and> t \<notin> tables (ram st) child"
  shows "pt_wf (ram st') root" "tables (ram st') root = tables (ram st) root"
    "entry (ram st') root va = entry (ram st) root va"
proof -
  have f: "pte_at (ram st') a i = pte_at (ram st) a i" if a: "a \<in> tables (ram st) root" "i < 512" for a i
  proof -
    have "is_page_aligned a" using wf a(1) by (auto simp: pt_wf_def)
    then show ?thesis
      using ext_keeps_page(1) [OF x v' _ _ in_page_pte [OF _ a(2)], of a] t a(1) by (simp add: pte_at_def read64_def)
  qed
  show "pt_wf (ram st') root" "tables (ram st') root = tables (ram st) root"
    using tables_frame(1,2) [OF wf f] by auto
  show "entry (ram st') root va = entry (ram st) root va"
    using tables_frame(3) [OF wf f] unfolding entry_def using page_num_lt by blast
qed

lemma ext_keeps_parent:
  assumes x: "vm_ext bf lo child st st'" and v': "vm_inv bf lo child st'" and p: "parent_ok bf lo root child e st"
  shows "parent_ok bf lo root child e st'"
    and "v < e \<Longrightarrow> source_page st' root v = source_page st root v" "v < e \<Longrightarrow> source_perm st' root v = source_perm st root v"
    and "v < e \<Longrightarrow> j < 512 \<Longrightarrow> source_word st' root v j = source_word st root v j"
    and "entry (ram st') root va = entry (ram st) root va"
proof -
  have wf: "pt_wf (ram st) root"
    and t: "\<forall>t \<in> tables (ram st) root. t \<in> pages bf lo (heap st) \<and> t \<notin> tables (ram st) child"
    using p by (auto simp: parent_ok_def)
  note O = ext_keeps_other [OF x v' wf t] and X = vm_extD(1,3) [OF x]
  have keep: "q \<in> pages bf lo (heap st') \<and> q \<notin> tables (ram st') child"
    if "q \<in> pages bf lo (heap st)" "q \<notin> tables (ram st) child" for q
    using X that by auto
  show "parent_ok bf lo root child e st'"
  proof -
    have "\<exists>p. entry (ram st) root (v * PGSIZE) = Some p \<and> as_pagetable p \<in> pages bf lo (heap st') \<and>
        as_pagetable p \<notin> tables (ram st') child" if v: "v < e" for v
    proof -
      obtain p' where "entry (ram st) root (v * PGSIZE) = Some p'" "as_pagetable p' \<in> pages bf lo (heap st)"
        "as_pagetable p' \<notin> tables (ram st) child" using p v by (auto simp: parent_ok_def)
      then show ?thesis using keep [of "as_pagetable p'"] by simp
    qed
    then show ?thesis using O(1) t keep unfolding parent_ok_def O(2,3) by simp
  qed
  show s: "source_page st' root v = source_page st root v" "source_perm st' root v = source_perm st root v" for v
    by (simp_all add: source_page_def source_perm_def O)
  show "entry (ram st') root va = entry (ram st) root va" by (rule O)
  assume "v < e" and j: "j < 512"
  then have "source_page st root v \<in> pages bf lo (heap st)" "source_page st root v \<notin> tables (ram st) child"
    using p by (auto simp: parent_ok_def source_page_def)
  from ext_keeps_page(1) [OF x v' this in_page_cell [OF j]]
  show "source_word st' root v j = source_word st root v j" unfolding source_word_def s .
qed

lemma filled_cong:
  assumes "filled bf lo root q e perm cont st st'" "\<And>v. q \<le> v \<Longrightarrow> v < e \<Longrightarrow> perm v = perm' v"
    "\<And>v j. q \<le> v \<Longrightarrow> v < e \<Longrightarrow> j < 512 \<Longrightarrow> cont v j = cont' v j"
  shows "filled bf lo root q e perm' cont' st st'"
  using assms unfolding filled_def by (auto cong: if_cong conj_cong)

lemma entry_translate:
  assumes "entry m root va = Some p" "va \<le> MAXVA"
  shows "\<exists>a. translate m root va = Some a \<and> read64 m a = p \<and> is_valid p"
  using assms by (auto simp: entry_def leaf_def translate_def Let_def pte_at_def split: option.splits if_splits)

context buddy_bits
begin

lemma uvm_copy_loop_ok:
  assumes "vm_inv bf lo child st" "parent_ok bf lo root child e st" "e * PGSIZE \<le> MAXVA + PGSIZE" "q \<le> e"
    "\<And>v. q \<le> v \<Longrightarrow> v < e \<Longrightarrow> entry (ram st) child (v * PGSIZE) = None"
  shows "oom_or (\<lambda>(r, st'). r = Inr () \<and> vm_inv bf lo child st' \<and> vm_ext bf lo child st st' \<and>
    filled bf lo child q e (source_perm st root) (source_word st root) st st')
    (uvm_copy_loop bf st root child (e * PGSIZE) (q * PGSIZE))"
  using assms
proof (induction "e - q" arbitrary: q st)
  case (0 q)
  then have "q = e" by simp
  then show ?case using 0 by (subst uvm_copy_loop.simps) (auto simp: filled_def)
next
  case (Suc n q)
  have q: "q < e" using Suc.hyps(2) by simp
  have n: "n = e - Suc q" using Suc.hyps(2) by simp
  have ne: "q * PGSIZE \<noteq> e * PGSIZE" using q by (simp add: PGSIZE_def)
  have "Suc q * PGSIZE \<le> e * PGSIZE" by (rule mult_le_mono1) (use q in simp)
  then have qm: "q * PGSIZE \<le> MAXVA" "q * PGSIZE + PGSIZE < usize_lim"
    using Suc.prems(3) by (auto simp: layout_defs usize_lim_def)
  have ce: "entry (ram st) child (q * PGSIZE) = None" using Suc.prems(5) q by simp
  from Suc.prems(2) q obtain pp where pp: "entry (ram st) root (q * PGSIZE) = Some pp"
    "as_pagetable pp \<in> pages bf lo (heap st)" by (auto simp: parent_ok_def)
  obtain a where a: "translate (ram st) root (q * PGSIZE) = Some a" "read64 (ram st) a = pp" "is_valid pp"
    using entry_translate [OF pp(1) qm(1)] by blast
  have src: "source_page st root q = as_pagetable pp" "source_perm st root q = as_flags pp"
    by (simp_all add: source_page_def source_perm_def pp(1))
  have cont: "pgt_write (zero_page (ram st) p) p (as_pagetable pp) (p div 8 + j) = source_word st root q j"
    if p: "is_page_aligned p" "p \<notin> pages bf lo (heap st)" "j < 512" for p j
  proof -
    have np: "p \<noteq> as_pagetable pp" using p(2) pp(2) by auto
    note al = pages_aligned [OF pp(2)]
    have "\<not> in_page p (as_pagetable pp div 8 + j)"
      using in_page_inj [OF p(1) al _ in_page_cell [OF p(3)]] np by blast
    then show ?thesis
      using pgt_write_in [OF p(1) al np p(3)] by (simp add: source_word_def src zero_page_out)
  qed
  let ?Q = "\<lambda>(r, st'). r = Inr () \<and> vm_inv bf lo child st' \<and> vm_ext bf lo child st st' \<and>
    filled bf lo child q e (source_perm st root) (source_word st root) st st'"
  show ?case
    unfolding uvm_copy_loop.simps [of bf st root child "e * PGSIZE" "q * PGSIZE"] if_not_P [OF ne]
      if_not_P [OF leD [OF qm(1)]] a(1) option.case Let_def a(2) if_not_P [OF not_not [THEN iffD2, OF a(3)]]
  proof (rule oom_or_bnd [OF page_round_ok [OF Suc.prems(1) qm(1) ce as_flags_lt [of pp],
        where fill = "\<lambda>p m. pgt_write m p (as_pagetable pp)" and cont = "source_word st root q"]])
    fix y assume y: "case y of (p, st1) \<Rightarrow> oom_or (\<lambda>(ok, st2). ok \<and> new_page_at bf lo child q (as_flags pp) (source_word st root q) p st st2)
      (pgt_map bf (st1\<lparr>ram := pgt_write (ram st1) p (as_pagetable pp)\<rparr>) child (q * PGSIZE) p PGSIZE (as_flags pp))"
    obtain p st1 where ps: "y = (p, st1)" by (cases y)
    from y have R: "oom_or (\<lambda>(ok, st2). ok \<and> new_page_at bf lo child q (as_flags pp) (source_word st root q) p st st2)
      (pgt_map bf (st1\<lparr>ram := pgt_write (ram st1) p (as_pagetable pp)\<rparr>) child (q * PGSIZE) p PGSIZE (as_flags pp))"
      by (simp add: ps)
    show "oom_or ?Q (case y of (p, st1) \<Rightarrow>
      bnd (pgt_map bf (st1\<lparr>ram := pgt_write (ram st1) p (as_pagetable pp)\<rparr>) child (q * PGSIZE) p PGSIZE (as_flags pp)) (\<lambda>(ok, st3).
        if \<not> ok then bnd (uvm_unmap st3 child 0 (q * PGSIZE div PGSIZE) True) (\<lambda>st4. Ret (Inl ''uvmcopy: Fail.'', st4))
        else if q * PGSIZE + PGSIZE < usize_lim then uvm_copy_loop bf st3 root child (e * PGSIZE) (q * PGSIZE + PGSIZE)
        else Panic ''attempt to add with overflow''))"
      unfolding ps prod.case
    proof (rule oom_or_bnd [OF R], clarify)
      fix ok st2
      assume ok: "ok" and np: "new_page_at bf lo child q (as_flags pp) (source_word st root q) p st st2"
      then have v2: "vm_inv bf lo child st2" and x2: "vm_ext bf lo child st st2"
        and m: "mapped child (q * PGSIZE) p 1 (as_flags pp) st st2" by (auto simp: new_page_at_def)
      note K = ext_keeps_parent [OF x2 v2 Suc.prems(2)]
      have n2: "entry (ram st2) child (v * PGSIZE) = None" if v: "Suc q \<le> v" "v < e" for v
      proof -
        have "Suc v * PGSIZE \<le> e * PGSIZE" by (rule mult_le_mono1) (use v(2) in simp)
        then have "v * PGSIZE < 2 ^ 39" using Suc.prems(3) by (simp add: layout_defs)
        from mapped_one [OF m this] show ?thesis using v Suc.prems(5) [of v] by (simp add: PGSIZE_def)
      qed
      have c: "q * PGSIZE + PGSIZE = Suc q * PGSIZE" by simp
      have "oom_or (\<lambda>(r, st'). r = Inr () \<and> vm_inv bf lo child st' \<and> vm_ext bf lo child st2 st' \<and>
          filled bf lo child (Suc q) e (source_perm st2 root) (source_word st2 root) st2 st')
        (uvm_copy_loop bf st2 root child (e * PGSIZE) (Suc q * PGSIZE))"
        by (rule Suc.hyps(1) [OF n v2 K(1) Suc.prems(3) _ n2]) (use q in auto)
      then have "oom_or ?Q (uvm_copy_loop bf st2 root child (e * PGSIZE) (Suc q * PGSIZE))"
      proof (rule oom_or_mono, clarify)
        fix st3 assume v3: "vm_inv bf lo child st3" and x3: "vm_ext bf lo child st2 st3"
          and f3: "filled bf lo child (Suc q) e (source_perm st2 root) (source_word st2 root) st2 st3"
        have "filled bf lo child (Suc q) e (source_perm st root) (source_word st root) st2 st3"
          by (rule filled_cong [OF f3]) (use K in auto)
        from filled_Suc [OF np [folded src(2)] v3 x3 this q]
        show "Inr () = Inr () \<and> vm_inv bf lo child st3 \<and> vm_ext bf lo child st st3 \<and>
          filled bf lo child q e (source_perm st root) (source_word st root) st st3"
          using v3 vm_ext_trans [OF x2 x3] by simp
      qed
      then show "oom_or ?Q (if \<not> ok then bnd (uvm_unmap st2 child 0 (q * PGSIZE div PGSIZE) True) (\<lambda>st4. Ret (Inl ''uvmcopy: Fail.'', st4))
        else if q * PGSIZE + PGSIZE < usize_lim then uvm_copy_loop bf st2 root child (e * PGSIZE) (q * PGSIZE + PGSIZE)
        else Panic ''attempt to add with overflow'')"
        using ok qm(2) by (simp only: c not_True_eq_False if_False if_True simp_thms)
    qed
  qed (use cont in \<open>auto simp: pgt_write_out\<close>)
qed

end

end
