(* ===== verification/PageSupply.thy ===== *)
theory PageSupply
  imports UvmCopy
begin

text \<open>
  When the heap suffices. \<open>spare bf s n\<close> says that at least \<open>n\<close> page-sized blocks overlap no block in
  use; every allocation of a page takes at most one of them. Mapping a page takes at most two tables,
  so the virtual memory routines return when three spare pages are left for every page they map.
\<close>

definition spare :: "8 word bitops \<Rightarrow> buddy_system \<Rightarrow> nat \<Rightarrow> bool" where
  "spare bf s n \<longleftrightarrow> (\<exists>k C. fits s PGSIZE k \<and> finite C \<and> n \<le> card C \<and>
     (\<forall>b \<in> C. blk_in (msz s) k b \<and> (\<forall>x \<in> used bf s. region s x \<inter> region s (k, b) = {})))"

definition supplied :: "8 word bitops \<Rightarrow> nat \<Rightarrow> nat \<Rightarrow> ('a \<times> vm) outcome \<Rightarrow> bool" where
  "supplied bf lo n x \<longleftrightarrow> (case x of
     Ret (_, st) \<Rightarrow> page_inv bf lo (heap st) \<and> spare bf (heap st) n | Panic e \<Rightarrow> e \<noteq> ''alloc error'')"

lemma spare_mono: "spare bf s n \<Longrightarrow> m \<le> n \<Longrightarrow> spare bf s m"
  unfolding spare_def by (meson le_trans)

lemma supplied_Ret [simp]: "supplied bf lo n (Ret (a, st)) \<longleftrightarrow> page_inv bf lo (heap st) \<and> spare bf (heap st) n"
  by (simp add: supplied_def)

lemma supplied_Panic [simp]: "supplied bf lo n (Panic e) \<longleftrightarrow> e \<noteq> ''alloc error''"
  by (simp add: supplied_def)

lemma supplied_bnd:
  assumes "supplied bf lo n x"
    "\<And>a st. x = Ret (a, st) \<Longrightarrow> page_inv bf lo (heap st) \<Longrightarrow> spare bf (heap st) n \<Longrightarrow> supplied bf lo k (f (a, st))"
  shows "supplied bf lo k (bnd x f)"
proof (cases x)
  case (Ret y)
  then show ?thesis using assms by (cases y) simp
qed (use assms(1) in simp)

lemma supplied_ok: "oom_or P x \<Longrightarrow> supplied bf lo n x \<Longrightarrow> \<exists>y. x = Ret y \<and> P y"
  by (cases x) (auto simp: oom_or_def)

lemma checked_no_oom: "uadd a b \<noteq> Panic ''alloc error''" "usub a b \<noteq> Panic ''alloc error''"
  "add_page a \<noteq> Panic ''alloc error''" "pg_round_up a \<noteq> Panic ''alloc error''"
  by (auto simp: uadd_def usub_def add_page_def pg_round_up_def bnd_eq_Panic)

lemma supplied_pure:
  assumes "x \<noteq> Panic ''alloc error''" "\<And>a. x = Ret a \<Longrightarrow> supplied bf lo k (f a)"
  shows "supplied bf lo k (bnd x f)"
  using assms by (cases x) auto

lemma region_same_size: "b \<noteq> c \<Longrightarrow> region s (k, b) \<inter> region s (k, c) = {}"
proof -
  assume "b \<noteq> c"
  then consider "b < c" | "c < b" by linarith
  then show ?thesis
  proof cases
    case 1
    then have "(b + 1) * bsz s k \<le> c * bsz s k" by (intro mult_le_mono1) simp
    then show ?thesis by (auto simp: region_def baddr_def)
  next
    case 2
    then have "(c + 1) * bsz s k \<le> b * bsz s k" by (intro mult_le_mono1) simp
    then show ?thesis by (auto simp: region_def baddr_def)
  qed
qed

context buddy_bits
begin

lemma spare_step:
  assumes i: "page_inv bf lo s" and sp: "spare bf s (Suc n)"
  shows "\<exists>p s'. box_alloc bf s page_layout = Ret (p, s') \<and> page_inv bf lo s' \<and> spare bf s' n"
proof -
  from i have b: "buddy_inv bf lo s" and l: "layout_ok s page_layout" by (auto simp: page_inv_def)
  have sz: "lsize page_layout = PGSIZE" by (simp add: page_layout_def)
  from sp obtain k C where C: "fits s PGSIZE k" "finite C" "Suc n \<le> card C"
    "\<And>b. b \<in> C \<Longrightarrow> blk_in (msz s) k b" "\<And>b x. b \<in> C \<Longrightarrow> x \<in> used bf s \<Longrightarrow> region s x \<inter> region s (k, b) = {}"
    by (auto simp: spare_def)
  obtain c where c: "c \<in> C" using C(3) by (metis card.empty ex_in_conv not_less_eq_eq zero_le)
  obtain p s' where A: "heap_alloc bf s page_layout = Ret (p, s')" "p \<noteq> 0"
    using alloc_complete [OF b l, of k c] C(1) C(4,5) [OF c] sz by auto
  with alloc_block [OF b l] obtain k' d where B: "buddy_inv bf lo s'" "same_geom s' s"
    "used bf s' = insert (k', d) (used bf s)" "fits s PGSIZE k'" unfolding heap_alloc_def sz by auto
  have [simp]: "k' = k" by (rule fits_unique [OF B(4) C(1)])
  have g: "fits s' = fits s" "msz s' = msz s" "region s' = region s" "layout_ok s' page_layout = layout_ok s page_layout"
    using B(2) by (auto simp: same_geom_def fits_def bsz_def msz_def region_def baddr_def layout_ok_def fun_eq_iff)
  have "spare bf s' n"
    unfolding spare_def g
  proof (intro exI [of _ k] exI [of _ "C - {d}"] conjI ballI)
    show "n \<le> card (C - {d})" using C(2,3) card_Diff1_le [of C d] by (cases "d \<in> C") auto
    fix b x assume b: "b \<in> C - {d}" and x: "x \<in> used bf s'"
    then show "region s x \<inter> region s (k, b) = {}"
      using C(5) [of b x] region_same_size [of d b s k] B(3) by auto
  qed (use C in auto)
  then show ?thesis using A B(1) l g(4) by (auto simp: box_alloc_def page_inv_def)
qed

lemma supplied_new:
  "page_inv bf lo (heap st) \<Longrightarrow> spare bf (heap st) (Suc n) \<Longrightarrow> supplied bf lo n (new_zeroed bf st)"
  using spare_step [of lo "heap st" n] by (auto simp: new_zeroed_def)

lemma supplied_walk:
  "page_inv bf lo (heap st) \<Longrightarrow> spare bf (heap st) (Suc n) \<Longrightarrow> supplied bf lo n (walk_alloc bf st pt i)"
  unfolding walk_alloc_def Let_def
  by (auto intro!: supplied_bnd [OF supplied_new] elim: spare_mono)

lemma supplied_translate:
  assumes "page_inv bf lo (heap st)" "spare bf (heap st) (Suc (Suc n))"
  shows "supplied bf lo n (translate_or_alloc bf st root va)"
proof (cases "va > MAXVA")
  case False
  show ?thesis unfolding translate_or_alloc_def if_not_P [OF False]
  proof (rule supplied_bnd [OF supplied_walk [OF assms]], unfold prod.case)
    fix p1 and st1 :: vm assume "page_inv bf lo (heap st1)" "spare bf (heap st1) (Suc n)"
    then show "supplied bf lo n (bnd (walk_alloc bf st1 p1 (page_num va 1)) (\<lambda>(p0, st2). Ret (p0 + 8 * page_num va 0, st2)))"
      by (rule supplied_bnd [OF supplied_walk]) auto
  qed
qed (simp add: translate_or_alloc_def)

lemma supplied_map_loop:
  "page_inv bf lo (heap st) \<Longrightarrow> spare bf (heap st) (2 * n + m) \<Longrightarrow>
   supplied bf lo m (map_loop bf root perm n st va pa)"
proof (induction n arbitrary: st va pa)
  case (Suc n)
  from Suc.prems(2) have sp: "spare bf (heap st) (Suc (Suc (2 * n + m)))" by simp
  show ?case unfolding map_loop.simps
    by (rule supplied_bnd [OF supplied_translate [OF Suc.prems(1) sp]])
      (auto simp: Let_def intro!: supplied_pure [OF checked_no_oom(3)] Suc.IH)
qed simp

lemma supplied_map:
  assumes "page_inv bf lo (heap st)" "spare bf (heap st) (2 * npages va sz + m)"
  shows "supplied bf lo m (pgt_map bf st root va pa sz perm)"
  unfolding pgt_map_def
proof (intro supplied_pure [OF checked_no_oom(1)] supplied_pure [OF checked_no_oom(4)], unfold Let_def)
  fix e last assume e: "uadd va sz = Ret e" "pg_round_up e = Ret last"
  then have l: "e = va + sz" "va < usize_lim" "last = (va + sz + PGSIZE - 1) div PGSIZE * PGSIZE"
    using pg_round_up_eq [of e] by (auto simp: uadd_def pg_round_up_def bnd_eq_Ret split: if_splits)
  have "(last - pg_round_down va) div PGSIZE = npages va sz"
    unfolding l(3) pg_round_down_eq [OF l(2)] npages_def diff_mult_distrib [symmetric] by (simp add: PGSIZE_def)
  with assms show "supplied bf lo m (map_loop bf root perm ((last - pg_round_down va) div PGSIZE) st (pg_round_down va) pa)"
    by (auto intro: supplied_map_loop)
qed

end

text \<open>\<open>uvm_unmap\<close> and \<open>uvm_dealloc\<close> neither allocate nor change the state.\<close>

lemma unmap_no_oom: "uvm_unmap st root va n fr \<noteq> Panic ''alloc error''"
proof -
  have "uvm_unmap_loop m root n va \<noteq> Panic ''alloc error''" for m va
    by (induction n arbitrary: va)
      (auto simp: bnd_eq_Panic checked_no_oom split: option.splits)
  then show ?thesis by (auto simp: uvm_unmap_def bnd_eq_Panic)
qed

lemma unmap_same: "uvm_unmap st root va n fr = Ret st' \<Longrightarrow> st' = st"
  by (auto simp: uvm_unmap_def bnd_eq_Ret split: if_splits)

lemma supplied_unmap:
  "page_inv bf lo (heap st) \<Longrightarrow> spare bf (heap st) m \<Longrightarrow>
   supplied bf lo m (bnd (uvm_unmap st root va n fr) (\<lambda>st'. Ret (r, st')))"
  by (rule supplied_pure [OF unmap_no_oom]) (auto dest: unmap_same)

lemma supplied_dealloc:
  "page_inv bf lo (heap st) \<Longrightarrow> spare bf (heap st) m \<Longrightarrow> supplied bf lo m (uvm_dealloc st root a b)"
  unfolding uvm_dealloc_def
  by (auto intro!: supplied_pure [OF checked_no_oom(4)] supplied_unmap)

context buddy_bits
begin

text \<open>The common round of \<open>uvm_alloc\<close> and \<open>uvm_copy\<close>: a new page, filled, and mapped.\<close>

lemma supplied_round:
  assumes "page_inv bf lo (heap st)" "spare bf (heap st) (3 + m)"
    "\<And>ok st3. page_inv bf lo (heap st3) \<Longrightarrow> spare bf (heap st3) m \<Longrightarrow> supplied bf lo k (rest (ok, st3))"
  shows "supplied bf lo k (bnd (new_zeroed bf st) (\<lambda>(page, st1).
    bnd (pgt_map bf (st1\<lparr>ram := fill page (ram st1)\<rparr>) root (q * PGSIZE) page PGSIZE perm) rest))"
proof (rule supplied_bnd [OF supplied_new], unfold prod.case)
  show "spare bf (heap st) (Suc (2 + m))" using assms(2) by (simp add: eval_nat_numeral)
  fix page and st1 :: vm assume i: "page_inv bf lo (heap st1)" "spare bf (heap st1) (2 + m)"
  have "npages (q * PGSIZE) PGSIZE = 1" by (rule npages_page) (simp add: is_page_aligned_def)
  then show "supplied bf lo k (bnd (pgt_map bf (st1\<lparr>ram := fill page (ram st1)\<rparr>) root (q * PGSIZE) page PGSIZE perm) rest)"
    using i by (intro supplied_bnd [OF supplied_map [where m = m]] assms(3)) simp_all
qed (rule assms(1))

lemma supplied_alloc_loop:
  assumes "page_inv bf lo (heap st)" "spare bf (heap st) (3 * ((new_size + PGSIZE - 1) div PGSIZE - q) + m)"
  shows "supplied bf lo m (uvm_alloc_loop bf st root old_size (q * PGSIZE) new_size)"
  using assms
proof (induction "(new_size + PGSIZE - 1) div PGSIZE - q" arbitrary: q st)
  case (0 q)
  then have "\<not> q * PGSIZE < new_size" by (simp add: PGSIZE_def)
  then show ?case using 0 by (subst uvm_alloc_loop.simps) auto
next
  case (Suc n q)
  have lt: "q * PGSIZE < new_size" using Suc.hyps(2) by (simp add: PGSIZE_def)
  have n: "n = (new_size + PGSIZE - 1) div PGSIZE - Suc q" using Suc.hyps(2) by simp
  have sp: "spare bf (heap st) (3 + (3 * n + m))"
    by (rule spare_mono [OF Suc.prems(2)]) (simp add: Suc.hyps(2) [symmetric] del: One_nat_def)
  have c: "q * PGSIZE + PGSIZE = Suc q * PGSIZE" by simp
  show ?case unfolding uvm_alloc_loop.simps [of bf st root old_size "q * PGSIZE"] if_P [OF lt] Let_def
  proof (rule supplied_round [OF Suc.prems(1) sp, where fill = "\<lambda>p m. zero_page m p"], unfold prod.case c)
    fix ok and st3 :: vm assume i: "page_inv bf lo (heap st3)" "spare bf (heap st3) (3 * n + m)"
    have "supplied bf lo m (uvm_alloc_loop bf st3 root old_size (Suc q * PGSIZE) new_size)"
      using Suc.hyps(1) [OF n i(1)] i(2) n by simp
    moreover have "supplied bf lo m (bnd (uvm_dealloc st3 root (q * PGSIZE) old_size) (\<lambda>(_, st4). Ret (None :: nat option, st4)))"
      by (rule supplied_bnd [OF supplied_dealloc [OF i(1)]]) (use i(2) in \<open>auto elim: spare_mono\<close>)
    ultimately show "supplied bf lo m (if \<not> ok then bnd (uvm_dealloc st3 root (q * PGSIZE) old_size) (\<lambda>(_, st4). Ret (None, st4))
      else uvm_alloc_loop bf st3 root old_size (Suc q * PGSIZE) new_size)" by simp
  qed
qed

lemma supplied_alloc:
  assumes "page_inv bf lo (heap st)"
    "spare bf (heap st) (3 * ((new_size + PGSIZE - 1) div PGSIZE - (old_size + PGSIZE - 1) div PGSIZE) + m)"
  shows "supplied bf lo m (uvm_alloc bf st root old_size new_size)"
proof (cases "new_size < old_size")
  case True
  then show ?thesis using assms by (auto simp: uvm_alloc_def elim: spare_mono)
next
  case False
  show ?thesis unfolding uvm_alloc_def if_not_P [OF False]
  proof (rule supplied_pure [OF checked_no_oom(4)])
    fix o' assume "pg_round_up old_size = Ret o'"
    then have "o' = (old_size + PGSIZE - 1) div PGSIZE * PGSIZE"
      using pg_round_up_eq [of old_size] by (auto simp: uadd_def pg_round_up_def bnd_eq_Ret split: if_splits)
    then show "supplied bf lo m (uvm_alloc_loop bf st root o' o' new_size)"
      using supplied_alloc_loop [OF assms] by simp
  qed
qed

lemma supplied_copy_loop:
  assumes "page_inv bf lo (heap st)" "spare bf (heap st) (3 * (e - q) + m)" "q \<le> e"
  shows "supplied bf lo m (uvm_copy_loop bf st root child (e * PGSIZE) (q * PGSIZE))"
  using assms
proof (induction "e - q" arbitrary: q st)
  case (0 q)
  then show ?case by (subst uvm_copy_loop.simps) auto
next
  case (Suc n q)
  have n: "n = e - Suc q" and q: "Suc q \<le> e" using Suc.hyps(2) by simp_all
  have sp: "spare bf (heap st) (3 + (3 * n + m))"
    by (rule spare_mono [OF Suc.prems(2)]) (simp add: Suc.hyps(2) [symmetric] del: One_nat_def)
  have R: "supplied bf lo m (bnd (new_zeroed bf st) (\<lambda>(page, st1).
    bnd (pgt_map bf (st1\<lparr>ram := pgt_write (ram st1) page src\<rparr>) child (q * PGSIZE) page PGSIZE perm) (\<lambda>(ok, st3).
      if \<not> ok then bnd (uvm_unmap st3 child 0 (q * PGSIZE div PGSIZE) True) (\<lambda>st4. Ret (Inl ''uvmcopy: Fail.'', st4))
      else if q * PGSIZE + PGSIZE < usize_lim then uvm_copy_loop bf st3 root child (e * PGSIZE) (q * PGSIZE + PGSIZE)
      else Panic ''attempt to add with overflow'')))" for src perm
  proof (rule supplied_round [OF Suc.prems(1) sp, where fill = "\<lambda>p m. pgt_write m p src"], unfold prod.case)
    fix ok and st3 :: vm assume i: "page_inv bf lo (heap st3)" "spare bf (heap st3) (3 * n + m)"
    have "supplied bf lo m (uvm_copy_loop bf st3 root child (e * PGSIZE) (Suc q * PGSIZE))"
      using Suc.hyps(1) [OF n i(1) _ q] i(2) n by simp
    moreover have "supplied bf lo m (bnd (uvm_unmap st3 child 0 (q * PGSIZE div PGSIZE) True)
        (\<lambda>st4. Ret (Inl ''uvmcopy: Fail.'' :: string + unit, st4)))"
      by (rule supplied_unmap [OF i(1) spare_mono [OF i(2)]]) simp
    ultimately show "supplied bf lo m (if \<not> ok then bnd (uvm_unmap st3 child 0 (q * PGSIZE div PGSIZE) True)
        (\<lambda>st4. Ret (Inl ''uvmcopy: Fail.'', st4))
      else if q * PGSIZE + PGSIZE < usize_lim then uvm_copy_loop bf st3 root child (e * PGSIZE) (q * PGSIZE + PGSIZE)
      else Panic ''attempt to add with overflow'')"
      by (simp add: add.commute)
  qed
  show ?case
    unfolding uvm_copy_loop.simps [of bf st root child "e * PGSIZE" "q * PGSIZE"]
    using R Suc.prems(1) spare_mono [OF Suc.prems(2), of m] by (auto simp: Let_def split: option.split)
qed

end

end
