(* ===== verification/UserCopy.thy ===== *)
theory UserCopy
  imports PageTableMap
begin

text \<open>
  Copying between the kernel and user memory: \<open>copy_out\<close>, \<open>copy_in\<close> and \<open>copy_in_str\<close> of
  \<open>kernel/src/memory/mapping/page_table.rs\<close>, \<open>copy_to_kernel\<close> and \<open>copy_from_kernel\<close> of
  \<open>kernel/src/memory/mod.rs\<close>, and the string helpers of \<open>kernel/src/misc.rs\<close>. Kernel memory is
  mapped one to one, so that a kernel pointer is a physical address.
\<close>

definition unwrap :: "'a option \<Rightarrow> 'a outcome" where
  "unwrap x = (case x of None \<Rightarrow> Panic ''called `Option::unwrap()` on a `None` value'' | Some y \<Rightarrow> Ret y)"

function copy_out_loop :: "(nat \<Rightarrow> 64 word) \<Rightarrow> nat \<Rightarrow> nat \<Rightarrow> nat \<Rightarrow> nat \<Rightarrow> nat \<Rightarrow> nat \<Rightarrow> nat \<Rightarrow>
    (nat \<Rightarrow> 64 word) outcome" where
  "copy_out_loop m root src va count off dst_ptr len =
     (if count > len then Ret (ptr_copy m (src + off) dst_ptr len)
      else let m' = ptr_copy m (src + off) dst_ptr count in
        bnd (add_page va) (\<lambda>va'. bnd (unwrap (pgt_translate m' root va')) (\<lambda>pa.
        copy_out_loop m' root src va' PGSIZE (off + count) pa (len - count))))"
  by pat_completeness auto
termination
  by (relation "measure (\<lambda>(m, root, src, va, count, off, dst_ptr, len). len + (if count = 0 then 1 else 0))")
     (auto simp: PGSIZE_def)

definition copy_out :: "(nat \<Rightarrow> 64 word) \<Rightarrow> nat \<Rightarrow> nat \<Rightarrow> nat \<Rightarrow> nat \<Rightarrow> ((string + unit) \<times> (nat \<Rightarrow> 64 word)) outcome" where
  "copy_out m root dst src len =
     (let va = pg_round_down dst in
      bnd (usub dst va) (\<lambda>o1. bnd (usub PGSIZE o1) (\<lambda>count.
      bnd (unwrap (pgt_translate m root va)) (\<lambda>pa.
      bnd (copy_out_loop m root src va count 0 (pa + o1) len) (\<lambda>m'. Ret (Inr (), m'))))))"

text \<open>
  \<open>copy_in\<close> and \<open>copy_in_str\<close> subtract \<open>va\<close> from the start address in every round. After the first
  round \<open>va\<close> is above it: the subtraction panics, which is why the loops end.
\<close>

function copy_in_loop :: "(nat \<Rightarrow> 64 word) \<Rightarrow> nat \<Rightarrow> nat \<Rightarrow> nat \<Rightarrow> nat \<Rightarrow> nat \<Rightarrow> (nat \<Rightarrow> 64 word) outcome" where
  "copy_in_loop m root dst src va len =
     bnd (unwrap (pgt_translate m root va)) (\<lambda>pa.
     if src < va then Panic ''attempt to subtract with overflow''
     else bnd (usub PGSIZE (src - va)) (\<lambda>count. bnd (uadd pa (src - va)) (\<lambda>s.
       if len < count then Ret (mem_copy m dst s len)
       else if va + PGSIZE < usize_lim
       then copy_in_loop (mem_copy m dst s count) root (dst + count) src (va + PGSIZE) (len - count)
       else Panic ''attempt to add with overflow'')))"
  by pat_completeness auto
termination
  by (relation "measure (\<lambda>(m, root, dst, src, va, len). src + 1 - va)") (auto simp: PGSIZE_def)

definition copy_in :: "(nat \<Rightarrow> 64 word) \<Rightarrow> nat \<Rightarrow> nat \<Rightarrow> nat \<Rightarrow> nat \<Rightarrow> ((string + unit) \<times> (nat \<Rightarrow> 64 word)) outcome" where
  "copy_in m root dst src len =
     bnd (copy_in_loop m root dst src (pg_round_down src) len) (\<lambda>m'. Ret (Inr (), m'))"

text \<open>The byte loops of \<open>copy_in_str\<close>; the flag says that the end of the string was read.\<close>

fun copy_str_bytes :: "(nat \<Rightarrow> 64 word) \<Rightarrow> nat \<Rightarrow> nat \<Rightarrow> nat \<Rightarrow> nat \<Rightarrow> bool \<times> (nat \<Rightarrow> 64 word)" where
  "copy_str_bytes m dst s i 0 = (False, m)"
| "copy_str_bytes m dst s i (Suc n) =
     (let v = read8 m (s + i) in
      if v = 0 then (True, m) else copy_str_bytes (write8 m (dst + i) v) dst s (i + 1) n)"

function copy_in_str_loop :: "(nat \<Rightarrow> 64 word) \<Rightarrow> nat \<Rightarrow> nat \<Rightarrow> nat \<Rightarrow> nat \<Rightarrow> nat \<Rightarrow> (nat \<Rightarrow> 64 word) outcome" where
  "copy_in_str_loop m root dst src va max_len =
     bnd (unwrap (pgt_translate m root va)) (\<lambda>pa.
     if src < va then Panic ''attempt to subtract with overflow''
     else bnd (usub PGSIZE (src - va)) (\<lambda>count. bnd (uadd pa (src - va)) (\<lambda>s.
       if max_len < count then Ret (snd (copy_str_bytes m dst s 0 max_len))
       else case copy_str_bytes m dst s 0 count of (fin, m') \<Rightarrow>
         if fin then Ret m'
         else if va + PGSIZE < usize_lim
         then copy_in_str_loop m' root dst src (va + PGSIZE) (max_len - count)
         else Panic ''attempt to add with overflow'')))"
  by pat_completeness auto
termination
  by (relation "measure (\<lambda>(m, root, dst, src, va, max_len). src + 1 - va)") (auto simp: PGSIZE_def)

definition copy_in_str :: "(nat \<Rightarrow> 64 word) \<Rightarrow> nat \<Rightarrow> nat \<Rightarrow> nat \<Rightarrow> nat \<Rightarrow> ((string + unit) \<times> (nat \<Rightarrow> 64 word)) outcome" where
  "copy_in_str m root dst src max_len =
     bnd (copy_in_str_loop m root dst src (pg_round_down src) max_len) (\<lambda>m'. Ret (Inr (), m'))"

text \<open>
  The copies of \<open>memory/mod.rs\<close> depend on the current process: \<open>None\<close> when there is none, otherwise its
  page table if it has one. The temporary buffer of \<open>copy_from_kernel\<close> comes from the heap and goes back.
\<close>

definition copy_to_kernel :: "(nat \<Rightarrow> 64 word) \<Rightarrow> nat option option \<Rightarrow> nat \<Rightarrow> bool \<Rightarrow> nat \<Rightarrow> nat \<Rightarrow>
    ((string + unit) \<times> (nat \<Rightarrow> 64 word)) outcome" where
  "copy_to_kernel m my_proc dst user src len =
     bnd (unwrap my_proc) (\<lambda>pgt.
     if user then bnd (unwrap pgt) (\<lambda>root. copy_in m root dst src len)
     else Ret (Inr (), ptr_copy m src dst len))"

definition temp_buffer :: "8 word bitops \<Rightarrow> vm \<Rightarrow> nat \<Rightarrow> nat \<Rightarrow> vm outcome" where
  "temp_buffer bf st src len =
     (if len = 0 then Ret st
      else let layout = \<lparr>lsize = len, lalign = 1\<rparr> in
        bnd (box_alloc bf (heap st) layout) (\<lambda>(b, h).
        let m = ptr_copy (write_bytes (ram st) b (replicate len 0)) src b len in
        bnd (heap_dealloc bf h b layout) (\<lambda>h'. Ret \<lparr>ram = m, heap = h'\<rparr>)))"

definition copy_from_kernel :: "8 word bitops \<Rightarrow> vm \<Rightarrow> nat option option \<Rightarrow> bool \<Rightarrow> nat \<Rightarrow> nat \<Rightarrow> nat \<Rightarrow>
    ((string + unit) \<times> vm) outcome" where
  "copy_from_kernel bf st my_proc user dst src len =
     bnd (unwrap my_proc) (\<lambda>pgt.
     if user then bnd (unwrap pgt) (\<lambda>root.
       bnd (copy_out (ram st) root dst src len) (\<lambda>(r, m). Ret (r, st\<lparr>ram := m\<rparr>)))
     else bnd (temp_buffer bf st src len) (\<lambda>st1.
       Ret (Inr (), st1\<lparr>ram := ptr_copy (ram st1) src dst len\<rparr>)))"

declare copy_out_loop.simps [simp del] copy_in_loop.simps [simp del] copy_in_str_loop.simps [simp del]

text \<open>Bytes of a cell.\<close>

lemma bit_FF: "bit (0xFF :: 64 word) n \<longleftrightarrow> n < 8"
proof -
  have m: "(0xFF :: 64 word) = mask 8" by (simp add: mask_eq_exp_minus_1)
  show ?thesis unfolding m bit_mask_iff by auto
qed

lemma byte_bits:
  fixes w :: "64 word" and v :: "8 word"
  assumes "k < 8" "l < 8"
  shows "(ucast (drop_bit (8 * l) ((w AND NOT (push_bit (8 * k) 0xFF)) OR push_bit (8 * k) (ucast v))) :: 8 word) =
    (if k = l then v else ucast (drop_bit (8 * l) w))"
proof (rule bit_word_eqI)
  fix n assume n: "n < LENGTH(8)"
  let ?j = "8 * l + n - 8 * k"
  have in_byte: "8 * k \<le> 8 * l + n \<and> ?j < 8 \<longleftrightarrow> k = l" "k = l \<Longrightarrow> ?j = n" "8 * l + n < 64"
    using n assms by auto
  have v: "bit v j \<Longrightarrow> j < 8" for j using bit_imp_le_length [of v j] by simp
  have "bit (ucast (drop_bit (8 * l) ((w AND NOT (push_bit (8 * k) 0xFF)) OR push_bit (8 * k) (ucast v))) :: 8 word) n \<longleftrightarrow>
    bit w (8 * l + n) \<and> \<not> (8 * k \<le> 8 * l + n \<and> ?j < 8) \<or> 8 * k \<le> 8 * l + n \<and> bit v ?j"
    unfolding bit_unsigned_iff bit_drop_bit_eq o_def bit_or_iff bit_and_iff bit_not_iff bit_push_bit_iff bit_FF
    using n in_byte(3) v by auto
  also have "\<dots> \<longleftrightarrow> (if k = l then bit v n else bit w (8 * l + n))"
    using in_byte v by auto
  also have "\<dots> = bit (if k = l then v else ucast (drop_bit (8 * l) w)) n"
    unfolding if_distrib [of "\<lambda>x. bit x n"] bit_unsigned_iff bit_drop_bit_eq o_def using n by simp
  finally show "bit (ucast (drop_bit (8 * l) ((w AND NOT (push_bit (8 * k) 0xFF)) OR push_bit (8 * k) (ucast v))) :: 8 word) n =
    bit (if k = l then v else ucast (drop_bit (8 * l) w)) n" .
qed

lemma read8_write8: "read8 (write8 m a v) b = (if a = b then v else read8 m b)"
proof (cases "a div 8 = b div 8")
  case True
  then have "a = b \<longleftrightarrow> a mod 8 = b mod 8" by (metis div_mult_mod_eq)
  then show ?thesis using True byte_bits [of "a mod 8" "b mod 8" "m (b div 8)" v] by (simp add: read8_def write8_def)
next
  case False
  then show ?thesis by (auto simp: read8_def write8_def)
qed

lemma read8_write_bytes:
  "read8 (write_bytes m a vs) b = (if a \<le> b \<and> b < a + length vs then vs ! (b - a) else read8 m b)"
  by (induction m a vs rule: write_bytes.induct) (auto simp: read8_write8 nth_Cons' not_less_eq_eq)

lemma read8_ptr_copy:
  "read8 (ptr_copy m src dst n) b = (if dst \<le> b \<and> b < dst + n then read8 m (src + (b - dst)) else read8 m b)"
  by (auto simp: ptr_copy_def read8_write_bytes read_bytes_def)

lemma write8_cell: "c \<noteq> a div 8 \<Longrightarrow> write8 m a v c = m c"
  by (simp add: write8_def)

lemma write_bytes_cell: "(\<And>i. i < length vs \<Longrightarrow> c \<noteq> (a + i) div 8) \<Longrightarrow> write_bytes m a vs c = m c"
proof (induction m a vs rule: write_bytes.induct)
  case (2 m a v vs)
  have "write_bytes (write8 m a v) (a + 1) vs c = write8 m a v c"
    by (rule "2.IH") (use "2.prems" [of "Suc _"] in auto)
  then show ?case using "2.prems" [of 0] by (simp add: write8_cell)
qed simp

text \<open>A copy into one page only changes cells of this page.\<close>

lemma byte_in_page: "is_page_aligned p \<Longrightarrow> p \<le> a \<Longrightarrow> a < p + PGSIZE \<Longrightarrow> in_page p (a div 8)"
  by (auto simp: in_page_def is_page_aligned_def PGSIZE_def)

lemma ptr_copy_frame:
  assumes "is_page_aligned p" "p \<le> dst" "dst + n \<le> p + PGSIZE" "\<not> in_page p c"
  shows "ptr_copy m src dst n c = m c"
  unfolding ptr_copy_def
proof (rule write_bytes_cell)
  fix i assume "i < length (read_bytes m src n)"
  then have "in_page p ((dst + i) div 8)" by (intro byte_in_page) (use assms in \<open>auto simp: read_bytes_def\<close>)
  then show "c \<noteq> (dst + i) div 8" using assms(4) by blast
qed

text \<open>
  A range of user memory: \<open>g v\<close> is the page behind the page number \<open>v\<close>. The pages are distinct and are
  not tables, so that writing to them changes no translation. The range includes the page of the byte
  after its end, which \<open>copy_out\<close> and \<open>copy_in\<close> look up when the range ends at a page boundary.
\<close>

definition uaddr :: "(nat \<Rightarrow> nat) \<Rightarrow> nat \<Rightarrow> nat" where
  "uaddr g x = g (x div PGSIZE) + x mod PGSIZE"

definition user_range :: "(nat \<Rightarrow> 64 word) \<Rightarrow> nat \<Rightarrow> (nat \<Rightarrow> nat) \<Rightarrow> nat \<Rightarrow> nat \<Rightarrow> bool" where
  "user_range m root g x len \<longleftrightarrow> pt_wf m root \<and> x + len \<le> MAXVA \<and>
     inj_on g {x div PGSIZE .. (x + len) div PGSIZE} \<and>
     (\<forall>v \<in> {x div PGSIZE .. (x + len) div PGSIZE}. pgt_translate m root (v * PGSIZE) = Some (g v) \<and>
        is_page_aligned (g v) \<and> g v \<notin> tables m root)"

lemma user_rangeD:
  assumes "user_range m root g x len"
  shows "pt_wf m root" "x + len \<le> MAXVA" "inj_on g {x div PGSIZE .. (x + len) div PGSIZE}"
    and "v \<in> {x div PGSIZE .. (x + len) div PGSIZE} \<Longrightarrow> pgt_translate m root (v * PGSIZE) = Some (g v)"
    and "v \<in> {x div PGSIZE .. (x + len) div PGSIZE} \<Longrightarrow> is_page_aligned (g v)"
    and "v \<in> {x div PGSIZE .. (x + len) div PGSIZE} \<Longrightarrow> g v \<notin> tables m root"
  using assms by (auto simp: user_range_def)

lemma pgt_translate_entry:
  assumes "va \<le> MAXVA" shows "pgt_translate m root va = map_option as_pagetable (entry m root va)"
  using assms
  by (auto simp: pgt_translate_def translate_def entry_def leaf_def Let_def pte_at_def flag_tests split: option.splits)

lemma uaddr_inj:
  assumes r: "user_range m root g x len"
    and a: "a div PGSIZE \<in> {x div PGSIZE .. (x + len) div PGSIZE}" and b: "b div PGSIZE \<in> {x div PGSIZE .. (x + len) div PGSIZE}"
    and e: "uaddr g a = uaddr g b"
  shows "a = b"
proof -
  have al: "g (a div PGSIZE) = g (a div PGSIZE) div PGSIZE * PGSIZE" "g (b div PGSIZE) = g (b div PGSIZE) div PGSIZE * PGSIZE"
    using user_rangeD(5) [OF r] a b by simp_all
  have P: "0 < PGSIZE" by (simp add: PGSIZE_def)
  have "g (a div PGSIZE) div PGSIZE = g (b div PGSIZE) div PGSIZE" "a mod PGSIZE = b mod PGSIZE"
    using e al P unfolding uaddr_def
    by (metis div_mult_self3 mod_div_trivial add.right_neutral less_numeral_extra(3) mod_mult_self3 mod_mod_trivial)+
  then have "g (a div PGSIZE) = g (b div PGSIZE)" using al by metis
  then have "a div PGSIZE = b div PGSIZE" using user_rangeD(3) [OF r] a b by (meson inj_onD)
  then show ?thesis using \<open>a mod PGSIZE = b mod PGSIZE\<close> by (metis div_mult_mod_eq)
qed

lemma in_page_offset: "x mod PGSIZE + i < PGSIZE \<Longrightarrow> (x + i) div PGSIZE = x div PGSIZE \<and> (x + i) mod PGSIZE = x mod PGSIZE + i"
proof -
  assume a: "x mod PGSIZE + i < PGSIZE"
  have e: "x + i = x mod PGSIZE + i + x div PGSIZE * PGSIZE" using div_mult_mod_eq [of x PGSIZE] by linarith
  have "(r + q * PGSIZE) div PGSIZE = q \<and> (r + q * PGSIZE) mod PGSIZE = r" if "r < PGSIZE" for r q
    using that by simp
  from this [OF a, of "x div PGSIZE"] show ?thesis unfolding e [symmetric] .
qed

lemma uaddr_offset: "x mod PGSIZE + i < PGSIZE \<Longrightarrow> uaddr g (x + i) = uaddr g x + i"
  using in_page_offset [of x i] by (simp add: uaddr_def)

lemma range_mem: "i \<le> len \<Longrightarrow> (x + i) div PGSIZE \<in> {x div PGSIZE .. (x + len) div PGSIZE}"
  by (simp add: div_le_mono)

text \<open>Writing to one page of the range keeps the rest of the range.\<close>

lemma user_range_write:
  assumes r: "user_range m root g x len" and c: "c \<le> len"
    and f: "\<And>b. \<not> in_page (g (x div PGSIZE)) b \<Longrightarrow> m' b = m b"
  shows "user_range m' root g (x + c) (len - c)"
proof -
  have v0: "x div PGSIZE \<in> {x div PGSIZE .. (x + len) div PGSIZE}" using range_mem [of 0] by simp
  note P = page_frame [OF user_rangeD(1) [OF r] user_rangeD(5) [OF r v0] user_rangeD(6) [OF r v0], of m']
  have F: "tables m' root = tables m root" "pt_wf m' root" using P(1,2) f by blast+
  have e: "entry m' root va = entry m root va" for va
    unfolding entry_def using P(3) f page_num_lt by blast
  have sub: "{(x + c) div PGSIZE .. (x + c + (len - c)) div PGSIZE} \<subseteq> {x div PGSIZE .. (x + len) div PGSIZE}"
    using c div_le_mono [of x "x + c" PGSIZE] by auto
  have t: "pgt_translate m' root (v * PGSIZE) = Some (g v)" if "v \<in> {x div PGSIZE .. (x + len) div PGSIZE}" for v
  proof -
    have "v * PGSIZE \<le> (x + len) div PGSIZE * PGSIZE" using that by (intro mult_le_mono1) simp
    also have "\<dots> \<le> MAXVA" using user_rangeD(2) [OF r] by (rule order_trans [OF div_times_less_eq_dividend])
    finally show ?thesis using user_rangeD(4) [OF r that] by (simp add: pgt_translate_entry e)
  qed
  show ?thesis
    unfolding user_range_def F(1)
    using F(2) user_rangeD(2) [OF r] c inj_on_subset [OF user_rangeD(3) [OF r] sub] t user_rangeD(5,6) [OF r] sub by auto
qed

lemma copy_out_loop_ok:
  assumes "user_range m root g x len"
    "\<And>i v. i < len \<Longrightarrow> v \<in> {x div PGSIZE .. (x + len) div PGSIZE} \<Longrightarrow> \<not> (g v \<le> src + off + i \<and> src + off + i < g v + PGSIZE)"
  shows "\<exists>m'. copy_out_loop m root src (x div PGSIZE * PGSIZE) (PGSIZE - x mod PGSIZE) off (uaddr g x) len = Ret m' \<and>
    (\<forall>i < len. read8 m' (uaddr g (x + i)) = read8 m (src + off + i)) \<and>
    (\<forall>b. (\<forall>i < len. b \<noteq> uaddr g (x + i)) \<longrightarrow> read8 m' b = read8 m b)"
  using assms
proof (induction len arbitrary: m x off rule: less_induct)
  case (less len)
  note r = less.prems(1)
  define c where "c = PGSIZE - x mod PGSIZE"
  have c: "0 < c" "x mod PGSIZE + c = PGSIZE" by (auto simp: c_def PGSIZE_def)
  have off: "uaddr g (x + i) = uaddr g x + i" if "i < c" for i
    by (rule uaddr_offset) (use that c in simp)
  show ?case
  proof (cases "c > len")
    case True
    have "copy_out_loop m root src (x div PGSIZE * PGSIZE) (PGSIZE - x mod PGSIZE) off (uaddr g x) len =
        Ret (ptr_copy m (src + off) (uaddr g x) len)"
      using True by (subst copy_out_loop.simps) (simp add: c_def)
    moreover have "b = uaddr g x + (b - uaddr g x)" if "uaddr g x \<le> b" for b using that by simp
    ultimately show ?thesis using True off by (auto simp: read8_ptr_copy) (metis add_diff_cancel_left' add_less_cancel_left le_Suc_ex less_trans)
  next
    case False
    then have cl: "c \<le> len" by simp
    let ?m1 = "ptr_copy m (src + off) (uaddr g x) c" and ?p = "g (x div PGSIZE)"
    have v0: "x div PGSIZE \<in> {x div PGSIZE .. (x + len) div PGSIZE}" using range_mem [of 0] by simp
    have "x + c = (x div PGSIZE + 1) * PGSIZE"
      using c(2) by (metis add.assoc add.commute div_mult_mod_eq distrib_right mult_1)
    then have xc: "(x + c) div PGSIZE = x div PGSIZE + 1" "(x + c) mod PGSIZE = 0" "x div PGSIZE * PGSIZE + PGSIZE = (x + c) div PGSIZE * PGSIZE"
      by (auto simp: PGSIZE_def)
    have r1: "user_range ?m1 root g (x + c) (len - c)"
      by (rule user_range_write [OF r cl], rule ptr_copy_frame [OF user_rangeD(5) [OF r v0]])
        (use c in \<open>auto simp: uaddr_def\<close>)
    have mv: "x + c \<le> MAXVA" using user_rangeD(2) [OF r] cl by simp
    have ap: "add_page (x div PGSIZE * PGSIZE) = Ret ((x + c) div PGSIZE * PGSIZE)"
      using xc mv by (simp add: add_page_def uadd_def layout_defs usize_lim_def)
    have tr: "pgt_translate ?m1 root ((x + c) div PGSIZE * PGSIZE) = Some (g ((x + c) div PGSIZE))"
      by (rule user_rangeD(4) [OF r1]) (simp add: div_le_mono)
    have u: "uaddr g (x + c) = g ((x + c) div PGSIZE)" using xc(2) by (simp add: uaddr_def)
    have src1: "\<not> (g v \<le> src + (off + c) + i \<and> src + (off + c) + i < g v + PGSIZE)"
      if "i < len - c" "v \<in> {(x + c) div PGSIZE .. (x + c + (len - c)) div PGSIZE}" for i v
      using less.prems(2) [of "c + i" v] that cl xc(1) by (simp add: algebra_simps)
    from less.IH [OF _ r1 src1] c(1) cl obtain m' where
      m': "copy_out_loop ?m1 root src ((x + c) div PGSIZE * PGSIZE) PGSIZE (off + c) (g ((x + c) div PGSIZE)) (len - c) = Ret m'"
        "\<And>i. i < len - c \<Longrightarrow> read8 m' (uaddr g (x + c + i)) = read8 ?m1 (src + (off + c) + i)"
        "\<And>b. (\<And>i. i < len - c \<Longrightarrow> b \<noteq> uaddr g (x + c + i)) \<Longrightarrow> read8 m' b = read8 ?m1 b"
      unfolding u xc(2) by auto
    have "copy_out_loop m root src (x div PGSIZE * PGSIZE) (PGSIZE - x mod PGSIZE) off (uaddr g x) len = Ret m'"
      using False m'(1) by (subst copy_out_loop.simps) (simp add: c_def [symmetric] ap tr unwrap_def Let_def)
    moreover have "read8 m' (uaddr g (x + i)) = read8 m (src + off + i)" if i: "i < len" for i
    proof (cases "i < c")
      case True
      have "uaddr g (x + i) \<noteq> uaddr g (x + c + j)" if "j < len - c" for j
      proof
        assume "uaddr g (x + i) = uaddr g (x + c + j)"
        moreover have "c + j \<le> len" using that by simp
        ultimately have "x + i = x + (c + j)"
          using uaddr_inj [OF r range_mem range_mem, of i "c + j"] i by (simp add: add.assoc)
        then show False using True by simp
      qed
      then have "read8 m' (uaddr g (x + i)) = read8 ?m1 (uaddr g x + i)" using m'(3) off [OF True] by simp
      then show ?thesis using True by (simp add: read8_ptr_copy)
    next
      case False
      have "\<not> (uaddr g x \<le> src + off + i \<and> src + off + i < uaddr g x + c)"
        using less.prems(2) [OF i v0] c by (auto simp: uaddr_def)
      then have "read8 ?m1 (src + off + i) = read8 m (src + off + i)" unfolding read8_ptr_copy by (rule if_not_P)
      then show ?thesis using m'(2) [of "i - c"] False i by (simp add: add.assoc)
    qed
    moreover have "read8 m' b = read8 m b" if b: "\<forall>i < len. b \<noteq> uaddr g (x + i)" for b
    proof -
      have "read8 m' b = read8 ?m1 b"
      proof (rule m'(3))
        fix i assume "i < len - c"
        then show "b \<noteq> uaddr g (x + c + i)" using spec [OF b, of "c + i"] by (simp add: add.assoc)
      qed
      moreover have "\<not> (uaddr g x \<le> b \<and> b < uaddr g x + c)"
        using b off cl by (metis add_less_cancel_left le_Suc_ex less_le_trans)
      ultimately show ?thesis by (simp add: read8_ptr_copy)
    qed
    ultimately show ?thesis by blast
  qed
qed

text \<open>\<open>copy_in\<close> and \<open>copy_in_str\<close>.\<close>

lemma read8_mem_copy:
  assumes "\<forall>i < n. \<forall>j < n. src + i \<noteq> dst + j"
  shows "read8 (mem_copy m dst src n) b = (if dst \<le> b \<and> b < dst + n then read8 m (src + (b - dst)) else read8 m b)"
  using assms
proof (induction n arbitrary: b)
  case (Suc n)
  then have IH: "read8 (mem_copy m dst src n) b = (if dst \<le> b \<and> b < dst + n then read8 m (src + (b - dst)) else read8 m b)" for b
    by simp
  have "\<not> (dst \<le> src + n \<and> src + n < dst + n)"
  proof
    assume a: "dst \<le> src + n \<and> src + n < dst + n"
    then have "src + n = dst + (src + n - dst)" "src + n - dst < Suc n" by auto
    then show False using Suc.prems by blast
  qed
  then show ?case by (auto simp: Let_def read8_write8 IH)
qed auto

lemma copy_in_page:
  assumes "src < usize_lim" "pgt_translate m root (src div PGSIZE * PGSIZE) = Some p"
    "p + PGSIZE < usize_lim" "src mod PGSIZE + len < PGSIZE"
  shows "copy_in m root dst src len = Ret (Inr (), mem_copy m dst (p + src mod PGSIZE) len)"
proof -
  have o: "src - src div PGSIZE * PGSIZE = src mod PGSIZE" by (simp add: minus_div_mult_eq_mod)
  have l: "src mod PGSIZE < PGSIZE" by (simp add: PGSIZE_def)
  have lt: "len < PGSIZE - src mod PGSIZE" using assms(4) by linarith
  have le: "\<not> src < src div PGSIZE * PGSIZE" by (simp add: not_less)
  show ?thesis using l lt le assms(1-3)
    by (simp add: copy_in_def pg_round_down_eq copy_in_loop.simps [of m root dst src "src div PGSIZE * PGSIZE"]
        unwrap_def o uadd_def)
qed

lemma copy_in_second: "src < va \<Longrightarrow> \<exists>e. copy_in_loop m root dst src va len = Panic e"
  by (subst copy_in_loop.simps) (cases "pgt_translate m root va", auto simp: unwrap_def)

lemma copy_in_cross:
  assumes "src < usize_lim" "PGSIZE \<le> src mod PGSIZE + len"
  shows "\<exists>e. copy_in m root dst src len = Panic e"
proof -
  let ?va = "src div PGSIZE * PGSIZE"
  have o: "src - ?va = src mod PGSIZE" by (simp add: minus_div_mult_eq_mod)
  have l: "src mod PGSIZE < PGSIZE" by (simp add: PGSIZE_def)
  then have v: "src < ?va + PGSIZE" using o by linarith
  have le: "\<not> src < ?va" by (simp add: not_less)
  have "\<exists>e. copy_in_loop m root dst src ?va len = Panic e"
  proof (cases "pgt_translate m root ?va")
    case (Some p)
    obtain e where e: "copy_in_loop (mem_copy m dst (p + src mod PGSIZE) (PGSIZE - src mod PGSIZE)) root
      (dst + (PGSIZE - src mod PGSIZE)) src (?va + PGSIZE) (len - (PGSIZE - src mod PGSIZE)) = Panic e"
      using copy_in_second [OF v] by blast
    have nl: "\<not> len < PGSIZE - src mod PGSIZE" using assms(2) by simp
    show ?thesis
      unfolding copy_in_loop.simps [of m root dst src ?va] if_not_P [OF le] o Some
      using e l nl by (auto simp: unwrap_def uadd_def)
  qed (simp add: copy_in_loop.simps [of m root dst src ?va] unwrap_def)
  then show ?thesis using assms(1) by (auto simp: copy_in_def pg_round_down_eq)
qed

text \<open>The bytes of a string up to its end, at most \<open>n\<close> of them.\<close>

definition str_prefix :: "(nat \<Rightarrow> 64 word) \<Rightarrow> nat \<Rightarrow> nat \<Rightarrow> 8 word list" where
  "str_prefix m s n = takeWhile (\<lambda>v. v \<noteq> 0) (map (\<lambda>i. read8 m (s + i)) [0..<n])"

lemma str_prefix_Suc:
  "str_prefix m s (Suc n) = (if read8 m s = 0 then [] else read8 m s # str_prefix m (s + 1) n)"
proof -
  have "map (\<lambda>i. read8 m (s + i)) [0..<Suc n] = read8 m s # map (\<lambda>i. read8 m (s + 1 + i)) [0..<n]"
    by (simp add: upt_conv_Cons map_Suc_upt [symmetric] del: upt_Suc)
  then show ?thesis by (simp add: str_prefix_def)
qed

lemma str_prefix_cong: "(\<And>i. i < n \<Longrightarrow> read8 m' (s + i) = read8 m (s + i)) \<Longrightarrow> str_prefix m' s n = str_prefix m s n"
  unfolding str_prefix_def by (rule arg_cong [where f = "takeWhile (\<lambda>v. v \<noteq> 0)"]) simp

lemma copy_str_bytes_ok:
  assumes "\<And>j k. j < n \<Longrightarrow> k < n \<Longrightarrow> s + i + j \<noteq> dst + i + k"
  shows "snd (copy_str_bytes m dst s i n) = write_bytes m (dst + i) (str_prefix m (s + i) n)"
  using assms
proof (induction n arbitrary: m i)
  case 0
  then show ?case by (simp add: str_prefix_def)
next
  case (Suc n)
  show ?case
  proof (cases "read8 m (s + i) = 0")
    case False
    let ?m = "write8 m (dst + i) (read8 m (s + i))"
    have "snd (copy_str_bytes ?m dst s (i + 1) n) = write_bytes ?m (dst + (i + 1)) (str_prefix ?m (s + (i + 1)) n)"
    proof (rule Suc.IH)
      fix j k assume "j < n" "k < n"
      then show "s + (i + 1) + j \<noteq> dst + (i + 1) + k" using Suc.prems [of "Suc j" "Suc k"] by simp
    qed
    moreover have "str_prefix ?m (s + (i + 1)) n = str_prefix m (s + (i + 1)) n"
    proof (rule str_prefix_cong)
      fix j assume "j < n"
      then have "s + (i + 1) + j \<noteq> dst + i" using Suc.prems [of "Suc j" 0] by simp
      then show "read8 ?m (s + (i + 1) + j) = read8 m (s + (i + 1) + j)" by (simp add: read8_write8)
    qed
    ultimately show ?thesis using False by (simp add: str_prefix_Suc Let_def add.assoc)
  qed (simp add: str_prefix_Suc)
qed

lemma copy_in_str_page:
  assumes "src < usize_lim" "pgt_translate m root (src div PGSIZE * PGSIZE) = Some p"
    "p + PGSIZE < usize_lim" "src mod PGSIZE + n < PGSIZE"
    "\<And>j k. j < n \<Longrightarrow> k < n \<Longrightarrow> p + src mod PGSIZE + j \<noteq> dst + k"
  shows "copy_in_str m root dst src n = Ret (Inr (), write_bytes m dst (str_prefix m (p + src mod PGSIZE) n))"
proof -
  have o: "src - src div PGSIZE * PGSIZE = src mod PGSIZE" by (simp add: minus_div_mult_eq_mod)
  have l: "src mod PGSIZE < PGSIZE" by (simp add: PGSIZE_def)
  have lt: "n < PGSIZE - src mod PGSIZE" using assms(4) by linarith
  have le: "\<not> src < src div PGSIZE * PGSIZE" by (simp add: not_less)
  show ?thesis using l lt le assms(1-3) copy_str_bytes_ok [of n "p + src mod PGSIZE" 0 dst m] assms(5)
    by (simp add: copy_in_str_def pg_round_down_eq copy_in_str_loop.simps [of m root dst src "src div PGSIZE * PGSIZE"]
        unwrap_def o uadd_def)
qed

end
