(* ===== verification/VmProps.thy ===== *)
theory VmProps
  imports PageSupply UserCopy
begin

text \<open>
  The properties of the virtual memory code, and a concrete memory to apply them to: the heap that
  \<open>kinit\<close> sets up behind a kernel image of two MiB, and an empty kernel table inside the image.
\<close>

text \<open>A page of zeros is an empty table.\<close>

lemma empty_table:
  assumes "is_page_aligned p" "\<And>i. i < 512 \<Longrightarrow> pte_at m p i = 0"
  shows "tables m p = {p}" "pt_wf m p" "leaf m p i j k = None \<or> \<not> (i < 512 \<and> j < 512 \<and> k < 512)" "entry m p va = None"
proof -
  have t: "tab m p is = (if is = [] then Some p else None)" if "idx_ok is" for "is"
    using that assms(2) by (cases "is") (auto simp: idx_ok_def)
  show ts: "tables m p = {p}" using t by (auto simp: tables_def split: if_splits intro: exI [of _ "[]"])
  show "pt_wf m p" unfolding pt_wf_def ts using assms(1) t by (auto split: if_splits)
  have "leaf m p i j k = None" if "i < 512" "j < 512" for i j k
    using t [of "[i, j]"] that by (simp add: leaf_def del: tab.simps)
  then show "leaf m p i j k = None \<or> \<not> (i < 512 \<and> j < 512 \<and> k < 512)" "entry m p va = None"
    using page_num_lt by (auto simp: entry_def)
qed

context buddy_bits
begin

lemma uvmcreate_ok:
  assumes v: "vm_inv bf lo root st"
  shows "oom_or (\<lambda>(p, st'). vm_inv bf lo p st' \<and> (\<forall>va. entry (ram st') p va = None) \<and> tables (ram st') p = {p} \<and>
    vm_inv bf lo root st' \<and> vm_ext bf lo root st st' \<and> p \<in> pages bf lo (heap st') \<and> p \<notin> pages bf lo (heap st) \<and>
    (\<forall>va. entry (ram st') root va = entry (ram st) root va) \<and> tables (ram st') root = tables (ram st) root)
    (uvmcreate bf st)"
  unfolding uvmcreate_def
proof (rule oom_or_mono [OF new_zeroed_ok [OF v]], clarify)
  fix p st1
  assume v1: "vm_inv bf lo root st1" and x1: "vm_ext bf lo root st st1" and l1: "same_leaves root st st1"
    and f: "fresh_page bf lo root st p st1"
  from f have p: "is_page_aligned p" "p \<in> pages bf lo (heap st1)" "p \<notin> pages bf lo (heap st)"
    and z: "ram st1 = zero_page (ram st) p" and t: "tables (ram st1) root = tables (ram st) root"
    by (auto simp: fresh_page_def)
  have "pte_at (ram st1) p i = 0" if "i < 512" for i using pte_at_zero [OF p(1,1) that] z by simp
  note E = empty_table [OF p(1) this]
  have "vm_inv bf lo p st1" using v1 p(2) E by (simp add: vm_inv_def)
  then show "vm_inv bf lo p st1 \<and> (\<forall>va. entry (ram st1) p va = None) \<and> tables (ram st1) p = {p} \<and>
    vm_inv bf lo root st1 \<and> vm_ext bf lo root st st1 \<and> p \<in> pages bf lo (heap st1) \<and> p \<notin> pages bf lo (heap st) \<and>
    (\<forall>va. entry (ram st1) root va = entry (ram st) root va) \<and> tables (ram st1) root = tables (ram st) root"
    using E(1,4) v1 x1 p(2,3) t same_leaves_entry [OF l1] by simp
qed

end

lemma boot_spare:
  assumes "leaf_size s = 16" "nsizes s = 24" "base s < KERNEL_BASE + 64 * 1024 * 1024" "lo \<le> base s + 2 ^ 21 * 16"
    "used bf s = {(0, b) |b. b < 2 ^ 23 \<and> \<not> (lo \<le> base s + b * 16 \<and> base s + b * 16 < PHYSTOP)}"
  shows "spare bf s 8192"
proof -
  have "fits s PGSIZE 8" using assms(1) by (simp add: fits_def bsz_def PGSIZE_def)
  moreover have "blk_in (msz s) 8 b" if "b \<in> {8192 ..< 16384}" for b
    using that assms(2) by (simp add: blk_in_def msz_def)
  moreover have "region s x \<inter> region s (8, b) = {}" if b: "b \<in> {8192 ..< 16384}" and "x \<in> used bf s" for b x
  proof -
    from that assms(5) obtain c where x: "x = (0, c)" and c: "\<not> (lo \<le> base s + c * 16 \<and> base s + c * 16 < PHYSTOP)"
      by blast
    have "\<not> (b * 256 \<le> c \<and> c < (b + 1) * 256)"
    proof
      assume bc: "b * 256 \<le> c \<and> c < (b + 1) * 256"
      then have "2 ^ 21 * 16 \<le> c * 16" "c < 16384 * 256" using b by auto
      then have "lo \<le> base s + c * 16" "base s + c * 16 < PHYSTOP"
        using assms(3,4) by (auto simp: PHYSTOP_def MEM_SIZE_def)
      then show False using c by blast
    qed
    then show ?thesis using x assms(1) by (auto simp: region_def baddr_def bsz_def)
  qed
  ultimately show ?thesis
    unfolding spare_def by (intro exI [of _ 8] exI [of _ "{8192 ..< 16384}"]) auto
qed

lemma boot_heap:
  "\<exists>s lo. kinit std_bitops (bs_uninit demo_mem) 0x80200000 = Ret s \<and> page_inv std_bitops lo s \<and>
     0x80200000 < lo \<and> spare std_bitops s 8192"
proof -
  obtain s lo where s: "kinit std_bitops (bs_uninit demo_mem) 0x80200000 = Ret s" "page_inv std_bitops lo s"
    "0x80200000 \<le> base s" "base s < lo" "leaf_size s = 16" "nsizes s = 24"
    "base s < KERNEL_BASE + 64 * 1024 * 1024" "lo \<le> base s + 2 ^ 21 * 16"
    "used std_bitops s = {(0, b) |b. b < 2 ^ 23 \<and> \<not> (lo \<le> base s + b * 16 \<and> base s + b * 16 < PHYSTOP)}"
    using kinit_heap [OF std_bit.bit_field_axioms, of "0x80200000" demo_mem]
    unfolding KERNEL_BASE_def PGSIZE_def by fastforce
  show ?thesis using s(1-4) boot_spare [OF s(5-9)] by (intro exI [of _ s] exI [of _ lo]) simp
qed

definition boot_vm :: "buddy_system \<Rightarrow> vm" where
  "boot_vm s = \<lparr>ram = (\<lambda>_. 0), heap = s\<rparr>"

lemma boot_inv:
  assumes "page_inv bf lo s" "0x80200000 < lo"
  shows "vm_inv bf lo 0x80100000 (boot_vm s)" "entry (ram (boot_vm s)) 0x80100000 va = None"
    "tables (ram (boot_vm s)) 0x80100000 = {0x80100000}"
proof -
  have a: "is_page_aligned 0x80100000" by (simp add: is_page_aligned_def PGSIZE_def)
  note E = empty_table [OF a, of "\<lambda>_. 0"]
  show t: "tables (ram (boot_vm s)) 0x80100000 = {0x80100000}" "entry (ram (boot_vm s)) 0x80100000 va = None"
    using E(1,4) by (simp_all add: boot_vm_def pte_at_def read64_def)
  show "vm_inv bf lo 0x80100000 (boot_vm s)"
    using assms E(2) t unfolding vm_inv_def by (simp add: boot_vm_def pte_at_def read64_def PGSIZE_def)
qed

context buddy_bits
begin

lemma page_bound: "page_inv bf lo h \<Longrightarrow> p \<in> pages bf lo h \<Longrightarrow> p + PGSIZE < usize_lim"
proof -
  assume a: "page_inv bf lo h" "p \<in> pages bf lo h"
  then obtain n where n: "PGSIZE \<le> n" "(p, n) \<in> handed bf lo h" by (auto simp: pages_def)
  have "shape lo h" using a(1) unfolding page_inv_def by (blast intro: inv_shape)
  from handed_bounds(2) [OF this n(2)] n(1) show ?thesis by simp
qed

end

text \<open>A parent with one page of memory and a child with an empty table.\<close>

lemma demo_fork:
  "\<exists>lo root child st. vm_inv std_bitops lo child st \<and> parent_ok std_bitops lo root child 1 st \<and>
     (\<forall>va. entry (ram st) child va = None) \<and> spare std_bitops (heap st) 3"
proof -
  obtain s lo where s: "page_inv std_bitops lo s" "0x80200000 < lo" "spare std_bitops s 8192"
    using boot_heap by blast
  note I = boot_inv [OF s(1,2)]
  have h: "page_inv std_bitops lo (heap (boot_vm s))" "spare std_bitops (heap (boot_vm s)) (Suc 7)"
    using s spare_mono [of _ _ 8192 8] by (simp_all add: boot_vm_def)
  from supplied_ok [OF std_buddy.uvmcreate_ok [OF I(1)], OF std_buddy.supplied_new [OF h, folded uvmcreate_def]]
  obtain root st1 where 1: "uvmcreate std_bitops (boot_vm s) = Ret (root, st1)" "vm_inv std_bitops lo root st1"
    "\<forall>va. entry (ram st1) root va = None" "root \<in> pages std_bitops lo (heap st1)" by auto
  have h1: "page_inv std_bitops lo (heap st1)" "spare std_bitops (heap st1) 7"
    using std_buddy.supplied_new [OF h] 1(1) by (simp_all add: uvmcreate_def)
  have sz: "(PGSIZE + PGSIZE - 1) div PGSIZE = 1" "(0 + PGSIZE - 1) div PGSIZE = 0" by (simp_all add: PGSIZE_def)
  have sup: "supplied std_bitops lo 4 (uvm_alloc std_bitops st1 root 0 PGSIZE)"
    by (rule std_buddy.supplied_alloc [OF h1(1)]) (use h1(2) in \<open>simp add: PGSIZE_def\<close>)
  have "oom_or (\<lambda>(r, st'). r = Some PGSIZE \<and> vm_inv std_bitops lo root st' \<and> vm_ext std_bitops lo root st1 st' \<and>
      filled std_bitops lo root 0 1 (\<lambda>_. urwx) (\<lambda>_ _. 0) st1 st') (uvm_alloc std_bitops st1 root 0 PGSIZE)"
    using std_buddy.uvm_alloc_ok [OF 1(2), of 0 PGSIZE] 1(3) unfolding sz by (simp add: layout_defs)
  from supplied_ok [OF this sup] obtain st2 where 2: "uvm_alloc std_bitops st1 root 0 PGSIZE = Ret (Some PGSIZE, st2)"
    "vm_inv std_bitops lo root st2" "vm_ext std_bitops lo root st1 st2"
    "filled std_bitops lo root 0 1 (\<lambda>_. urwx) (\<lambda>_ _. 0) st1 st2" by auto
  have h2: "page_inv std_bitops lo (heap st2)" "spare std_bitops (heap st2) (Suc 3)"
    using sup 2(1) by (simp_all add: eval_nat_numeral)
  from 2(4) obtain p where p: "entry (ram st2) root 0 = Some (write_perm p urwx)" "p \<in> pages std_bitops lo (heap st2)"
    "is_page_aligned p" by (auto simp: filled_def PGSIZE_def)
  from supplied_ok [OF std_buddy.uvmcreate_ok [OF 2(2)], OF std_buddy.supplied_new [OF h2, folded uvmcreate_def]]
  obtain child st3 where 3: "uvmcreate std_bitops st2 = Ret (child, st3)" "vm_inv std_bitops lo child st3"
    "\<forall>va. entry (ram st3) child va = None" "tables (ram st3) child = {child}" "vm_inv std_bitops lo root st3"
    "vm_ext std_bitops lo root st2 st3" "child \<notin> pages std_bitops lo (heap st2)"
    "\<forall>va. entry (ram st3) root va = entry (ram st2) root va" "tables (ram st3) root = tables (ram st2) root" by auto
  have h3: "spare std_bitops (heap st3) 3"
    using std_buddy.supplied_new [OF h2] 3(1) by (simp add: uvmcreate_def)
  note mono = vm_extD(1) [OF 2(3)] vm_extD(1) [OF 3(6)]
  have ts: "tables (ram st3) root \<subseteq> pages std_bitops lo (heap st2)"
    using 2(2) 1(4) mono(1) 3(9) by (auto simp: vm_inv_def)
  have pl: "p < usize_lim" using std_buddy.page_bound [OF h2(1) p(2)] by simp
  have "parent_ok std_bitops lo root child 1 st3"
    unfolding parent_ok_def using 3(4,5,7,8) ts mono(2) p as_pagetable_write_perm [OF p(3) urwx_lt pl]
    by (auto simp: vm_inv_def)
  then show ?thesis using 3(2,3) h3 by blast
qed

text \<open>C5: \<open>map\<close> of a range that is not mapped yet either runs out of heap or maps exactly the pages of
  the range to consecutive physical pages with the given permissions: every address below \<open>MAXVA\<close> then
  translates to its new page inside the range and as before outside, the table stays well formed, and
  memory in use that is not part of the table keeps its contents.\<close>

theorem pgt_map_correct:
  assumes "bit_field bf" "vm_inv bf lo root st" "is_page_aligned pa" "perm < 0x400"
    "va + sz \<le> MAXVA + PGSIZE" "pa + npages va sz * PGSIZE < usize_lim"
    "\<forall>k < npages va sz. entry (ram st) root (va div PGSIZE * PGSIZE + k * PGSIZE) = None"
  shows "oom_or (\<lambda>(ok, st'). ok \<and> vm_inv bf lo root st' \<and>
    (\<forall>va' \<le> MAXVA. pgt_translate (ram st') root va' =
      (if va div PGSIZE * PGSIZE \<le> va' \<and> va' < va div PGSIZE * PGSIZE + npages va sz * PGSIZE
       then Some (pa + (va' - va div PGSIZE * PGSIZE) div PGSIZE * PGSIZE) else pgt_translate (ram st) root va')) \<and>
    (\<forall>p \<in> pages bf lo (heap st) - tables (ram st) root. \<forall>j < 512. ram st' (p div 8 + j) = ram st (p div 8 + j)))
    (pgt_map bf st root va pa sz perm)"
proof (rule oom_or_mono)
  let ?b = "va div PGSIZE * PGSIZE" and ?n = "npages va sz"
  show "oom_or (\<lambda>(ok, st'). ok \<and> vm_inv bf lo root st' \<and> vm_ext bf lo root st st' \<and>
    mapped root ?b pa ?n perm st st') (pgt_map bf st root va pa sz perm)"
    by (rule buddy_bits.pgt_map_ok [OF buddy_bitsI [OF assms(1)] assms(2-6)]) (simp add: assms(7))
  fix y assume "case y of (ok, st') \<Rightarrow> ok \<and> vm_inv bf lo root st' \<and> vm_ext bf lo root st st' \<and> mapped root ?b pa ?n perm st st'"
  then obtain st' where y: "y = (True, st')" and v: "vm_inv bf lo root st'" and x: "vm_ext bf lo root st st'"
    and m: "mapped root ?b pa ?n perm st st'" by (cases y) auto
  have "pgt_translate (ram st') root va' = (if ?b \<le> va' \<and> va' < ?b + ?n * PGSIZE
      then Some (pa + (va' - ?b) div PGSIZE * PGSIZE) else pgt_translate (ram st) root va')" if va': "va' \<le> MAXVA" for va'
  proof -
    have l: "va' < 2 ^ 39" using va' by (simp add: MAXVA_def)
    have "as_pagetable (write_perm (pa + (va' - ?b) div PGSIZE * PGSIZE) perm) = pa + (va' - ?b) div PGSIZE * PGSIZE"
      if "?b \<le> va' \<and> va' < ?b + ?n * PGSIZE"
    proof (rule as_pagetable_write_perm [OF _ assms(4)])
      show "is_page_aligned (pa + (va' - ?b) div PGSIZE * PGSIZE)" using assms(3) by (simp add: is_page_aligned_def)
      have "(va' - ?b) div PGSIZE * PGSIZE \<le> va' - ?b" by (rule div_times_less_eq_dividend)
      then show "pa + (va' - ?b) div PGSIZE * PGSIZE < usize_lim" using that assms(6) by linarith
    qed
    then show ?thesis using m l va' unfolding mapped_def pgt_translate_entry [OF va'] by simp
  qed
  moreover have "ram st' (p div 8 + j) = ram st (p div 8 + j)"
    if "p \<in> pages bf lo (heap st) - tables (ram st) root" "j < 512" for p j
    using ext_keeps_page(1) [OF x v _ _ in_page_cell [OF that(2)]] that(1) by simp
  ultimately show "case y of (ok, st') \<Rightarrow> ok \<and> vm_inv bf lo root st' \<and> (\<forall>va' \<le> MAXVA. pgt_translate (ram st') root va' =
      (if ?b \<le> va' \<and> va' < ?b + ?n * PGSIZE then Some (pa + (va' - ?b) div PGSIZE * PGSIZE) else pgt_translate (ram st) root va')) \<and>
    (\<forall>p \<in> pages bf lo (heap st) - tables (ram st) root. \<forall>j < 512. ram st' (p div 8 + j) = ram st (p div 8 + j))"
    using y v by simp
qed

theorem pgt_map_correct_witness:
  "\<exists>st st'. pgt_map std_bitops st 0x80100000 UART0 UART0 PGSIZE (PTE_R OR PTE_W) = Ret (True, st') \<and>
     pgt_translate (ram st') 0x80100000 UART0 = Some UART0"
proof -
  obtain s lo where s: "page_inv std_bitops lo s" "0x80200000 < lo" "spare std_bitops s 8192"
    using boot_heap by blast
  note I = boot_inv [OF s(1,2)]
  have al: "is_page_aligned UART0" by (simp add: is_page_aligned_def UART0_def PGSIZE_def)
  have n: "npages UART0 PGSIZE = 1" by (rule npages_page [OF al])
  have p: "PTE_R OR PTE_W < 0x400" by (simp add: PTE_R_def PTE_W_def push_bit_eq_mult)
  have sup: "supplied std_bitops lo 8190 (pgt_map std_bitops (boot_vm s) 0x80100000 UART0 UART0 PGSIZE (PTE_R OR PTE_W))"
    by (rule std_buddy.supplied_map) (use s n in \<open>simp_all add: boot_vm_def\<close>)
  have r: "UART0 + PGSIZE \<le> MAXVA + PGSIZE" "UART0 + 1 * PGSIZE < usize_lim" "UART0 \<le> MAXVA"
    "UART0 \<le> UART0 \<and> UART0 < UART0 + 1 * PGSIZE"
    by (simp_all add: UART0_def layout_defs usize_lim_def)
  have e: "\<forall>k < 1. entry (ram (boot_vm s)) 0x80100000 (UART0 + k * PGSIZE) = None" using I(2) by simp
  note C = pgt_map_correct [OF std_bit.bit_field_axioms I(1) al p r(1), unfolded n round_aligned [OF al], OF r(2) e]
  from supplied_ok [OF C sup] obtain st' where
    "pgt_map std_bitops (boot_vm s) 0x80100000 UART0 UART0 PGSIZE (PTE_R OR PTE_W) = Ret (True, st')"
    "pgt_translate (ram st') 0x80100000 UART0 = Some (UART0 + (UART0 - UART0) div PGSIZE * PGSIZE)"
    using r(3,4) by auto
  then show ?thesis by (intro exI [of _ "boot_vm s"] exI [of _ st']) simp
qed

text \<open>C7: \<open>uvm_alloc\<close> grows user memory that is not mapped beyond its old end, or runs out of heap: it
  returns the new size and maps a new zeroed page, readable, writable, executable and accessible to the
  user, at every page number between the rounded sizes. The new pages are distinct, were not in use and
  are not tables; other translations and memory in use stay the same.\<close>

theorem uvm_alloc_correct:
  assumes "bit_field bf" "vm_inv bf lo root st" "old_size \<le> new_size" "new_size \<le> MAXVA + PGSIZE"
    "\<forall>v. (old_size + PGSIZE - 1) div PGSIZE \<le> v \<longrightarrow> v * PGSIZE < new_size \<longrightarrow> entry (ram st) root (v * PGSIZE) = None"
  shows "oom_or (\<lambda>(r, st'). r = Some new_size \<and> vm_inv bf lo root st' \<and> vm_ext bf lo root st st' \<and>
    filled bf lo root ((old_size + PGSIZE - 1) div PGSIZE) ((new_size + PGSIZE - 1) div PGSIZE)
      (\<lambda>_. urwx) (\<lambda>_ _. 0) st st')
    (uvm_alloc bf st root old_size new_size)"
  using buddy_bits.uvm_alloc_ok [OF buddy_bitsI [OF assms(1)] assms(2-4)] assms(5) by blast

theorem uvm_alloc_correct_witness:
  "\<exists>st st' e. uvm_alloc std_bitops st 0x80100000 0 5000 = Ret (Some 5000, st') \<and>
     entry (ram st') 0x80100000 4096 = Some e \<and> entry (ram st') 0x80100000 8192 = None"
proof -
  obtain s lo where s: "page_inv std_bitops lo s" "0x80200000 < lo" "spare std_bitops s 8192"
    using boot_heap by blast
  note I = boot_inv [OF s(1,2)]
  have sup: "supplied std_bitops lo 8186 (uvm_alloc std_bitops (boot_vm s) 0x80100000 0 5000)"
    by (rule std_buddy.supplied_alloc) (use s in \<open>simp_all add: boot_vm_def PGSIZE_def\<close>)
  have sz: "(5000 + PGSIZE - 1) div PGSIZE = 2" "(0 + PGSIZE - 1) div PGSIZE = 0" "5000 \<le> MAXVA + PGSIZE"
    by (simp_all add: PGSIZE_def MAXVA_def)
  have z: "\<forall>v. 0 \<le> v \<longrightarrow> v * PGSIZE < 5000 \<longrightarrow> entry (ram (boot_vm s)) 0x80100000 (v * PGSIZE) = None"
    using I(2) by blast
  from supplied_ok [OF uvm_alloc_correct [OF std_bit.bit_field_axioms I(1) _ sz(3), of 0, unfolded sz, OF _ z] sup]
  obtain st' where st: "uvm_alloc std_bitops (boot_vm s) 0x80100000 0 5000 = Ret (Some 5000, st')"
    "filled std_bitops lo 0x80100000 0 2 (\<lambda>_. urwx) (\<lambda>_ _. 0) (boot_vm s) st'" by auto
  from st(2) obtain f where f: "\<forall>va < 2 ^ 39. entry (ram st') 0x80100000 va = (if 0 \<le> va div PGSIZE \<and> va div PGSIZE < 2
      then Some (write_perm (f (va div PGSIZE)) urwx) else entry (ram (boot_vm s)) 0x80100000 va)"
    unfolding filled_def by blast
  have "entry (ram st') 0x80100000 4096 = Some (write_perm (f 1) urwx)" "entry (ram st') 0x80100000 8192 = None"
    using f [rule_format, of 4096] f [rule_format, of 8192] I(2) by (simp_all add: PGSIZE_def)
  then show ?thesis using st(1) by blast
qed

text \<open>C6: \<open>uvm_copy\<close> copies a process image of \<open>e\<close> pages into an empty child, or runs out of heap: the
  child maps a new page at every page number below \<open>e\<close>, with the permissions and the contents of the
  page of the parent; the new pages are distinct, were not in use and are no tables, and the parent keeps
  its translations.\<close>

theorem uvm_copy_correct:
  assumes "bit_field bf" "vm_inv bf lo child st" "parent_ok bf lo root child e st" "e * PGSIZE \<le> MAXVA + PGSIZE"
    "\<forall>v < e. entry (ram st) child (v * PGSIZE) = None"
  shows "oom_or (\<lambda>(r, st'). r = Inr () \<and> vm_inv bf lo child st' \<and> vm_ext bf lo child st st' \<and>
    filled bf lo child 0 e (source_perm st root) (source_word st root) st st' \<and>
    (\<forall>va. entry (ram st') root va = entry (ram st) root va))
    (uvm_copy bf st root child (e * PGSIZE))"
proof -
  from buddy_bits.uvm_copy_loop_ok [OF buddy_bitsI [OF assms(1)] assms(2-4), of 0] assms(5)
  have L: "oom_or (\<lambda>(r, st'). r = Inr () \<and> vm_inv bf lo child st' \<and> vm_ext bf lo child st st' \<and>
    filled bf lo child 0 e (source_perm st root) (source_word st root) st st')
    (uvm_copy bf st root child (e * PGSIZE))" by (simp add: uvm_copy_def)
  show ?thesis by (rule oom_or_mono [OF L]) (use ext_keeps_parent(5) [OF _ _ assms(3)] in auto)
qed

theorem uvm_copy_correct_witness:
  "\<exists>st root child st' p. uvm_copy std_bitops st root child PGSIZE = Ret (Inr (), st') \<and> entry (ram st') child 0 = Some p"
proof -
  obtain lo root child st where d: "vm_inv std_bitops lo child st" "parent_ok std_bitops lo root child 1 st"
    "\<forall>va. entry (ram st) child va = None" "spare std_bitops (heap st) 3" using demo_fork by blast
  have sup: "supplied std_bitops lo 0 (uvm_copy std_bitops st root child (1 * PGSIZE))"
    unfolding uvm_copy_def
    using std_buddy.supplied_copy_loop [of lo st 1 0 0 root child] d(1,4) by (simp add: vm_inv_def)
  from supplied_ok [OF uvm_copy_correct [OF std_bit.bit_field_axioms d(1,2)] sup] obtain st' where
    st: "uvm_copy std_bitops st root child PGSIZE = Ret (Inr (), st')"
    "filled std_bitops lo child 0 1 (source_perm st root) (source_word st root) st st'"
    using d(3) by (auto simp: layout_defs)
  from st(2) obtain f where "\<forall>va < 2 ^ 39. entry (ram st') child va = (if 0 \<le> va div PGSIZE \<and> va div PGSIZE < 1
      then Some (write_perm (f (va div PGSIZE)) (source_perm st root (va div PGSIZE))) else entry (ram st) child va)"
    unfolding filled_def by blast
  from this [rule_format, of 0] have "\<exists>p. entry (ram st') child 0 = Some p" by simp
  then show ?thesis using st(1) by blast
qed

text \<open>C21: With three spare pages for every page to be added, \<open>uvm_alloc\<close> does not run out of heap: it
  returns the new size.\<close>

theorem uvm_alloc_returns:
  assumes "bit_field bf" "vm_inv bf lo root st" "old_size \<le> new_size" "new_size \<le> MAXVA + PGSIZE"
    "\<forall>v. (old_size + PGSIZE - 1) div PGSIZE \<le> v \<longrightarrow> v * PGSIZE < new_size \<longrightarrow> entry (ram st) root (v * PGSIZE) = None"
    "spare bf (heap st) (3 * ((new_size + PGSIZE - 1) div PGSIZE - (old_size + PGSIZE - 1) div PGSIZE) + n)"
  shows "\<exists>st'. uvm_alloc bf st root old_size new_size = Ret (Some new_size, st') \<and> spare bf (heap st') n"
proof -
  note B = buddy_bitsI [OF assms(1)]
  have sup: "supplied bf lo n (uvm_alloc bf st root old_size new_size)"
    by (rule buddy_bits.supplied_alloc [OF B _ assms(6)]) (use assms(2) in \<open>simp add: vm_inv_def\<close>)
  have ok: "oom_or (\<lambda>(r, st'). r = Some new_size) (uvm_alloc bf st root old_size new_size)"
    by (rule oom_or_mono [OF buddy_bits.uvm_alloc_ok [OF B assms(2-4)]]) (use assms(5) in auto)
  from supplied_ok [OF ok sup] sup show ?thesis by auto
qed

theorem uvm_alloc_returns_witness:
  "\<exists>st st'. uvm_alloc std_bitops st 0x80100000 100 20000 = Ret (Some 20000, st') \<and> spare std_bitops (heap st') 8180"
proof -
  obtain s lo where s: "page_inv std_bitops lo s" "0x80200000 < lo" "spare std_bitops s 8192"
    using boot_heap by blast
  note I = boot_inv [OF s(1,2)]
  from uvm_alloc_returns [OF std_bit.bit_field_axioms I(1), of 100 20000 8180] I(2) s(3)
  show ?thesis by (auto simp: layout_defs boot_vm_def)
qed

context buddy_bits
begin

lemma page_low: "page_inv bf lo h \<Longrightarrow> p \<in> pages bf lo h \<Longrightarrow> lo \<le> p"
proof -
  assume a: "page_inv bf lo h" "p \<in> pages bf lo h"
  then obtain n where n: "(p, n) \<in> handed bf lo h" by (auto simp: pages_def)
  have "shape lo h" using a(1) unfolding page_inv_def by (blast intro: inv_shape)
  from handed_bounds(1) [OF this n] show ?thesis .
qed

end

text \<open>C25: An Sv39 address is its three table indices and its offset in the page; every index is in the
  range of a table, for every address.\<close>

theorem va_decompose:
  "page_num va l < 512 \<and> (va < 2 ^ 39 \<longrightarrow>
     va = page_num va 2 * 2 ^ 30 + page_num va 1 * 2 ^ 21 + page_num va 0 * 2 ^ 12 + va mod PGSIZE)"
proof -
  have "va = page_num va 2 * 2 ^ 30 + page_num va 1 * 2 ^ 21 + page_num va 0 * 2 ^ 12 + va mod PGSIZE" if l: "va < 2 ^ 39"
  proof -
    have u: "va < usize_lim" using l by (simp add: usize_lim_def)
    have "va div PGSIZE < 2 ^ 27" using l by (simp add: PGSIZE_def div_less_iff_less_mult)
    note d = page_digits [OF this]
    have "page_num va 2 = va div PGSIZE div 2 ^ 18 mod 512" "page_num va 1 = va div PGSIZE div 2 ^ 9 mod 512"
      "page_num va 0 = va div PGSIZE mod 512"
      using u by (simp_all add: page_num_eq PGSIZE_def div_mult2_eq [symmetric])
    with d have "va div PGSIZE = page_num va 2 * 2 ^ 18 + page_num va 1 * 2 ^ 9 + page_num va 0" by metis
    then have "va div PGSIZE * 2 ^ 12 = (page_num va 2 * 2 ^ 18 + page_num va 1 * 2 ^ 9 + page_num va 0) * 2 ^ 12"
      by (rule arg_cong)
    also have "\<dots> = page_num va 2 * 2 ^ 30 + page_num va 1 * 2 ^ 21 + page_num va 0 * 2 ^ 12" by (simp add: algebra_simps)
    finally have "va div PGSIZE * 2 ^ 12 = page_num va 2 * 2 ^ 30 + page_num va 1 * 2 ^ 21 + page_num va 0 * 2 ^ 12" .
    moreover have "va = va div PGSIZE * 2 ^ 12 + va mod PGSIZE" using div_mult_mod_eq [of va PGSIZE] by (simp add: PGSIZE_def)
    ultimately show ?thesis by linarith
  qed
  then show ?thesis using page_num_lt by blast
qed

theorem va_decompose_witness:
  "TRAMPOLINE = page_num TRAMPOLINE 2 * 2 ^ 30 + page_num TRAMPOLINE 1 * 2 ^ 21 + page_num TRAMPOLINE 0 * 2 ^ 12 +
     TRAMPOLINE mod PGSIZE"
proof -
  have "TRAMPOLINE < 2 ^ 39" by (simp add: layout_defs)
  with va_decompose [of TRAMPOLINE 0] show ?thesis by blast
qed

text \<open>C26: A written page table entry is valid and gives back the address and the permissions it was
  written with.\<close>

theorem write_perm_roundtrip:
  assumes "is_page_aligned pa" "pa < usize_lim" "perm < 0x400"
  shows "as_pagetable (write_perm pa perm) = pa \<and> as_flags (write_perm pa perm) = perm OR PTE_V \<and>
    is_valid (write_perm pa perm) \<and> (is_read (write_perm pa perm) \<longleftrightarrow> bit perm 1) \<and>
    (is_write (write_perm pa perm) \<longleftrightarrow> bit perm 2) \<and> (is_execute (write_perm pa perm) \<longleftrightarrow> bit perm 3) \<and>
    (is_leaf (write_perm pa perm) \<longleftrightarrow> bit perm 1 \<or> bit perm 2 \<or> bit perm 3)"
  using as_pagetable_write_perm [OF assms(1,3,2)] as_flags_write_perm [OF assms(1,3)] is_valid_write_perm [OF assms(1,3)]
    write_perm_flags [OF assms(1,3)] by (simp add: flag_tests is_leaf_bits)

theorem write_perm_roundtrip_witness:
  "as_pagetable (write_perm KERNEL_BASE (PTE_R OR PTE_X)) = KERNEL_BASE \<and>
   \<not> is_write (write_perm KERNEL_BASE (PTE_R OR PTE_X))"
proof -
  have "is_page_aligned KERNEL_BASE" "KERNEL_BASE < usize_lim"
    by (simp_all add: is_page_aligned_def layout_defs usize_lim_def)
  moreover have "PTE_R OR PTE_X < 0x400" by (simp add: PTE_R_def PTE_X_def push_bit_eq_mult)
  ultimately show ?thesis using write_perm_roundtrip [of KERNEL_BASE "PTE_R OR PTE_X"] by (simp add: bit_or_iff)
qed

text \<open>User memory of two pages, as \<open>uvm_alloc\<close> sets it up.\<close>

lemma demo_user:
  "\<exists>m g. user_range m 0x80100000 g 0 4096 \<and> (\<forall>v \<in> {0, 1}. 0x80200000 < g v \<and> g v + PGSIZE < usize_lim)"
proof -
  obtain s lo where s: "page_inv std_bitops lo s" "0x80200000 < lo" "spare std_bitops s 8192"
    using boot_heap by blast
  note I = boot_inv [OF s(1,2)]
  have sz: "(8192 + PGSIZE - 1) div PGSIZE = 2" "(0 + PGSIZE - 1) div PGSIZE = 0" "8192 \<le> MAXVA + PGSIZE"
    by (simp_all add: PGSIZE_def MAXVA_def)
  have sup: "supplied std_bitops lo 8186 (uvm_alloc std_bitops (boot_vm s) 0x80100000 0 8192)"
    by (rule std_buddy.supplied_alloc) (use s in \<open>simp_all add: boot_vm_def PGSIZE_def\<close>)
  have "oom_or (\<lambda>(r, st'). r = Some 8192 \<and> vm_inv std_bitops lo 0x80100000 st' \<and> vm_ext std_bitops lo 0x80100000 (boot_vm s) st' \<and>
      filled std_bitops lo 0x80100000 0 2 (\<lambda>_. urwx) (\<lambda>_ _. 0) (boot_vm s) st') (uvm_alloc std_bitops (boot_vm s) 0x80100000 0 8192)"
    using std_buddy.uvm_alloc_ok [OF I(1) _ sz(3), of 0, unfolded sz] I(2) by simp
  from supplied_ok [OF this sup] obtain st where st: "vm_inv std_bitops lo 0x80100000 st"
    "filled std_bitops lo 0x80100000 0 2 (\<lambda>_. urwx) (\<lambda>_ _. 0) (boot_vm s) st" by auto
  from st(2) obtain f where f1: "inj_on f {0 ..< 2}"
    and f2: "\<forall>va < 2 ^ 39. entry (ram st) 0x80100000 va = (if 0 \<le> va div PGSIZE \<and> va div PGSIZE < 2
      then Some (write_perm (f (va div PGSIZE)) urwx) else entry (ram (boot_vm s)) 0x80100000 va)"
    and f3: "\<forall>v \<in> {0 ..< 2}. is_page_aligned (f v) \<and> f v \<in> pages std_bitops lo (heap st) \<and> f v \<notin> tables (ram st) 0x80100000"
    unfolding filled_def by blast
  have f: "is_page_aligned (f v)" "f v \<in> pages std_bitops lo (heap st)" "f v \<notin> tables (ram st) 0x80100000" if "v < 2" for v
    using f3 that by simp_all
  have i: "page_inv std_bitops lo (heap st)" "pt_wf (ram st) 0x80100000" using st(1) by (auto simp: vm_inv_def)
  have b: "f v + PGSIZE < usize_lim" "lo \<le> f v" if "v < 2" for v
    using std_buddy.page_bound [OF i(1) f(2) [OF that]] std_buddy.page_low [OF i(1) f(2) [OF that]] .
  have t: "pgt_translate (ram st) 0x80100000 (v * PGSIZE) = Some (f v)" if "v < 2" for v
  proof -
    have l: "v * PGSIZE \<le> MAXVA" "v * PGSIZE < 2 ^ 39" "v * PGSIZE div PGSIZE = v" using that by (auto simp: layout_defs)
    have "as_pagetable (write_perm (f v) urwx) = f v"
      by (rule as_pagetable_write_perm [OF f(1) [OF that] urwx_lt]) (use b(1) [OF that] in simp)
    then show ?thesis using f2 [rule_format, OF l(2)] l(3) that by (simp add: pgt_translate_entry [OF l(1)])
  qed
  have r: "{0 div PGSIZE .. (0 + 4096) div PGSIZE} = {0 ..< 2}" by (auto simp: PGSIZE_def)
  have "0 + 4096 \<le> MAXVA" by (simp add: MAXVA_def)
  then have "user_range (ram st) 0x80100000 f 0 4096"
    unfolding user_range_def r using i(2) f1 f t by simp
  moreover have "0x80200000 < f v \<and> f v + PGSIZE < usize_lim" if "v \<in> {0, 1}" for v
    using b [of v] that s(2) by auto
  ultimately show ?thesis by blast
qed



text \<open>C22: \<open>copy_in\<close> of a buffer that ends before the end of its page copies the user bytes to kernel
  memory and changes nothing else.\<close>

theorem copy_in_correct:
  assumes "src < usize_lim" "pgt_translate m root (src div PGSIZE * PGSIZE) = Some p" "p + PGSIZE < usize_lim"
    "src mod PGSIZE + len < PGSIZE" "\<forall>i < len. \<forall>j < len. p + src mod PGSIZE + i \<noteq> dst + j"
  shows "\<exists>m'. copy_in m root dst src len = Ret (Inr (), m') \<and> (\<forall>b. read8 m' b =
    (if dst \<le> b \<and> b < dst + len then read8 m (p + src mod PGSIZE + (b - dst)) else read8 m b))"
  using copy_in_page [OF assms(1-4)] read8_mem_copy [OF assms(5)] by blast

theorem copy_in_correct_witness:
  "\<exists>m m' p. copy_in m 0x80100000 0x80000000 100 50 = Ret (Inr (), m') \<and> read8 m' 0x80000007 = read8 m (p + 107)"
proof -
  obtain m g where d: "user_range m 0x80100000 g 0 4096" "0x80200000 < g 0" "g 0 + PGSIZE < usize_lim" using demo_user by blast
  have t: "pgt_translate m 0x80100000 (100 div PGSIZE * PGSIZE) = Some (g 0)"
    using user_rangeD(4) [OF d(1), of 0] by (simp add: PGSIZE_def)
  have n: "\<forall>i < 50. \<forall>j < 50. g 0 + 100 mod PGSIZE + i \<noteq> 0x80000000 + j" using d(2) by (auto simp: PGSIZE_def)
  from copy_in_correct [OF _ t d(3) _ n] obtain m' where c: "copy_in m 0x80100000 0x80000000 100 50 = Ret (Inr (), m')"
    "\<forall>b. read8 m' b = (if 0x80000000 \<le> b \<and> b < 0x80000000 + 50 then read8 m (g 0 + 100 mod PGSIZE + (b - 0x80000000)) else read8 m b)"
    by (auto simp: usize_lim_def PGSIZE_def)
  from c(2) [rule_format, of "0x80000007"] have "read8 m' 0x80000007 = read8 m (g 0 + 107)" by (simp add: PGSIZE_def add.commute)
  then show ?thesis using c(1) by blast
qed

text \<open>C23: \<open>copy_in\<close> never returns for a buffer that reaches the end of its page, also when all its pages
  are mapped: the second round subtracts a larger address from the start of the buffer and panics.\<close>

theorem copy_in_page_end_panics:
  assumes "src < usize_lim" "PGSIZE \<le> src mod PGSIZE + len"
  shows "\<exists>e. copy_in m root dst src len = Panic e"
  by (rule copy_in_cross [OF assms])

theorem copy_in_page_end_panics_witness: "\<exists>e. copy_in (\<lambda>_. 0) 0x80100000 0x80000000 4000 96 = Panic e"
  using copy_in_page_end_panics [of 4000 96] by (simp add: usize_lim_def PGSIZE_def)



text \<open>\<open>uvm_unmap\<close> leaves the translations of the pages in place.\<close>

lemma uvm_unmap_keeps_translation:
  assumes "uvm_unmap st root va n fr = Ret st'" "k < n" "va + n * PGSIZE \<le> MAXVA"
  shows "pgt_translate (ram st') root (va + k * PGSIZE) \<noteq> None"
proof -
  have L: "uvm_unmap_loop m root n va = Ret () \<Longrightarrow> k < n \<Longrightarrow> va + n * PGSIZE \<le> MAXVA \<Longrightarrow>
    pgt_translate m root (va + k * PGSIZE) \<noteq> None" for m
  proof (induction n arbitrary: va k)
    case (Suc n)
    from Suc.prems(1) obtain a where a: "translate m root va = Some a" "is_valid (read64 m a)"
      and r: "bnd (add_page va) (uvm_unmap_loop m root n) = Ret ()"
      by (auto split: option.splits if_splits)
    show ?case
    proof (cases k)
      case 0
      then show ?thesis using a Suc.prems(3) by (simp add: pgt_translate_def Let_def flag_tests)
    next
      case (Suc k')
      from r have "uvm_unmap_loop m root n (va + PGSIZE) = Ret ()"
        by (auto simp: bnd_eq_Ret add_page_def uadd_def split: if_splits)
      from Suc.IH [OF this, of k'] Suc Suc.prems(2,3) show ?thesis by (simp add: algebra_simps)
    qed
  qed simp
  from assms(1) have "uvm_unmap_loop (ram st) root n va = Ret ()" "st' = st"
    by (auto simp: uvm_unmap_def bnd_eq_Ret split: if_splits)
  then show ?thesis using L assms(2,3) by simp
qed

end
