(* ===== verification/FsParams.thy ===== *)
theory FsParams
  imports Params
begin

unbundle bit_operations_syntax

text \<open>
  The constants of the file system (\<open>kernel/src/arch/riscv/qemu/fs.rs\<close>) and the bytes of disk blocks.
  A block is a list of \<open>BSIZE\<close> bytes; the kernel reads and writes its structures in place, in the
  little-endian \<open>repr(C)\<close> layout, as unsigned integers of 16 and 32 bits.
\<close>

definition FSMAGIC :: nat where "FSMAGIC = 0x10203040"

definition BSIZE :: nat where "BSIZE = 1024"

definition MAXOPBLOCKS :: nat where "MAXOPBLOCKS = 10"

definition NBUF :: nat where "NBUF = MAXOPBLOCKS * 3"

definition LOGSIZE :: nat where "LOGSIZE = MAXOPBLOCKS * 3"

definition NOFILE :: nat where "NOFILE = 16"

definition NFILE :: nat where "NFILE = 100"

definition NINODE :: nat where "NINODE = 50"

definition ROOTDEV :: nat where "ROOTDEV = 1"

definition ROOTIPATH :: "8 word list" where "ROOTIPATH = [47, 0]"

definition FSSIZE :: nat where "FSSIZE = 1000"

definition ROOTINUM :: nat where "ROOTINUM = 1"

definition NDIRECT :: nat where "NDIRECT = 12"

definition NINDIRECT :: nat where "NINDIRECT = BSIZE div 8"

definition MAXFILE :: nat where "MAXFILE = NDIRECT + NINDIRECT"

definition DIRSIZ :: nat where "DIRSIZ = 14"

text \<open>\<open>size_of::<DiskInode>()\<close>: four 16-bit fields, the size, and the block addresses.\<close>

definition sizeof_dinode :: nat where "sizeof_dinode = 2 + 2 + 2 + 2 + 4 + 4 * (NDIRECT + 1)"

definition IPB :: nat where "IPB = BSIZE div sizeof_dinode"

definition BPB :: nat where "BPB = BSIZE * 8"

definition major_num :: "64 word \<Rightarrow> 64 word" where
  "major_num d = drop_bit 16 d AND 0xFFFF"

definition minor_num :: "64 word \<Rightarrow> 64 word" where
  "minor_num d = d AND 0xFFFF"

definition mkdev :: "64 word \<Rightarrow> 64 word \<Rightarrow> 64 word" where
  "mkdev m n = push_bit 16 m OR n"

datatype OpenMode = RDONLY | WRONLY | RDWR | CREATE | TRUNC | INVALID

definition mode :: "nat \<Rightarrow> OpenMode" where
  "mode item = (if item = 0x000 then RDONLY else if item = 0x001 then WRONLY else if item = 0x002 then RDWR
     else if item = 0x200 then CREATE else if item = 0x400 then TRUNC else INVALID)"

lemmas fs_defs = BSIZE_def MAXOPBLOCKS_def NBUF_def LOGSIZE_def NDIRECT_def NINDIRECT_def MAXFILE_def DIRSIZ_def
  sizeof_dinode_def IPB_def BPB_def

text \<open>Checked arithmetic on \<open>u32\<close>.\<close>

definition u32_lim :: nat where "u32_lim = 2 ^ 32"

definition add32 :: "nat \<Rightarrow> nat \<Rightarrow> nat outcome" where
  "add32 a b = (if a + b < u32_lim then Ret (a + b) else Panic ''attempt to add with overflow'')"

lemma add32_Ret: "a + b < u32_lim \<Longrightarrow> add32 a b = Ret (a + b)"
  by (simp add: add32_def)

type_synonym block = "8 word list"

text \<open>Bytes at an offset, and little-endian integers of \<open>n\<close> bytes.\<close>

definition get_bytes :: "block \<Rightarrow> nat \<Rightarrow> nat \<Rightarrow> 8 word list" where
  "get_bytes b off n = take n (drop off b)"

definition put_bytes :: "block \<Rightarrow> nat \<Rightarrow> 8 word list \<Rightarrow> block" where
  "put_bytes b off vs = take off b @ vs @ drop (off + length vs) b"

primrec le_enc :: "nat \<Rightarrow> nat \<Rightarrow> 8 word list" where
  "le_enc 0 v = []"
| "le_enc (Suc n) v = of_nat v # le_enc n (v div 256)"

primrec le_dec :: "8 word list \<Rightarrow> nat" where
  "le_dec [] = 0"
| "le_dec (b # bs) = unat b + 256 * le_dec bs"

definition rd16 :: "block \<Rightarrow> nat \<Rightarrow> nat" where "rd16 b off = le_dec (get_bytes b off 2)"

definition wr16 :: "block \<Rightarrow> nat \<Rightarrow> nat \<Rightarrow> block" where "wr16 b off v = put_bytes b off (le_enc 2 v)"

definition rd32 :: "block \<Rightarrow> nat \<Rightarrow> nat" where "rd32 b off = le_dec (get_bytes b off 4)"

definition wr32 :: "block \<Rightarrow> nat \<Rightarrow> nat \<Rightarrow> block" where "wr32 b off v = put_bytes b off (le_enc 4 v)"

lemma length_le_enc [simp]: "length (le_enc n v) = n"
  by (induction n arbitrary: v) auto

lemma le_dec_enc: "v < 256 ^ n \<Longrightarrow> le_dec (le_enc n v) = v"
proof (induction n arbitrary: v)
  case (Suc n)
  have "v div 256 < 256 ^ n" using Suc.prems by (simp add: div_less_iff_less_mult mult.commute)
  then show ?case using Suc.IH by (simp add: unsigned_of_nat take_bit_eq_mod)
qed simp

lemma le_dec_bound: "le_dec bs < 256 ^ length bs"
proof (induction bs)
  case (Cons b bs)
  have "unat b < 256" using unsigned_less [where ?'a = nat, of b] by simp
  then have "unat b + 256 * le_dec bs < 256 * (le_dec bs + 1)" by simp
  also have "\<dots> \<le> 256 * 256 ^ length bs" using Cons.IH by (intro mult_le_mono2) simp
  finally show ?case by simp
qed simp

lemma rd32_bound: "rd32 b off < u32_lim"
proof -
  have "le_dec (get_bytes b off 4) < 256 ^ length (get_bytes b off 4)" by (rule le_dec_bound)
  also have "\<dots> \<le> 256 ^ 4" by (rule power_increasing) (auto simp: get_bytes_def)
  finally show ?thesis by (simp add: rd32_def u32_lim_def)
qed

lemma length_put_bytes [simp]: "off + length vs \<le> length b \<Longrightarrow> length (put_bytes b off vs) = length b"
  by (simp add: put_bytes_def)

lemma nth_put_bytes:
  "off + length vs \<le> length b \<Longrightarrow> i < length b \<Longrightarrow>
   put_bytes b off vs ! i = (if off \<le> i \<and> i < off + length vs then vs ! (i - off) else b ! i)"
  by (auto simp: put_bytes_def nth_append min_def)

lemma get_put_same: "off + length vs \<le> length b \<Longrightarrow> get_bytes (put_bytes b off vs) off (length vs) = vs"
  by (simp add: get_bytes_def put_bytes_def)

lemma get_put_other:
  assumes "off + length vs \<le> length b" "o2 + n \<le> length b" "o2 + n \<le> off \<or> off + length vs \<le> o2"
  shows "get_bytes (put_bytes b off vs) o2 n = get_bytes b o2 n"
proof (rule nth_equalityI)
  have "length (put_bytes b off vs) = length b" using assms(1) by simp
  then show "length (get_bytes (put_bytes b off vs) o2 n) = length (get_bytes b o2 n)" by (simp add: get_bytes_def)
  fix i assume "i < length (get_bytes (put_bytes b off vs) o2 n)"
  then show "get_bytes (put_bytes b off vs) o2 n ! i = get_bytes b o2 n ! i"
    using assms nth_put_bytes [OF assms(1), of "o2 + i"] by (auto simp: get_bytes_def)
qed

lemma rd32_wr32:
  assumes "off + 4 \<le> length b" "o2 + 4 \<le> length b" "o2 = off \<or> o2 + 4 \<le> off \<or> off + 4 \<le> o2" "v < u32_lim"
  shows "rd32 (wr32 b off v) o2 = (if o2 = off then v else rd32 b o2)"
proof (cases "o2 = off")
  case True
  then show ?thesis using get_put_same [of off "le_enc 4 v" b] assms le_dec_enc [of v 4]
    by (simp add: rd32_def wr32_def u32_lim_def)
next
  case False
  then show ?thesis using get_put_other [of off "le_enc 4 v" b o2 4] assms by (simp add: rd32_def wr32_def)
qed

lemma rd16_wr16:
  assumes "off + 2 \<le> length b" "o2 + 2 \<le> length b" "o2 = off \<or> o2 + 2 \<le> off \<or> off + 2 \<le> o2" "v < 2 ^ 16"
  shows "rd16 (wr16 b off v) o2 = (if o2 = off then v else rd16 b o2)"
proof (cases "o2 = off")
  case True
  then show ?thesis using get_put_same [of off "le_enc 2 v" b] assms le_dec_enc [of v 2]
    by (simp add: rd16_def wr16_def)
next
  case False
  then show ?thesis using get_put_other [of off "le_enc 2 v" b o2 2] assms by (simp add: rd16_def wr16_def)
qed

lemma length_wr [simp]:
  "off + 4 \<le> length b \<Longrightarrow> length (wr32 b off v) = length b" "off + 2 \<le> length b \<Longrightarrow> length (wr16 b off v) = length b"
  by (simp_all add: wr32_def wr16_def)

end
