(* ===== verification/Bcache.thy ===== *)
theory Bcache
  imports FsParams
begin

text \<open>
  The buffer cache (\<open>kernel/src/fs/bio.rs\<close>). The control blocks form a doubly linked list in
  least-recently-used order; a pointer to a control block is its index in \<open>inner\<close>, the pointer to a
  reference count is the index too. The disk maps block numbers to blocks: the request that
  \<open>DISK.rw\<close> sends to the device names the block and not the device number. \<open>writes\<close> is the
  sequence of the blocks written so far. The model follows one process: to lock a buffer that is
  already locked means to sleep until it is released, which this process would never do.
\<close>

record buf_ctrl =
  bc_dev :: nat
  bc_blockno :: nat
  bc_prev :: "nat option"
  bc_next :: "nat option"
  refcnt :: nat
  bc_index :: nat

record buf_lru =
  inner :: "buf_ctrl list"
  lru_head :: "nat option"
  lru_tail :: "nat option"

record buf_inner =
  valid :: bool
  locked :: bool
  data :: block

record bcache =
  ctrl :: buf_lru
  bufs :: "buf_inner list"
  disk :: "nat \<Rightarrow> block"
  writes :: "(nat \<times> block) list"

record buf =
  b_index :: nat
  b_dev :: nat
  b_blockno :: nat

definition buf_ctrl_new :: buf_ctrl where
  "buf_ctrl_new = \<lparr>bc_dev = 0, bc_blockno = 0, bc_prev = None, bc_next = None, refcnt = 0, bc_index = 0\<rparr>"

definition buf_lru_new :: buf_lru where
  "buf_lru_new = \<lparr>inner = replicate NBUF buf_ctrl_new, lru_head = None, lru_tail = None\<rparr>"

definition buf_inner_new :: buf_inner where
  "buf_inner_new = \<lparr>valid = False, locked = False, data = replicate BSIZE 0\<rparr>"

definition bcache_new :: "(nat \<Rightarrow> block) \<Rightarrow> bcache" where
  "bcache_new d = \<lparr>ctrl = buf_lru_new, bufs = replicate NBUF buf_inner_new, disk = d, writes = []\<rparr>"

text \<open>The list of control blocks; every access of \<open>inner[i]\<close> is checked.\<close>

definition ctrl_at :: "buf_lru \<Rightarrow> nat \<Rightarrow> buf_ctrl outcome" where
  "ctrl_at l i = (if i < length (inner l) then Ret (inner l ! i) else Panic ''index out of bounds'')"

definition upd_ctrl :: "buf_lru \<Rightarrow> nat \<Rightarrow> (buf_ctrl \<Rightarrow> buf_ctrl) \<Rightarrow> buf_lru" where
  "upd_ctrl l i f = l\<lparr>inner := (inner l)[i := f (inner l ! i)]\<rparr>"

text \<open>A pointer that may be null: \<open>as_mut().map(..)\<close>.\<close>

definition upd_opt :: "buf_lru \<Rightarrow> nat option \<Rightarrow> (buf_ctrl \<Rightarrow> buf_ctrl) \<Rightarrow> buf_lru" where
  "upd_opt l p f = (case p of None \<Rightarrow> l | Some i \<Rightarrow> upd_ctrl l i f)"

definition binit_links :: "nat \<Rightarrow> buf_ctrl list \<Rightarrow> buf_ctrl list" where
  "binit_links len cs =
     fold (\<lambda>i cs. cs[i := (cs ! i)\<lparr>bc_prev := Some (i - 1), bc_next := Some (i + 1)\<rparr>]) [1..<len - 1]
       (cs[0 := (cs ! 0)\<lparr>bc_prev := None, bc_next := Some 1\<rparr>,
           len - 1 := (cs ! (len - 1))\<lparr>bc_prev := Some (len - 2), bc_next := None\<rparr>])"

definition binit_index :: "nat \<Rightarrow> buf_ctrl list \<Rightarrow> buf_ctrl list" where
  "binit_index len cs = fold (\<lambda>i cs. cs[i := (cs ! i)\<lparr>bc_index := i\<rparr>]) [0..<len] cs"

definition binit :: "bcache \<Rightarrow> bcache" where
  "binit c = (let len = length (inner (ctrl c)) in
     c\<lparr>ctrl := \<lparr>inner = binit_index len (binit_links len (inner (ctrl c))), lru_head = Some 0, lru_tail = Some (len - 1)\<rparr>\<rparr>)"

text \<open>
  The loops over the list. \<open>fuel\<close> bounds the number of steps; a list without cycles has at most
  \<open>length (inner l)\<close> nodes.
\<close>

fun find_cached_loop :: "nat \<Rightarrow> buf_lru \<Rightarrow> nat \<Rightarrow> nat \<Rightarrow> nat option \<Rightarrow> (nat option \<times> buf_lru) outcome" where
  "find_cached_loop fuel l dev blockno None = Ret (None, l)"
| "find_cached_loop 0 l dev blockno (Some b) = Panic ''endless list''"
| "find_cached_loop (Suc fuel) l dev blockno (Some b) =
     bnd (ctrl_at l b) (\<lambda>c.
     if bc_dev c = dev \<and> bc_blockno c = blockno
     then bnd (uadd (refcnt c) 1) (\<lambda>r. Ret (Some (bc_index c), upd_ctrl l b (\<lambda>c. c\<lparr>refcnt := r\<rparr>)))
     else find_cached_loop fuel l dev blockno (bc_next c))"

definition find_cached :: "buf_lru \<Rightarrow> nat \<Rightarrow> nat \<Rightarrow> (nat option \<times> buf_lru) outcome" where
  "find_cached l dev blockno = find_cached_loop (length (inner l)) l dev blockno (lru_head l)"

fun recycle_loop :: "nat \<Rightarrow> buf_lru \<Rightarrow> nat \<Rightarrow> nat \<Rightarrow> nat option \<Rightarrow> (nat option \<times> buf_lru) outcome" where
  "recycle_loop fuel l dev blockno None = Ret (None, l)"
| "recycle_loop 0 l dev blockno (Some b) = Panic ''endless list''"
| "recycle_loop (Suc fuel) l dev blockno (Some b) =
     bnd (ctrl_at l b) (\<lambda>c.
     if refcnt c = 0
     then bnd (uadd (refcnt c) 1) (\<lambda>r.
       Ret (Some (bc_index c), upd_ctrl l b (\<lambda>c. c\<lparr>bc_dev := dev, bc_blockno := blockno, refcnt := r\<rparr>)))
     else recycle_loop fuel l dev blockno (bc_prev c))"

definition recycle :: "buf_lru \<Rightarrow> nat \<Rightarrow> nat \<Rightarrow> (nat option \<times> buf_lru) outcome" where
  "recycle l dev blockno = recycle_loop (length (inner l)) l dev blockno (lru_tail l)"

definition move_to_head :: "buf_lru \<Rightarrow> nat \<Rightarrow> buf_lru" where
  "move_to_head l i =
     (let b = inner l ! i;
          l1 = (if lru_tail l = Some i \<and> bc_prev b \<noteq> None then l\<lparr>lru_tail := bc_prev b\<rparr> else l);
          l2 = upd_opt l1 (bc_next b) (\<lambda>c. c\<lparr>bc_prev := bc_prev b\<rparr>);
          l3 = upd_opt l2 (bc_prev (inner l2 ! i)) (\<lambda>c. c\<lparr>bc_next := bc_next (inner l2 ! i)\<rparr>);
          l4 = upd_ctrl l3 i (\<lambda>c. c\<lparr>bc_prev := None, bc_next := lru_head l3\<rparr>);
          l5 = upd_opt l4 (lru_head l4) (\<lambda>c. c\<lparr>bc_prev := Some i\<rparr>)
      in l5\<lparr>lru_head := Some i\<rparr>)"

definition move_if_no_ref :: "buf_lru \<Rightarrow> nat \<Rightarrow> buf_lru outcome" where
  "move_if_no_ref l i = bnd (ctrl_at l i) (\<lambda>c. bnd (usub (refcnt c) 1) (\<lambda>r.
     let l1 = upd_ctrl l i (\<lambda>c. c\<lparr>refcnt := r\<rparr>) in
     if r = 0 \<and> lru_head l1 \<noteq> Some i then Ret (move_to_head l1 i) else Ret l1))"

text \<open>\<open>self.bufs[i].data.lock()\<close> and its release.\<close>

definition lock_buf :: "bcache \<Rightarrow> nat \<Rightarrow> bcache outcome" where
  "lock_buf c i = (if i \<ge> length (bufs c) then Panic ''index out of bounds''
     else if locked (bufs c ! i) then Panic ''sleep''
     else Ret (c\<lparr>bufs := (bufs c)[i := (bufs c ! i)\<lparr>locked := True\<rparr>]\<rparr>))"

definition unlock_buf :: "bcache \<Rightarrow> nat \<Rightarrow> bcache" where
  "unlock_buf c i = c\<lparr>bufs := (bufs c)[i := (bufs c ! i)\<lparr>locked := False\<rparr>]\<rparr>"

definition set_valid :: "bcache \<Rightarrow> nat \<Rightarrow> bool \<Rightarrow> bcache outcome" where
  "set_valid c i v = (if i \<ge> length (bufs c) then Panic ''index out of bounds''
     else Ret (c\<lparr>bufs := (bufs c)[i := (bufs c ! i)\<lparr>valid := v\<rparr>]\<rparr>))"

definition bget :: "bcache \<Rightarrow> nat \<Rightarrow> nat \<Rightarrow> (buf \<times> bcache) outcome" where
  "bget c dev blockno =
     bnd (find_cached (ctrl c) dev blockno) (\<lambda>(found, l1).
     case found of
       Some i \<Rightarrow> bnd (lock_buf (c\<lparr>ctrl := l1\<rparr>) i) (\<lambda>c2. Ret (\<lparr>b_index = i, b_dev = dev, b_blockno = blockno\<rparr>, c2))
     | None \<Rightarrow>
         bnd (recycle l1 dev blockno) (\<lambda>(free, l2).
         case free of
           Some i \<Rightarrow> bnd (set_valid (c\<lparr>ctrl := l2\<rparr>) i False) (\<lambda>c3. bnd (lock_buf c3 i) (\<lambda>c4.
             Ret (\<lparr>b_index = i, b_dev = dev, b_blockno = blockno\<rparr>, c4)))
         | None \<Rightarrow> Panic ''no usable buffer''))"

text \<open>The data of a buffer (\<open>raw_data\<close>, \<open>raw_data_mut\<close>), and the transfer of \<open>DISK.rw\<close>.\<close>

definition raw_data :: "bcache \<Rightarrow> buf \<Rightarrow> block" where
  "raw_data c b = data (bufs c ! b_index b)"

definition raw_data_mut :: "bcache \<Rightarrow> buf \<Rightarrow> block \<Rightarrow> bcache" where
  "raw_data_mut c b d = c\<lparr>bufs := (bufs c)[b_index b := (bufs c ! b_index b)\<lparr>data := d\<rparr>]\<rparr>"

definition disk_rw :: "bcache \<Rightarrow> buf \<Rightarrow> bool \<Rightarrow> bcache" where
  "disk_rw c b writing =
     (if writing
      then c\<lparr>disk := (disk c)(b_blockno b := raw_data c b), writes := writes c @ [(b_blockno b, raw_data c b)]\<rparr>
      else raw_data_mut c b (disk c (b_blockno b)))"

definition bread :: "bcache \<Rightarrow> nat \<Rightarrow> nat \<Rightarrow> (buf \<times> bcache) outcome" where
  "bread c dev blockno =
     bnd (bget c dev blockno) (\<lambda>(b, c1).
     if b_index b \<ge> length (bufs c1) then Panic ''index out of bounds''
     else if \<not> valid (bufs c1 ! b_index b)
     then bnd (set_valid (disk_rw c1 b False) (b_index b) True) (\<lambda>c2. Ret (b, c2))
     else Ret (b, c1))"

definition brelse :: "bcache \<Rightarrow> nat \<Rightarrow> bcache outcome" where
  "brelse c i = bnd (move_if_no_ref (ctrl c) i) (\<lambda>l. Ret (c\<lparr>ctrl := l\<rparr>))"

definition bwrite :: "bcache \<Rightarrow> buf \<Rightarrow> bcache" where
  "bwrite c b = disk_rw c b True"

definition pin :: "bcache \<Rightarrow> buf \<Rightarrow> bcache outcome" where
  "pin c b = bnd (ctrl_at (ctrl c) (b_index b)) (\<lambda>k. bnd (uadd (refcnt k) 1) (\<lambda>r.
     Ret (c\<lparr>ctrl := upd_ctrl (ctrl c) (b_index b) (\<lambda>k. k\<lparr>refcnt := r\<rparr>)\<rparr>)))"

definition unpin :: "bcache \<Rightarrow> buf \<Rightarrow> bcache outcome" where
  "unpin c b = bnd (ctrl_at (ctrl c) (b_index b)) (\<lambda>k.
     if refcnt k \<le> 1 then Panic ''buf unpin not match''
     else Ret (c\<lparr>ctrl := upd_ctrl (ctrl c) (b_index b) (\<lambda>k. k\<lparr>refcnt := refcnt k - 1\<rparr>)\<rparr>))"

definition drop_buf :: "bcache \<Rightarrow> buf \<Rightarrow> bcache outcome" where
  "drop_buf c b = brelse (unlock_buf c (b_index b)) (b_index b)"

end
