(* ===== verification/BcacheLru.thy ===== *)
theory BcacheLru
  imports Bcache
begin

text \<open>
  The list of the buffer cache is a list: \<open>lru_inv l xs\<close> says that the links of the control blocks
  spell out the order \<open>xs\<close>, a permutation of the indices. The operations on the pointers implement
  the operations of the abstract order: search from the front, recycle from the back, move to front.
\<close>

definition hd_opt :: "nat list \<Rightarrow> nat option \<Rightarrow> nat option" where
  "hd_opt xs n = (case xs of [] \<Rightarrow> n | x # _ \<Rightarrow> Some x)"

definition last_opt :: "nat option \<Rightarrow> nat list \<Rightarrow> nat option" where
  "last_opt p xs = (if xs = [] then p else Some (last xs))"

primrec dseg :: "(nat \<Rightarrow> buf_ctrl) \<Rightarrow> nat option \<Rightarrow> nat list \<Rightarrow> nat option \<Rightarrow> bool" where
  "dseg f p [] n = True"
| "dseg f p (x # xs) n = (bc_prev (f x) = p \<and> bc_next (f x) = hd_opt xs n \<and> dseg f (Some x) xs n)"

definition lru_inv :: "buf_lru \<Rightarrow> nat list \<Rightarrow> bool" where
  "lru_inv l xs \<longleftrightarrow> xs \<noteq> [] \<and> distinct xs \<and> set xs = {..< length (inner l)} \<and> dseg ((!) (inner l)) None xs None \<and>
     lru_head l = Some (hd xs) \<and> lru_tail l = Some (last xs) \<and>
     (\<forall>k < length (inner l). bc_index (inner l ! k) = k)"

lemma hd_opt_simps [simp]: "hd_opt [] n = n" "hd_opt (x # xs) n = Some x"
  by (simp_all add: hd_opt_def)

lemma hd_opt_append: "hd_opt (xs @ ys) n = hd_opt xs (hd_opt ys n)"
  by (cases xs) auto

lemma last_opt_simps [simp]: "last_opt p [] = p" "last_opt p (xs @ [x]) = Some x"
  by (simp_all add: last_opt_def)

lemma last_opt_Cons: "last_opt p (x # xs) = last_opt (Some x) xs"
  by (simp add: last_opt_def)

lemma dseg_append: "dseg f p (xs @ ys) n \<longleftrightarrow> dseg f p xs (hd_opt ys n) \<and> dseg f (last_opt p xs) ys n"
  by (induction xs arbitrary: p) (auto simp: hd_opt_append last_opt_Cons)

lemma dseg_cong: "(\<And>x. x \<in> set xs \<Longrightarrow> f x = g x) \<Longrightarrow> dseg f p xs n = dseg g p xs n"
  by (induction xs arbitrary: p) auto

lemma dseg_other [simp]: "x \<notin> set xs \<Longrightarrow> dseg (f(x := v)) p xs n = dseg f p xs n"
  by (rule dseg_cong) auto

text \<open>Changing what is before the first and what is after the last element.\<close>

lemma dseg_first:
  "dseg f p (x # xs) n \<Longrightarrow> x \<notin> set xs \<Longrightarrow> dseg (f(x := (f x)\<lparr>bc_prev := q\<rparr>)) q (x # xs) n"
  by auto

lemma dseg_last:
  "dseg f p (xs @ [x]) n \<Longrightarrow> x \<notin> set xs \<Longrightarrow> dseg (f(x := (f x)\<lparr>bc_next := q\<rparr>)) p (xs @ [x]) q"
  by (auto simp: dseg_append)

lemma dseg_prev: "dseg f p (xs @ x # ys) n \<Longrightarrow> bc_prev (f x) = last_opt p xs \<and> bc_next (f x) = hd_opt ys n"
  by (simp add: dseg_append)

lemma dseg_rev_prev: "dseg f p (xs @ [x]) n \<Longrightarrow> bc_prev (f x) = last_opt p xs"
  by (simp add: dseg_append)

lemma nth_upd_ctrl: "i < length (inner l) \<Longrightarrow> (!) (inner (upd_ctrl l i f)) = ((!) (inner l))(i := f (inner l ! i))"
  by (auto simp: upd_ctrl_def fun_eq_iff nth_list_update)

lemma upd_ctrl_simps [simp]:
  "length (inner (upd_ctrl l i f)) = length (inner l)" "lru_head (upd_ctrl l i f) = lru_head l"
  "lru_tail (upd_ctrl l i f) = lru_tail l"
  by (simp_all add: upd_ctrl_def)

lemma upd_opt_simps [simp]:
  "length (inner (upd_opt l p f)) = length (inner l)" "lru_head (upd_opt l p f) = lru_head l"
  "lru_tail (upd_opt l p f) = lru_tail l"
  by (simp_all add: upd_opt_def split: option.split)

text \<open>Updates that keep the links keep the order.\<close>

lemma lru_inv_upd:
  assumes "lru_inv l xs" "i < length (inner l)" "\<And>c. bc_prev (f c) = bc_prev c" "\<And>c. bc_next (f c) = bc_next c"
    "\<And>c. bc_index (f c) = bc_index c"
  shows "lru_inv (upd_ctrl l i f) xs"
proof -
  have "dseg (((!) (inner l))(i := f (inner l ! i))) p ys n = dseg ((!) (inner l)) p ys n" for p ys n
    by (induction ys arbitrary: p) (auto simp: assms(3,4))
  then show ?thesis using assms(1,5) unfolding lru_inv_def nth_upd_ctrl [OF assms(2)] by auto
qed

text \<open>The loops are searches in the order.\<close>

lemma ctrl_at_Ret [simp]: "i < length (inner l) \<Longrightarrow> ctrl_at l i = Ret (inner l ! i)"
  by (simp add: ctrl_at_def)

lemma find_cached_loop_find:
  assumes "dseg ((!) (inner l)) p ys None" "set ys \<subseteq> {..< length (inner l)}" "length ys \<le> fuel"
    "\<And>k. k < length (inner l) \<Longrightarrow> bc_index (inner l ! k) = k"
    "\<And>k. k < length (inner l) \<Longrightarrow> bc_dev (inner l ! k) = dev \<Longrightarrow> bc_blockno (inner l ! k) = b \<Longrightarrow> refcnt (inner l ! k) + 1 < usize_lim"
  shows "find_cached_loop fuel l dev b (hd_opt ys None) =
    (case find (\<lambda>k. bc_dev (inner l ! k) = dev \<and> bc_blockno (inner l ! k) = b) ys of
       None \<Rightarrow> Ret (None, l)
     | Some k \<Rightarrow> Ret (Some k, upd_ctrl l k (\<lambda>c. c\<lparr>refcnt := refcnt (inner l ! k) + 1\<rparr>)))"
  using assms(1-3)
proof (induction ys arbitrary: fuel p)
  case (Cons y ys)
  then obtain g where f: "fuel = Suc g" by (cases fuel) auto
  have y: "y < length (inner l)" using Cons.prems(2) by simp
  show ?case
    using Cons.IH [of "Some y" g] Cons.prems y assms(4,5) [OF y]
    by (auto simp: f uadd_def)
qed simp

lemma recycle_loop_find:
  assumes "dseg ((!) (inner l)) None ys n" "set ys \<subseteq> {..< length (inner l)}" "length ys \<le> fuel"
    "\<And>k. k < length (inner l) \<Longrightarrow> bc_index (inner l ! k) = k"
  shows "recycle_loop fuel l dev b (last_opt None ys) =
    (case find (\<lambda>k. refcnt (inner l ! k) = 0) (rev ys) of
       None \<Rightarrow> Ret (None, l)
     | Some k \<Rightarrow> Ret (Some k, upd_ctrl l k (\<lambda>c. c\<lparr>bc_dev := dev, bc_blockno := b, refcnt := 1\<rparr>)))"
  using assms(1-3)
proof (induction ys arbitrary: fuel n rule: rev_induct)
  case (snoc y ys)
  then obtain g where f: "fuel = Suc g" by (cases fuel) auto
  have y: "y < length (inner l)" using snoc.prems(2) by simp
  have d: "dseg ((!) (inner l)) None ys (Some y)" "bc_prev (inner l ! y) = last_opt None ys"
    using snoc.prems(1) by (auto simp: dseg_append)
  show ?case
    using snoc.IH [OF d(1), of g] snoc.prems y assms(4) [OF y] d(2)
    by (auto simp: f uadd_def usize_lim_def)
qed simp

lemma lru_invD:
  assumes "lru_inv l xs"
  shows "xs \<noteq> []" "distinct xs" "set xs = {..< length (inner l)}" "dseg ((!) (inner l)) None xs None"
    "lru_head l = hd_opt xs None" "lru_tail l = last_opt None xs" "\<And>k. k < length (inner l) \<Longrightarrow> bc_index (inner l ! k) = k"
    "length xs = length (inner l)"
proof -
  show "xs \<noteq> []" "distinct xs" "set xs = {..< length (inner l)}" "dseg ((!) (inner l)) None xs None"
    "lru_head l = hd_opt xs None" "lru_tail l = last_opt None xs" "\<And>k. k < length (inner l) \<Longrightarrow> bc_index (inner l ! k) = k"
    using assms by (auto simp: lru_inv_def hd_opt_def last_opt_def split: list.split)
  then show "length xs = length (inner l)" using distinct_card [of xs] by simp
qed

lemma find_cached_ok:
  assumes "lru_inv l xs"
    "\<forall>k < length (inner l). bc_dev (inner l ! k) = dev \<longrightarrow> bc_blockno (inner l ! k) = b \<longrightarrow> refcnt (inner l ! k) + 1 < usize_lim"
  shows "find_cached l dev b =
    (case find (\<lambda>k. bc_dev (inner l ! k) = dev \<and> bc_blockno (inner l ! k) = b) xs of
       None \<Rightarrow> Ret (None, l)
     | Some k \<Rightarrow> Ret (Some k, upd_ctrl l k (\<lambda>c. c\<lparr>refcnt := refcnt (inner l ! k) + 1\<rparr>)))"
  using find_cached_loop_find [OF lru_invD(4) [OF assms(1)], of "length (inner l)" dev b] lru_invD [OF assms(1)] assms(2)
  by (simp add: find_cached_def)

lemma recycle_ok:
  assumes "lru_inv l xs"
  shows "recycle l dev b =
    (case find (\<lambda>k. refcnt (inner l ! k) = 0) (rev xs) of
       None \<Rightarrow> Ret (None, l)
     | Some k \<Rightarrow> Ret (Some k, upd_ctrl l k (\<lambda>c. c\<lparr>bc_dev := dev, bc_blockno := b, refcnt := 1\<rparr>)))"
  using recycle_loop_find [OF lru_invD(4) [OF assms(1)], of "length (inner l)" dev b] lru_invD [OF assms(1)]
  by (simp add: recycle_def)

text \<open>Moving an element other than the first to the front.\<close>

lemma move_links:
  assumes d: "dseg f None (as @ i # bs) None" and dist: "distinct (as @ i # bs)" and ne: "as \<noteq> []"
  defines "f1 \<equiv> (case bs of [] \<Rightarrow> f | b # _ \<Rightarrow> f(b := (f b)\<lparr>bc_prev := Some (last as)\<rparr>))"
  defines "f2 \<equiv> f1(last as := (f1 (last as))\<lparr>bc_next := hd_opt bs None\<rparr>)"
  defines "f3 \<equiv> f2(i := (f2 i)\<lparr>bc_prev := None, bc_next := Some (hd as)\<rparr>)"
  shows "dseg (f3(hd as := (f3 (hd as))\<lparr>bc_prev := Some i\<rparr>)) None (i # as @ bs) None"
proof -
  have D: "dseg f None as (Some i)" "dseg f (Some i) bs None" using d by (auto simp: dseg_append)
  have disj: "i \<notin> set as" "i \<notin> set bs" "set as \<inter> set bs = {}" "distinct as" "distinct bs" using dist by auto
  have la: "last as \<in> set as" "hd as \<in> set as" using ne by auto
  have B1: "dseg f1 (Some (last as)) bs None" and A1: "dseg f1 None as (Some i)"
    using D disj by (auto simp: f1_def split: list.splits)
  have B2: "dseg f2 (Some (last as)) bs None" using B1 la(1) disj(3) unfolding f2_def by (subst dseg_other) auto
  obtain as' where as': "as = as' @ [last as]" using ne by (metis append_butlast_last_id)
  have A2: "dseg f2 None as (hd_opt bs None)"
    using dseg_last [of f1 None as' "last as" "Some i" "hd_opt bs None"] A1 as' disj(4) unfolding f2_def
    by (metis distinct_append distinct.simps(2) disjoint_iff list.set_intros(1))
  have B3: "dseg f3 (Some (last as)) bs None" and A3: "dseg f3 None as (hd_opt bs None)"
    using A2 B2 disj(1,2) unfolding f3_def by simp_all
  obtain a as2 where a: "as = a # as2" using ne by (cases as) auto
  let ?g = "f3(hd as := (f3 (hd as))\<lparr>bc_prev := Some i\<rparr>)"
  have B4: "dseg ?g (Some (last as)) bs None" using B3 la(2) disj(3) by (subst dseg_other) auto
  have A4: "dseg ?g (Some i) as (hd_opt bs None)"
    using dseg_first [of f3 None a as2 "hd_opt bs None" "Some i"] A3 disj(4) unfolding a by simp
  have i: "?g i = f3 i" using la(2) disj(1) by auto
  have e: "last_opt (Some i) as = Some (last as)" using ne by (simp add: last_opt_def)
  have "dseg ?g (Some i) (as @ bs) None" using A4 B4 by (simp add: dseg_append e)
  moreover have "hd_opt (as @ bs) None = Some (hd as)" by (simp add: a)
  ultimately show ?thesis using i by (simp add: f3_def)
qed

lemma upd_opt_Some: "upd_opt l (Some i) f = upd_ctrl l i f"
  by (simp add: upd_opt_def)

lemma move_to_head_inner:
  assumes i: "lru_inv l (as @ i # bs)" and ne: "as \<noteq> []"
  shows "lru_inv (move_to_head l i) (i # as @ bs)"
    and "length (inner (move_to_head l i)) = length (inner l)"
    and "k < length (inner l) \<Longrightarrow> bc_dev (inner (move_to_head l i) ! k) = bc_dev (inner l ! k) \<and>
      bc_blockno (inner (move_to_head l i) ! k) = bc_blockno (inner l ! k) \<and>
      refcnt (inner (move_to_head l i) ! k) = refcnt (inner l ! k)"
proof -
  note I = lru_invD [OF i]
  let ?f = "(!) (inner l)" and ?n = "length (inner l)"
  have lt: "k < ?n" if "k \<in> set (as @ i # bs)" for k using that I(3) by blast
  have b: "bc_prev (inner l ! i) = Some (last as)" "bc_next (inner l ! i) = hd_opt bs None"
    using dseg_prev [OF I(4)] ne by (auto simp: last_opt_def)
  have la: "last as < ?n" "hd as < ?n" "i < ?n" using lt ne by auto
  have ni: "last as \<noteq> i" "hd as \<noteq> i" using I(2) ne by (auto dest: last_in_set hd_in_set)
  define l1 where "l1 = (if lru_tail l = Some i \<and> bc_prev (inner l ! i) \<noteq> None then l\<lparr>lru_tail := bc_prev (inner l ! i)\<rparr> else l)"
  define l2 where "l2 = upd_opt l1 (bc_next (inner l ! i)) (\<lambda>c. c\<lparr>bc_prev := bc_prev (inner l ! i)\<rparr>)"
  define l3 where "l3 = upd_opt l2 (bc_prev (inner l2 ! i)) (\<lambda>c. c\<lparr>bc_next := bc_next (inner l2 ! i)\<rparr>)"
  define l4 where "l4 = upd_ctrl l3 i (\<lambda>c. c\<lparr>bc_prev := None, bc_next := lru_head l3\<rparr>)"
  define l5 where "l5 = upd_opt l4 (lru_head l4) (\<lambda>c. c\<lparr>bc_prev := Some i\<rparr>)"
  have m: "move_to_head l i = l5\<lparr>lru_head := Some i\<rparr>"
    by (simp add: move_to_head_def l1_def l2_def l3_def l4_def l5_def Let_def)
  have h: "lru_head l = Some (hd as)" using I(5) ne by (cases as) auto
  have i1: "inner l1 = inner l" "lru_head l1 = lru_head l" by (simp_all add: l1_def)
  have n2: "(!) (inner l2) = (case bs of [] \<Rightarrow> ?f | c # _ \<Rightarrow> ?f(c := (?f c)\<lparr>bc_prev := Some (last as)\<rparr>))"
    using lt i1 b by (cases bs) (auto simp: l2_def upd_opt_def nth_upd_ctrl)
  have l2i: "inner l2 ! i = inner l ! i" using n2 I(2) by (auto split: list.splits)
  have len: "length (inner l2) = ?n" "length (inner l3) = ?n" "length (inner l4) = ?n" "length (inner l5) = ?n"
    "lru_head l2 = lru_head l" "lru_head l3 = lru_head l" "lru_head l4 = lru_head l"
    using i1 by (simp_all add: l2_def l3_def l4_def l5_def)
  have n3: "(!) (inner l3) = ((!) (inner l2))(last as := ((!) (inner l2) (last as))\<lparr>bc_next := hd_opt bs None\<rparr>)"
    using b la(1) len(1) by (simp add: l3_def l2i upd_opt_Some nth_upd_ctrl)
  have n4: "(!) (inner l4) = ((!) (inner l3))(i := ((!) (inner l3) i)\<lparr>bc_prev := None, bc_next := Some (hd as)\<rparr>)"
    using la(3) len h by (simp add: l4_def nth_upd_ctrl)
  have n5: "(!) (inner l5) = ((!) (inner l4))(hd as := ((!) (inner l4) (hd as))\<lparr>bc_prev := Some i\<rparr>)"
    using la(2) len h by (simp add: l5_def upd_opt_Some nth_upd_ctrl)
  have links: "dseg ((!) (inner l5)) None (i # as @ bs) None"
    using move_links [OF I(4,2) ne] unfolding n5 n4 n3 n2 by simp
  have keep: "bc_dev (inner l5 ! k) = bc_dev (inner l ! k) \<and> bc_blockno (inner l5 ! k) = bc_blockno (inner l ! k) \<and>
      refcnt (inner l5 ! k) = refcnt (inner l ! k) \<and> bc_index (inner l5 ! k) = bc_index (inner l ! k)" for k
    unfolding n5 n4 n3 n2 by (auto split: list.split)
  have tail: "lru_tail l5 = Some (last (i # as @ bs))"
  proof -
    have "lru_tail l5 = lru_tail l1" by (simp add: l5_def l4_def l3_def l2_def)
    also have "\<dots> = Some (last (i # as @ bs))"
      using I(2,6) b(1) ne by (cases "bs = []") (auto simp: l1_def last_opt_def dest: last_in_set)
    finally show ?thesis .
  qed
  show "lru_inv (move_to_head l i) (i # as @ bs)"
    unfolding lru_inv_def m using links tail keep I(2,3,7) len(4) by auto
  show "length (inner (move_to_head l i)) = ?n" by (simp add: m len)
  show "k < ?n \<Longrightarrow> bc_dev (inner (move_to_head l i) ! k) = bc_dev (inner l ! k) \<and>
      bc_blockno (inner (move_to_head l i) ! k) = bc_blockno (inner l ! k) \<and>
      refcnt (inner (move_to_head l i) ! k) = refcnt (inner l ! k)" using keep by (simp add: m)
qed

lemma move_if_no_ref_ok:
  assumes v: "lru_inv l xs" and i: "i < length (inner l)" and r: "0 < refcnt (inner l ! i)"
  shows "\<exists>l'. move_if_no_ref l i = Ret l' \<and> length (inner l') = length (inner l) \<and>
    lru_inv l' (if refcnt (inner l ! i) = 1 then i # remove1 i xs else xs) \<and>
    (\<forall>k < length (inner l). bc_dev (inner l' ! k) = bc_dev (inner l ! k) \<and> bc_blockno (inner l' ! k) = bc_blockno (inner l ! k) \<and>
      refcnt (inner l' ! k) = (if k = i then refcnt (inner l ! i) - 1 else refcnt (inner l ! k)))"
proof -
  let ?r = "refcnt (inner l ! i) - 1" and ?l = "upd_ctrl l i (\<lambda>c. c\<lparr>refcnt := refcnt (inner l ! i) - 1\<rparr>)"
  have v1: "lru_inv ?l xs" by (rule lru_inv_upd [OF v i]) simp_all
  note I = lru_invD [OF v]
  have e: "move_if_no_ref l i = (if ?r = 0 \<and> lru_head l \<noteq> Some i then Ret (move_to_head ?l i) else Ret ?l)"
    using i r by (simp add: move_if_no_ref_def Let_def)
  have k: "bc_dev (inner ?l ! k) = bc_dev (inner l ! k) \<and> bc_blockno (inner ?l ! k) = bc_blockno (inner l ! k) \<and>
      refcnt (inner ?l ! k) = (if k = i then ?r else refcnt (inner l ! k))" for k
    using i by (simp add: nth_upd_ctrl)
  have "i \<in> set xs" using I(3) i by simp
  then obtain as bs where xs: "xs = as @ i # bs" by (meson split_list)
  have rm: "remove1 i xs = as @ bs" using I(2) xs by (simp add: remove1_append)
  show ?thesis
  proof (cases "?r = 0 \<and> lru_head l \<noteq> Some i")
    case True
    then have ne: "as \<noteq> []" using I(5) xs by (cases as) auto
    note M = move_to_head_inner [OF v1 [unfolded xs] ne]
    have r1: "refcnt (inner l ! i) = 1" using True r by simp
    have "bc_dev (inner (move_to_head ?l i) ! k) = bc_dev (inner l ! k) \<and>
        bc_blockno (inner (move_to_head ?l i) ! k) = bc_blockno (inner l ! k) \<and>
        refcnt (inner (move_to_head ?l i) ! k) = (if k = i then refcnt (inner l ! i) - 1 else refcnt (inner l ! k))"
      if "k < length (inner l)" for k
      using M(3) [of k] k [of k] that by simp
    moreover have "move_if_no_ref l i = Ret (move_to_head ?l i)" using True e by simp
    moreover have "length (inner (move_to_head ?l i)) = length (inner l)" using M(2) by simp
    moreover have "lru_inv (move_to_head ?l i) (if refcnt (inner l ! i) = 1 then i # remove1 i xs else xs)"
      using M(1) r1 rm by simp
    ultimately show ?thesis by blast
  next
    case False
    have "refcnt (inner l ! i) = 1 \<Longrightarrow> i # remove1 i xs = xs" using False I(5) xs rm by (cases as) auto
    then have "(if refcnt (inner l ! i) = 1 then i # remove1 i xs else xs) = xs" by simp
    then have "lru_inv ?l (if refcnt (inner l ! i) = 1 then i # remove1 i xs else xs)" using v1 by (simp only:)
    moreover have "move_if_no_ref l i = Ret ?l" unfolding e by (rule if_not_P [OF False])
    moreover have "length (inner ?l) = length (inner l)" by simp
    ultimately show ?thesis using k by blast
  qed
qed

text \<open>\<open>binit\<close> links the buffers in the order of their indices.\<close>

lemma nth_fold_upd:
  assumes "b \<le> length cs"
  shows "length (fold (\<lambda>i cs. cs[i := g i (cs ! i)]) [a..<b] cs) = length cs \<and>
    (\<forall>k < length cs. fold (\<lambda>i cs. cs[i := g i (cs ! i)]) [a..<b] cs ! k = (if a \<le> k \<and> k < b then g k (cs ! k) else cs ! k))"
  using assms
proof (induction b)
  case (Suc b)
  show ?case
  proof (cases "a \<le> b")
    case True
    then show ?thesis using Suc by (auto simp: nth_list_update less_Suc_eq)
  qed (use Suc in auto)
qed simp

lemma dseg_range:
  assumes "\<And>k. a \<le> k \<Longrightarrow> k < b \<Longrightarrow> bc_prev (f k) = (if k = a then p else Some (k - 1)) \<and>
    bc_next (f k) = (if Suc k = b then n else Some (Suc k))"
  shows "dseg f p [a..<b] n"
  using assms
proof (induction "b - a" arbitrary: a p)
  case (Suc d)
  then have u: "[a..<b] = a # [Suc a..<b]" by (simp add: upt_conv_Cons)
  have "dseg f (Some a) [Suc a..<b] n"
  proof (rule Suc.hyps(1))
    fix k assume "Suc a \<le> k" "k < b"
    then show "bc_prev (f k) = (if k = Suc a then Some a else Some (k - 1)) \<and> bc_next (f k) = (if Suc k = b then n else Some (Suc k))"
      using Suc.prems [of k] by auto
  qed (use Suc.hyps(2) in simp)
  moreover have "hd_opt [Suc a..<b] n = (if Suc a = b then n else Some (Suc a))"
    using Suc.hyps(2) by (auto simp: upt_conv_Cons)
  ultimately show ?case unfolding u using Suc.prems [of a] Suc.hyps(2) by auto
qed simp

lemma binit_inner:
  assumes "2 \<le> length (inner (ctrl c))" "k < length (inner (ctrl c))"
  shows "inner (ctrl (binit c)) ! k = (inner (ctrl c) ! k)\<lparr>bc_prev := (if k = 0 then None else Some (k - 1)),
      bc_next := (if Suc k = length (inner (ctrl c)) then None else Some (Suc k)), bc_index := k\<rparr>"
    and "length (inner (ctrl (binit c))) = length (inner (ctrl c))"
proof -
  let ?cs = "inner (ctrl c)" and ?n = "length (inner (ctrl c))"
  let ?c0 = "?cs[0 := (?cs ! 0)\<lparr>bc_prev := None, bc_next := Some 1\<rparr>,
    ?n - 1 := (?cs ! (?n - 1))\<lparr>bc_prev := Some (?n - 2), bc_next := None\<rparr>]"
  have n: "?n - 1 \<le> length ?c0" by simp
  note A = nth_fold_upd [OF n, of "\<lambda>i c. c\<lparr>bc_prev := Some (i - 1), bc_next := Some (i + 1)\<rparr>" 1]
  have l1: "length (binit_links ?n ?cs) = ?n" using A by (simp add: binit_links_def)
  note B = nth_fold_upd [of ?n "binit_links ?n ?cs" "\<lambda>i c. c\<lparr>bc_index := i\<rparr>" 0]
  show "length (inner (ctrl (binit c))) = ?n" using B l1 by (simp add: binit_def binit_index_def Let_def)
  have "binit_links ?n ?cs ! k = (if 1 \<le> k \<and> k < ?n - 1 then (?c0 ! k)\<lparr>bc_prev := Some (k - 1), bc_next := Some (k + 1)\<rparr> else ?c0 ! k)"
    using A assms(2) by (simp add: binit_links_def)
  also have "\<dots> = (?cs ! k)\<lparr>bc_prev := (if k = 0 then None else Some (k - 1)), bc_next := (if Suc k = ?n then None else Some (Suc k))\<rparr>"
    using assms by (auto simp: nth_list_update)
  finally show "inner (ctrl (binit c)) ! k = (?cs ! k)\<lparr>bc_prev := (if k = 0 then None else Some (k - 1)),
      bc_next := (if Suc k = ?n then None else Some (Suc k)), bc_index := k\<rparr>"
    using B l1 assms(2) by (simp add: binit_def binit_index_def Let_def)
qed

lemma binit_inv:
  assumes "2 \<le> length (inner (ctrl c))"
  shows "lru_inv (ctrl (binit c)) [0..<length (inner (ctrl c))]"
proof -
  let ?n = "length (inner (ctrl c))"
  note B = binit_inner [OF assms]
  have ne: "inner (ctrl c) \<noteq> []" using assms by auto
  have len: "length (inner (ctrl (binit c))) = ?n" by (rule B(2) [of 0]) (use ne in simp)
  have "dseg ((!) (inner (ctrl (binit c)))) None [0..<?n] None" by (rule dseg_range) (simp add: B(1))
  moreover have "lru_head (ctrl (binit c)) = Some (hd [0..<?n])" "lru_tail (ctrl (binit c)) = Some (last [0..<?n])"
    using hd_upt [of 0 ?n] last_upt [of 0 ?n] ne by (simp_all add: binit_def Let_def)
  ultimately show ?thesis
    using ne len B(1) unfolding lru_inv_def by (auto simp: lessThan_atLeast0)
qed

end
