(* ===== verification/BlockCache.thy ===== *)
theory BlockCache
  imports BcacheLru
begin

text \<open>
  The contract of the buffer cache. \<open>acache\<close> is what a client sees: the current contents of every
  block, the contents on disk, the writes so far, and for every block how often it is in use and
  whether it is locked. \<open>block_cache\<close> states the laws of the operations on this view; the buffer cache
  of \<open>Bcache\<close> satisfies them when all blocks in use belong to one device.
\<close>

record acache =
  av :: "nat \<Rightarrow> block"
  ad :: "nat \<Rightarrow> block"
  atr :: "(nat \<times> block) list"
  ar :: "nat \<Rightarrow> nat"
  ah :: "nat \<Rightarrow> bool"

definition room :: "acache \<Rightarrow> nat \<Rightarrow> bool" where
  "room a b \<longleftrightarrow> (0 < ar a b \<or> card {b. 0 < ar a b} < NBUF) \<and> ar a b + 1 < usize_lim"

locale block_cache =
  fixes inv :: "'c \<Rightarrow> bool" and abs :: "'c \<Rightarrow> acache" and hnd :: "'c \<Rightarrow> nat \<Rightarrow> 'h"
    and rd :: "'c \<Rightarrow> nat \<Rightarrow> ('h \<times> 'c) outcome" and get :: "'c \<Rightarrow> 'h \<Rightarrow> block" and put :: "'c \<Rightarrow> 'h \<Rightarrow> block \<Rightarrow> 'c"
    and wr :: "'c \<Rightarrow> 'h \<Rightarrow> 'c" and rel :: "'c \<Rightarrow> 'h \<Rightarrow> 'c outcome"
    and pn :: "'c \<Rightarrow> 'h \<Rightarrow> 'c outcome" and upn :: "'c \<Rightarrow> 'h \<Rightarrow> 'c outcome"
  assumes rd_law: "inv c \<Longrightarrow> \<not> ah (abs c) b \<Longrightarrow> room (abs c) b \<Longrightarrow> \<exists>c'. rd c b = Ret (hnd c' b, c') \<and> inv c' \<and>
      abs c' = (abs c)\<lparr>ar := (ar (abs c))(b := ar (abs c) b + 1), ah := (ah (abs c))(b := True)\<rparr> \<and>
      (\<forall>x. 0 < ar (abs c) x \<longrightarrow> hnd c' x = hnd c x)"
    and get_law: "inv c \<Longrightarrow> 0 < ar (abs c) b \<Longrightarrow> get c (hnd c b) = av (abs c) b"
    and put_law: "inv c \<Longrightarrow> ah (abs c) b \<Longrightarrow> inv (put c (hnd c b) d) \<and>
      abs (put c (hnd c b) d) = (abs c)\<lparr>av := (av (abs c))(b := d)\<rparr> \<and> hnd (put c (hnd c b) d) = hnd c"
    and wr_law: "inv c \<Longrightarrow> ah (abs c) b \<Longrightarrow> inv (wr c (hnd c b)) \<and>
      abs (wr c (hnd c b)) = (abs c)\<lparr>ad := (ad (abs c))(b := av (abs c) b), atr := atr (abs c) @ [(b, av (abs c) b)]\<rparr> \<and>
      hnd (wr c (hnd c b)) = hnd c"
    and rel_law: "inv c \<Longrightarrow> ah (abs c) b \<Longrightarrow> 1 < ar (abs c) b \<or> av (abs c) b = ad (abs c) b \<Longrightarrow>
      \<exists>c'. rel c (hnd c b) = Ret c' \<and> inv c' \<and>
      abs c' = (abs c)\<lparr>ar := (ar (abs c))(b := ar (abs c) b - 1), ah := (ah (abs c))(b := False)\<rparr> \<and> hnd c' = hnd c"
    and pn_law: "inv c \<Longrightarrow> 0 < ar (abs c) b \<Longrightarrow> ar (abs c) b + 1 < usize_lim \<Longrightarrow> \<exists>c'. pn c (hnd c b) = Ret c' \<and> inv c' \<and>
      abs c' = (abs c)\<lparr>ar := (ar (abs c))(b := ar (abs c) b + 1)\<rparr> \<and> hnd c' = hnd c"
    and upn_law: "inv c \<Longrightarrow> 1 < ar (abs c) b \<Longrightarrow> \<exists>c'. upn c (hnd c b) = Ret c' \<and> inv c' \<and>
      abs c' = (abs c)\<lparr>ar := (ar (abs c))(b := ar (abs c) b - 1)\<rparr> \<and> hnd c' = hnd c"
    and held_law: "inv c \<Longrightarrow> ah (abs c) b \<Longrightarrow> 0 < ar (abs c) b"
    and clean_law: "inv c \<Longrightarrow> ar (abs c) b = 0 \<Longrightarrow> av (abs c) b = ad (abs c) b"

text \<open>The invariant of the cache for device \<open>d\<close>, and its view.\<close>

abbreviation kc :: "bcache \<Rightarrow> nat \<Rightarrow> buf_ctrl" where
  "kc c i \<equiv> inner (ctrl c) ! i"

definition bc_inv :: "nat \<Rightarrow> bcache \<Rightarrow> bool" where
  "bc_inv d c \<longleftrightarrow> length (bufs c) = NBUF \<and> length (inner (ctrl c)) = NBUF \<and> (\<exists>xs. lru_inv (ctrl c) xs) \<and>
     (\<forall>i < NBUF. bc_dev (kc c i) = d \<or> refcnt (kc c i) = 0) \<and>
     (\<forall>i < NBUF. \<forall>j < NBUF. bc_dev (kc c i) = d \<longrightarrow> bc_dev (kc c j) = d \<longrightarrow> bc_blockno (kc c i) = bc_blockno (kc c j) \<longrightarrow> i = j) \<and>
     (\<forall>i < NBUF. 0 < refcnt (kc c i) \<longrightarrow> valid (bufs c ! i)) \<and>
     (\<forall>i < NBUF. locked (bufs c ! i) \<longrightarrow> 0 < refcnt (kc c i)) \<and>
     (\<forall>i < NBUF. bc_dev (kc c i) = d \<longrightarrow> valid (bufs c ! i) \<longrightarrow> refcnt (kc c i) = 0 \<longrightarrow>
        data (bufs c ! i) = disk c (bc_blockno (kc c i)))"

definition slot :: "nat \<Rightarrow> bcache \<Rightarrow> nat \<Rightarrow> nat option" where
  "slot d c b = find (\<lambda>i. bc_dev (kc c i) = d \<and> bc_blockno (kc c i) = b) [0..<NBUF]"

definition cabs :: "nat \<Rightarrow> bcache \<Rightarrow> acache" where
  "cabs d c = \<lparr>av = (\<lambda>b. case slot d c b of Some i \<Rightarrow> if valid (bufs c ! i) then data (bufs c ! i) else disk c b | None \<Rightarrow> disk c b),
     ad = disk c, atr = writes c, ar = (\<lambda>b. case slot d c b of Some i \<Rightarrow> refcnt (kc c i) | None \<Rightarrow> 0),
     ah = (\<lambda>b. case slot d c b of Some i \<Rightarrow> locked (bufs c ! i) | None \<Rightarrow> False)\<rparr>"

definition chnd :: "nat \<Rightarrow> bcache \<Rightarrow> nat \<Rightarrow> buf" where
  "chnd d c b = \<lparr>b_index = the (slot d c b), b_dev = d, b_blockno = b\<rparr>"

lemma bc_invD:
  assumes "bc_inv d c"
  shows "length (bufs c) = NBUF" "length (inner (ctrl c)) = NBUF" "\<exists>xs. lru_inv (ctrl c) xs"
    "i < NBUF \<Longrightarrow> bc_dev (kc c i) = d \<or> refcnt (kc c i) = 0"
    "i < NBUF \<Longrightarrow> j < NBUF \<Longrightarrow> bc_dev (kc c i) = d \<Longrightarrow> bc_dev (kc c j) = d \<Longrightarrow> bc_blockno (kc c i) = bc_blockno (kc c j) \<Longrightarrow> i = j"
    "i < NBUF \<Longrightarrow> 0 < refcnt (kc c i) \<Longrightarrow> valid (bufs c ! i)"
    "i < NBUF \<Longrightarrow> locked (bufs c ! i) \<Longrightarrow> 0 < refcnt (kc c i)"
    "i < NBUF \<Longrightarrow> bc_dev (kc c i) = d \<Longrightarrow> valid (bufs c ! i) \<Longrightarrow> refcnt (kc c i) = 0 \<Longrightarrow>
      data (bufs c ! i) = disk c (bc_blockno (kc c i))"
proof -
  note I = assms [unfolded bc_inv_def]
  show "length (bufs c) = NBUF" using I by (elim conjE) assumption
  show "length (inner (ctrl c)) = NBUF" using I by (elim conjE) assumption
  show "\<exists>xs. lru_inv (ctrl c) xs" using I by (elim conjE) assumption
  have "\<forall>i < NBUF. bc_dev (kc c i) = d \<or> refcnt (kc c i) = 0" using I by (elim conjE) assumption
  then show "i < NBUF \<Longrightarrow> bc_dev (kc c i) = d \<or> refcnt (kc c i) = 0" by simp
  have "\<forall>i < NBUF. \<forall>j < NBUF. bc_dev (kc c i) = d \<longrightarrow> bc_dev (kc c j) = d \<longrightarrow> bc_blockno (kc c i) = bc_blockno (kc c j) \<longrightarrow> i = j"
    using I by (elim conjE) assumption
  then show "i < NBUF \<Longrightarrow> j < NBUF \<Longrightarrow> bc_dev (kc c i) = d \<Longrightarrow> bc_dev (kc c j) = d \<Longrightarrow> bc_blockno (kc c i) = bc_blockno (kc c j) \<Longrightarrow> i = j"
    by simp
  have "\<forall>i < NBUF. 0 < refcnt (kc c i) \<longrightarrow> valid (bufs c ! i)" using I by (elim conjE) assumption
  then show "i < NBUF \<Longrightarrow> 0 < refcnt (kc c i) \<Longrightarrow> valid (bufs c ! i)" by simp
  have "\<forall>i < NBUF. locked (bufs c ! i) \<longrightarrow> 0 < refcnt (kc c i)" using I by (elim conjE) assumption
  then show "i < NBUF \<Longrightarrow> locked (bufs c ! i) \<Longrightarrow> 0 < refcnt (kc c i)" by simp
  have "\<forall>i < NBUF. bc_dev (kc c i) = d \<longrightarrow> valid (bufs c ! i) \<longrightarrow> refcnt (kc c i) = 0 \<longrightarrow>
      data (bufs c ! i) = disk c (bc_blockno (kc c i))" using I by (elim conjE) assumption
  then show "i < NBUF \<Longrightarrow> bc_dev (kc c i) = d \<Longrightarrow> valid (bufs c ! i) \<Longrightarrow> refcnt (kc c i) = 0 \<Longrightarrow>
      data (bufs c ! i) = disk c (bc_blockno (kc c i))" by simp
qed

lemma slot_Some:
  assumes "slot d c b = Some i" shows "i < NBUF" "bc_dev (kc c i) = d" "bc_blockno (kc c i) = b"
  using assms by (auto simp: slot_def find_Some_iff)

lemma slot_eq: "bc_inv d c \<Longrightarrow> i < NBUF \<Longrightarrow> bc_dev (kc c i) = d \<Longrightarrow> bc_blockno (kc c i) = b \<Longrightarrow> slot d c b = Some i"
proof (cases "slot d c b")
  case None
  then show "i < NBUF \<Longrightarrow> bc_dev (kc c i) = d \<Longrightarrow> bc_blockno (kc c i) = b \<Longrightarrow> slot d c b = Some i"
    by (simp add: slot_def find_None_iff)
next
  case (Some j)
  then show "bc_inv d c \<Longrightarrow> i < NBUF \<Longrightarrow> bc_dev (kc c i) = d \<Longrightarrow> bc_blockno (kc c i) = b \<Longrightarrow> slot d c b = Some i"
    using bc_invD(5) [of d c j i] slot_Some [OF Some] by simp
qed

lemma slot_None: "slot d c b = None \<longleftrightarrow> (\<forall>i < NBUF. \<not> (bc_dev (kc c i) = d \<and> bc_blockno (kc c i) = b))"
  by (auto simp: slot_def find_None_iff)

lemma slot_cong:
  assumes "\<And>i. i < NBUF \<Longrightarrow> bc_dev (kc c' i) = bc_dev (kc c i) \<and> bc_blockno (kc c' i) = bc_blockno (kc c i)"
  shows "slot d c' b = slot d c b"
  unfolding slot_def by (rule find_cong) (use assms in auto)

lemma cabs_disk [simp]: "ad (cabs d c) = disk c" "atr (cabs d c) = writes c"
  by (simp_all add: cabs_def)

lemma bc_invI:
  assumes "length (bufs c) = NBUF" "length (inner (ctrl c)) = NBUF" "lru_inv (ctrl c) xs"
    "\<And>i. i < NBUF \<Longrightarrow> bc_dev (kc c i) = d \<or> refcnt (kc c i) = 0"
    "\<And>i j. i < NBUF \<Longrightarrow> j < NBUF \<Longrightarrow> bc_dev (kc c i) = d \<Longrightarrow> bc_dev (kc c j) = d \<Longrightarrow> bc_blockno (kc c i) = bc_blockno (kc c j) \<Longrightarrow> i = j"
    "\<And>i. i < NBUF \<Longrightarrow> 0 < refcnt (kc c i) \<Longrightarrow> valid (bufs c ! i)"
    "\<And>i. i < NBUF \<Longrightarrow> locked (bufs c ! i) \<Longrightarrow> 0 < refcnt (kc c i)"
    "\<And>i. i < NBUF \<Longrightarrow> bc_dev (kc c i) = d \<Longrightarrow> valid (bufs c ! i) \<Longrightarrow> refcnt (kc c i) = 0 \<Longrightarrow>
      data (bufs c ! i) = disk c (bc_blockno (kc c i))"
  shows "bc_inv d c"
  unfolding bc_inv_def using assms by (intro conjI exI [of _ xs] allI impI) assumption+

text \<open>The operations that only change the buffer of one block.\<close>

lemma same_slot:
  assumes "\<And>i. i < NBUF \<Longrightarrow> bc_dev (kc c' i) = bc_dev (kc c i) \<and> bc_blockno (kc c' i) = bc_blockno (kc c i)"
  shows "slot d c' = slot d c" "chnd d c' = chnd d c"
  using slot_cong [OF assms] by (auto simp: chnd_def fun_eq_iff)

lemma held_slot: "bc_inv d c \<Longrightarrow> ah (cabs d c) b \<Longrightarrow> \<exists>i. slot d c b = Some i \<and> i < NBUF \<and> locked (bufs c ! i) \<and> 0 < refcnt (kc c i)"
  using bc_invD(7) slot_Some(1) by (fastforce simp: cabs_def split: option.splits)

lemma used_slot: "bc_inv d c \<Longrightarrow> 0 < ar (cabs d c) b \<Longrightarrow> \<exists>i. slot d c b = Some i \<and> i < NBUF \<and> valid (bufs c ! i) \<and> 0 < refcnt (kc c i)"
  using bc_invD(6) slot_Some(1) by (fastforce simp: cabs_def split: option.splits)

lemma cache_get: "bc_inv d c \<Longrightarrow> 0 < ar (cabs d c) b \<Longrightarrow> raw_data c (chnd d c b) = av (cabs d c) b"
  using used_slot [of d c b] by (auto simp: cabs_def chnd_def raw_data_def)

lemma cache_clean: "bc_inv d c \<Longrightarrow> ar (cabs d c) b = 0 \<Longrightarrow> av (cabs d c) b = ad (cabs d c) b"
  using bc_invD(8) [of d c] slot_Some [of d c b] by (auto simp: cabs_def split: option.splits)

lemma cabs_upd:
  assumes keys: "\<And>j. j < NBUF \<Longrightarrow> bc_dev (kc c' j) = bc_dev (kc c j) \<and> bc_blockno (kc c' j) = bc_blockno (kc c j)"
    and i: "slot d c b = Some i" and v: "valid (bufs c' ! i)"
    and o: "\<And>j. j < NBUF \<Longrightarrow> j \<noteq> i \<Longrightarrow> refcnt (kc c' j) = refcnt (kc c j) \<and> bufs c' ! j = bufs c ! j"
    and dsk: "\<And>y. y \<noteq> b \<Longrightarrow> disk c' y = disk c y"
  shows "cabs d c' = \<lparr>av = (av (cabs d c))(b := data (bufs c' ! i)), ad = disk c', atr = writes c',
      ar = (ar (cabs d c))(b := refcnt (kc c' i)), ah = (ah (cabs d c))(b := locked (bufs c' ! i))\<rparr>"
    and "chnd d c' = chnd d c" "slot d c' = slot d c"
proof -
  show S: "slot d c' = slot d c" "chnd d c' = chnd d c" using same_slot [OF keys] by blast+
  have ne: "j \<noteq> i \<and> j < NBUF" if "slot d c y = Some j" "y \<noteq> b" for y j
    using slot_Some [OF that(1)] slot_Some [OF i] that(2) by auto
  have "av (cabs d c') = (av (cabs d c))(b := data (bufs c' ! i))"
  proof
    fix y
    show "av (cabs d c') y = ((av (cabs d c))(b := data (bufs c' ! i))) y"
      using i v dsk [of y] o ne [of y] by (cases "slot d c y"; cases "y = b") (auto simp: cabs_def S)
  qed
  moreover have "ar (cabs d c') = (ar (cabs d c))(b := refcnt (kc c' i))"
  proof
    fix y
    show "ar (cabs d c') y = ((ar (cabs d c))(b := refcnt (kc c' i))) y"
      using i o ne [of y] by (cases "slot d c y"; cases "y = b") (auto simp: cabs_def S)
  qed
  moreover have "ah (cabs d c') = (ah (cabs d c))(b := locked (bufs c' ! i))"
  proof
    fix y
    show "ah (cabs d c') y = ((ah (cabs d c))(b := locked (bufs c' ! i))) y"
      using i o ne [of y] by (cases "slot d c y"; cases "y = b") (auto simp: cabs_def S)
  qed
  ultimately show "cabs d c' = \<lparr>av = (av (cabs d c))(b := data (bufs c' ! i)), ad = disk c', atr = writes c',
      ar = (ar (cabs d c))(b := refcnt (kc c' i)), ah = (ah (cabs d c))(b := locked (bufs c' ! i))\<rparr>"
    by (simp add: cabs_def)
qed

lemma bc_inv_upd:
  assumes v: "bc_inv d c" and i: "slot d c b = Some i"
    and len: "length (bufs c') = NBUF" "length (inner (ctrl c')) = NBUF" and lru: "lru_inv (ctrl c') xs"
    and keys: "\<And>j. j < NBUF \<Longrightarrow> bc_dev (kc c' j) = bc_dev (kc c j) \<and> bc_blockno (kc c' j) = bc_blockno (kc c j)"
    and vi: "valid (bufs c' ! i)" and li: "locked (bufs c' ! i) \<Longrightarrow> 0 < refcnt (kc c' i)"
    and o: "\<And>j. j < NBUF \<Longrightarrow> j \<noteq> i \<Longrightarrow> refcnt (kc c' j) = refcnt (kc c j) \<and> bufs c' ! j = bufs c ! j"
    and dsk: "\<And>y. y \<noteq> b \<Longrightarrow> disk c' y = disk c y"
    and cl: "refcnt (kc c' i) = 0 \<Longrightarrow> data (bufs c' ! i) = disk c' b"
  shows "bc_inv d c'"
proof (rule bc_invI [OF len lru])
  note I = bc_invD [OF v] and ii = slot_Some [OF i]
  fix j assume j: "j < NBUF"
  show "bc_dev (kc c' j) = d \<or> refcnt (kc c' j) = 0" using I(4) [OF j] keys [OF j] o [OF j] ii by (cases "j = i") auto
  show "0 < refcnt (kc c' j) \<Longrightarrow> valid (bufs c' ! j)" using I(6) [OF j] o [OF j] vi by (cases "j = i") auto
  show "locked (bufs c' ! j) \<Longrightarrow> 0 < refcnt (kc c' j)" using I(7) [OF j] o [OF j] li by (cases "j = i") auto
  show "data (bufs c' ! j) = disk c' (bc_blockno (kc c' j))"
    if a: "bc_dev (kc c' j) = d" "valid (bufs c' ! j)" "refcnt (kc c' j) = 0"
  proof (cases "j = i")
    case True
    then show ?thesis using cl a(3) keys [OF j] ii by simp
  next
    case False
    then have "bc_blockno (kc c j) \<noteq> b" using I(5) [OF j ii(1)] keys [OF j] a(1) ii by auto
    then show ?thesis using False I(8) [OF j] keys [OF j] o [OF j False] a dsk by simp
  qed
  fix k assume "k < NBUF" "bc_dev (kc c' j) = d" "bc_dev (kc c' k) = d" "bc_blockno (kc c' j) = bc_blockno (kc c' k)"
  then show "j = k" using I(5) [OF j, of k] keys [OF j] keys [of k] by simp
qed

lemma cache_put:
  assumes v: "bc_inv d c" and h: "ah (cabs d c) b"
  shows "bc_inv d (raw_data_mut c (chnd d c b) x) \<and>
    cabs d (raw_data_mut c (chnd d c b) x) = (cabs d c)\<lparr>av := (av (cabs d c))(b := x)\<rparr> \<and>
    chnd d (raw_data_mut c (chnd d c b) x) = chnd d c"
proof -
  let ?c = "raw_data_mut c (chnd d c b) x"
  obtain i where i: "slot d c b = Some i" "i < NBUF" "locked (bufs c ! i)" "0 < refcnt (kc c i)"
    using held_slot [OF v h] by blast
  note I = bc_invD [OF v]
  have c': "?c = c\<lparr>bufs := (bufs c)[i := (bufs c ! i)\<lparr>data := x\<rparr>]\<rparr>"
    by (simp add: raw_data_mut_def chnd_def i(1))
  have n: "bufs ?c ! j = (if j = i then (bufs c ! i)\<lparr>data := x\<rparr> else bufs c ! j)" for j
    using i(2) I(1) by (simp add: c' nth_list_update)
  have vi: "valid (bufs c ! i)" by (rule I(6) [OF i(2,4)])
  obtain xs where xs: "lru_inv (ctrl c) xs" using I(3) by blast
  have "bc_inv d ?c"
    by (rule bc_inv_upd [OF v i(1), where xs = xs]) (use I(1,2) xs vi i(4) n in \<open>auto simp: c'\<close>)
  moreover have "cabs d ?c = (cabs d c)\<lparr>av := (av (cabs d c))(b := x)\<rparr> \<and> chnd d ?c = chnd d c"
    using cabs_upd [of ?c c d b i] i vi n by (auto simp: c' cabs_def fun_eq_iff)
  ultimately show ?thesis by blast
qed

lemma cache_wr:
  assumes v: "bc_inv d c" and h: "ah (cabs d c) b"
  shows "bc_inv d (bwrite c (chnd d c b)) \<and>
    cabs d (bwrite c (chnd d c b)) = (cabs d c)\<lparr>ad := (ad (cabs d c))(b := av (cabs d c) b),
      atr := atr (cabs d c) @ [(b, av (cabs d c) b)]\<rparr> \<and> chnd d (bwrite c (chnd d c b)) = chnd d c"
proof -
  let ?c = "bwrite c (chnd d c b)"
  obtain i where i: "slot d c b = Some i" "i < NBUF" "locked (bufs c ! i)" "0 < refcnt (kc c i)"
    using held_slot [OF v h] by blast
  note I = bc_invD [OF v]
  have c': "?c = c\<lparr>disk := (disk c)(b := data (bufs c ! i)), writes := writes c @ [(b, data (bufs c ! i))]\<rparr>"
    by (simp add: bwrite_def disk_rw_def raw_data_def chnd_def i(1))
  have vi: "valid (bufs c ! i)" by (rule I(6) [OF i(2,4)])
  obtain xs where xs: "lru_inv (ctrl c) xs" using I(3) by blast
  have "bc_inv d ?c"
    by (rule bc_inv_upd [OF v i(1), where xs = xs]) (use I(1,2) xs vi i(4) in \<open>auto simp: c'\<close>)
  moreover have "cabs d ?c = (cabs d c)\<lparr>ad := (ad (cabs d c))(b := av (cabs d c) b),
      atr := atr (cabs d c) @ [(b, av (cabs d c) b)]\<rparr> \<and> chnd d ?c = chnd d c"
    using cabs_upd [of ?c c d b i] i vi by (auto simp: c' cabs_def fun_eq_iff)
  ultimately show ?thesis by blast
qed

text \<open>Changes of a reference count.\<close>

lemma cache_refcnt:
  assumes v: "bc_inv d c" and i: "slot d c b = Some i" "0 < refcnt (kc c i)" and r: "0 < r"
  defines "c' \<equiv> c\<lparr>ctrl := upd_ctrl (ctrl c) i (\<lambda>k. k\<lparr>refcnt := r\<rparr>)\<rparr>"
  shows "bc_inv d c' \<and> cabs d c' = (cabs d c)\<lparr>ar := (ar (cabs d c))(b := r)\<rparr> \<and> chnd d c' = chnd d c"
proof -
  note I = bc_invD [OF v] and ii = slot_Some [OF i(1)]
  have n: "kc c' j = (if j = i then (kc c i)\<lparr>refcnt := r\<rparr> else kc c j)" for j
    using ii(1) I(2) by (simp add: c'_def nth_upd_ctrl)
  have vi: "valid (bufs c ! i)" by (rule I(6) [OF ii(1) i(2)])
  obtain xs where xs: "lru_inv (ctrl c) xs" using I(3) by blast
  have l: "lru_inv (ctrl c') xs" unfolding c'_def using ii(1) I(2) by (auto intro!: lru_inv_upd [OF xs])
  have len: "length (inner (ctrl c')) = NBUF" "bufs c' = bufs c" "disk c' = disk c" "writes c' = writes c"
    using I(2) by (simp_all add: c'_def)
  have "bc_inv d c'"
    by (rule bc_inv_upd [OF v i(1) _ len(1) l]) (use I(1) vi r n len in auto)
  moreover have "cabs d c' = (cabs d c)\<lparr>ar := (ar (cabs d c))(b := r)\<rparr> \<and> chnd d c' = chnd d c"
    using cabs_upd [of c' c d b i] i vi n len by (auto simp: cabs_def fun_eq_iff)
  ultimately show ?thesis by blast
qed

lemma cache_pin:
  assumes v: "bc_inv d c" and u: "0 < ar (cabs d c) b" "ar (cabs d c) b + 1 < usize_lim"
  shows "\<exists>c'. pin c (chnd d c b) = Ret c' \<and> bc_inv d c' \<and>
    cabs d c' = (cabs d c)\<lparr>ar := (ar (cabs d c))(b := ar (cabs d c) b + 1)\<rparr> \<and> chnd d c' = chnd d c"
proof -
  obtain i where i: "slot d c b = Some i" "i < NBUF" "0 < refcnt (kc c i)" using used_slot [OF v u(1)] by blast
  have r: "ar (cabs d c) b = refcnt (kc c i)" by (simp add: cabs_def i(1))
  have "pin c (chnd d c b) = Ret (c\<lparr>ctrl := upd_ctrl (ctrl c) i (\<lambda>k. k\<lparr>refcnt := refcnt (kc c i) + 1\<rparr>)\<rparr>)"
    using i bc_invD(2) [OF v] u(2) r by (simp add: pin_def chnd_def uadd_def)
  then show ?thesis using cache_refcnt [OF v i(1,3), of "refcnt (kc c i) + 1"] r by auto
qed

lemma cache_unpin:
  assumes v: "bc_inv d c" and u: "1 < ar (cabs d c) b"
  shows "\<exists>c'. unpin c (chnd d c b) = Ret c' \<and> bc_inv d c' \<and>
    cabs d c' = (cabs d c)\<lparr>ar := (ar (cabs d c))(b := ar (cabs d c) b - 1)\<rparr> \<and> chnd d c' = chnd d c"
proof -
  have "0 < ar (cabs d c) b" using u by simp
  then obtain i where i: "slot d c b = Some i" "i < NBUF" "0 < refcnt (kc c i)" using used_slot [OF v] by blast
  have r: "ar (cabs d c) b = refcnt (kc c i)" by (simp add: cabs_def i(1))
  have e: "upd_ctrl (ctrl c) i (\<lambda>k. k\<lparr>refcnt := refcnt k - 1\<rparr>) = upd_ctrl (ctrl c) i (\<lambda>k. k\<lparr>refcnt := refcnt (kc c i) - 1\<rparr>)"
    by (simp add: upd_ctrl_def)
  have "unpin c (chnd d c b) = Ret (c\<lparr>ctrl := upd_ctrl (ctrl c) i (\<lambda>k. k\<lparr>refcnt := refcnt (kc c i) - 1\<rparr>)\<rparr>)"
    using i bc_invD(2) [OF v] u r by (simp add: unpin_def chnd_def upd_ctrl_def)
  then show ?thesis using cache_refcnt [OF v i(1,3), of "refcnt (kc c i) - 1"] u r by auto
qed

lemma cache_rel:
  assumes v: "bc_inv d c" and h: "ah (cabs d c) b" and cl: "1 < ar (cabs d c) b \<or> av (cabs d c) b = ad (cabs d c) b"
  shows "\<exists>c'. drop_buf c (chnd d c b) = Ret c' \<and> bc_inv d c' \<and>
    cabs d c' = (cabs d c)\<lparr>ar := (ar (cabs d c))(b := ar (cabs d c) b - 1), ah := (ah (cabs d c))(b := False)\<rparr> \<and>
    chnd d c' = chnd d c"
proof -
  obtain i where i: "slot d c b = Some i" "i < NBUF" "locked (bufs c ! i)" "0 < refcnt (kc c i)"
    using held_slot [OF v h] by blast
  note I = bc_invD [OF v]
  have r: "ar (cabs d c) b = refcnt (kc c i)" by (simp add: cabs_def i(1))
  have vi: "valid (bufs c ! i)" by (rule I(6) [OF i(2,4)])
  have da: "av (cabs d c) b = data (bufs c ! i)" "ad (cabs d c) b = disk c b" by (simp_all add: cabs_def i(1) vi)
  let ?u = "unlock_buf c i"
  obtain xs where xs: "lru_inv (ctrl c) xs" using I(3) by blast
  have il: "i < length (inner (ctrl c))" using i(2) I(2) by simp
  from move_if_no_ref_ok [OF xs il i(4)] obtain l' ys where l': "move_if_no_ref (ctrl c) i = Ret l'" "length (inner l') = NBUF"
    "lru_inv l' ys" "\<And>k. k < NBUF \<Longrightarrow> bc_dev (inner l' ! k) = bc_dev (kc c k) \<and> bc_blockno (inner l' ! k) = bc_blockno (kc c k) \<and>
      refcnt (inner l' ! k) = (if k = i then refcnt (kc c i) - 1 else refcnt (kc c k))"
    unfolding I(2) by blast
  let ?c = "?u\<lparr>ctrl := l'\<rparr>"
  have e: "drop_buf c (chnd d c b) = Ret ?c"
    using l'(1) by (simp add: drop_buf_def brelse_def chnd_def i(1) unlock_buf_def)
  have n: "bufs ?c ! j = (if j = i then (bufs c ! i)\<lparr>locked := False\<rparr> else bufs c ! j)" for j
    using i(2) I(1) by (simp add: unlock_buf_def nth_list_update)
  have len: "length (bufs ?c) = NBUF" "disk ?c = disk c" "writes ?c = writes c"
    using I(1) by (simp_all add: unlock_buf_def)
  have "bc_inv d ?c"
    by (rule bc_inv_upd [OF v i(1), where xs = ys]) (use l' n len vi cl da r i(2) in \<open>auto split: if_splits\<close>)
  moreover have "cabs d ?c = (cabs d c)\<lparr>ar := (ar (cabs d c))(b := ar (cabs d c) b - 1), ah := (ah (cabs d c))(b := False)\<rparr> \<and>
      chnd d ?c = chnd d c"
    using cabs_upd [of ?c c d b i] i vi n l'(4) len r by (auto simp: cabs_def fun_eq_iff)
  ultimately show ?thesis using e by blast
qed

text \<open>\<open>bread\<close>: a hit locks the buffer of the block, a miss recycles a buffer that is not in use.\<close>

lemma find_unique:
  assumes "x \<in> set xs" "P x" and u: "\<And>y. y \<in> set xs \<Longrightarrow> P y \<Longrightarrow> y = x"
  shows "find P xs = Some x"
proof (cases "find P xs")
  case None
  then show ?thesis using assms(1,2) by (simp add: find_None_iff)
next
  case (Some y)
  then have "y \<in> set xs" "P y" by (auto simp: find_Some_iff)
  then show ?thesis using u Some by simp
qed

definition loaded :: "bcache \<Rightarrow> buf_lru \<Rightarrow> nat \<Rightarrow> nat \<Rightarrow> bool \<Rightarrow> bcache" where
  "loaded c l i b hit = c\<lparr>ctrl := l, bufs := (bufs c)[i := \<lparr>valid = True, locked = True,
     data = (if hit \<and> valid (bufs c ! i) then data (bufs c ! i) else disk c b)\<rparr>]\<rparr>"

lemma bread_hit:
  assumes "find_cached (ctrl c) d b = Ret (Some i, l)" "i < length (bufs c)" "\<not> locked (bufs c ! i)"
  shows "bread c d b = Ret (\<lparr>b_index = i, b_dev = d, b_blockno = b\<rparr>, loaded c l i b True)"
  using assms
  by (cases "bufs c ! i")
    (auto simp: bread_def bget_def lock_buf_def set_valid_def disk_rw_def raw_data_mut_def loaded_def)

lemma bread_miss:
  assumes "find_cached (ctrl c) d b = Ret (None, l0)" "recycle l0 d b = Ret (Some i, l)" "i < length (bufs c)" "\<not> locked (bufs c ! i)"
  shows "bread c d b = Ret (\<lparr>b_index = i, b_dev = d, b_blockno = b\<rparr>, loaded c l i b False)"
  using assms
  by (cases "bufs c ! i")
    (auto simp: bread_def bget_def lock_buf_def set_valid_def disk_rw_def raw_data_mut_def loaded_def)

lemma cache_rd_hit:
  assumes v: "bc_inv d c" and u: "\<not> ah (cabs d c) b" "ar (cabs d c) b + 1 < usize_lim" and i: "slot d c b = Some i"
  shows "\<exists>c'. bread c d b = Ret (chnd d c' b, c') \<and> bc_inv d c' \<and>
    cabs d c' = (cabs d c)\<lparr>ar := (ar (cabs d c))(b := ar (cabs d c) b + 1), ah := (ah (cabs d c))(b := True)\<rparr> \<and>
    chnd d c' = chnd d c"
proof -
  note I = bc_invD [OF v] and ii = slot_Some [OF i]
  obtain xs where xs: "lru_inv (ctrl c) xs" using I(3) by blast
  have r: "ar (cabs d c) b = refcnt (kc c i)" and nl: "\<not> locked (bufs c ! i)" using u(1) by (simp_all add: cabs_def i)
  have un: "k = i" if "k < NBUF" "bc_dev (kc c k) = d" "bc_blockno (kc c k) = b" for k
    using slot_eq [OF v that] i by simp
  have f: "find (\<lambda>k. bc_dev (kc c k) = d \<and> bc_blockno (kc c k) = b) xs = Some i"
  proof (rule find_unique)
    show "i \<in> set xs" using ii lru_invD(3) [OF xs] I(2) by simp
    fix y assume "y \<in> set xs" "bc_dev (kc c y) = d \<and> bc_blockno (kc c y) = b"
    then show "y = i" using lru_invD(3) [OF xs] I(2) by (intro un) auto
  qed (use ii in simp)
  have bd: "\<forall>k < length (inner (ctrl c)). bc_dev (kc c k) = d \<longrightarrow> bc_blockno (kc c k) = b \<longrightarrow> refcnt (kc c k) + 1 < usize_lim"
  proof (intro allI impI)
    fix k assume "k < length (inner (ctrl c))" "bc_dev (kc c k) = d" "bc_blockno (kc c k) = b"
    then have "k = i" using I(2) by (intro un) simp_all
    then show "refcnt (kc c k) + 1 < usize_lim" using u(2) r by simp
  qed
  define l where "l = upd_ctrl (ctrl c) i (\<lambda>k. k\<lparr>refcnt := refcnt (kc c i) + 1\<rparr>)"
  define c' where "c' = loaded c l i b True"
  have fc: "find_cached (ctrl c) d b = Ret (Some i, l)"
    unfolding find_cached_ok [OF xs bd] f l_def option.case ..
  have e: "bread c d b = Ret (\<lparr>b_index = i, b_dev = d, b_blockno = b\<rparr>, c')"
    unfolding c'_def by (rule bread_hit [OF fc _ nl]) (use ii(1) I(1) in simp)
  have l: "lru_inv l xs" unfolding l_def using ii(1) I(2) by (auto intro!: lru_inv_upd [OF xs])
  have n: "kc c' j = (if j = i then (kc c i)\<lparr>refcnt := refcnt (kc c i) + 1\<rparr> else kc c j)" for j
    using ii(1) I(2) by (simp add: c'_def loaded_def l_def nth_upd_ctrl)
  have m: "bufs c' ! j = (if j = i then \<lparr>valid = True, locked = True, data = av (cabs d c) b\<rparr> else bufs c ! j)" for j
    using ii(1) I(1) by (simp add: c'_def loaded_def nth_list_update cabs_def i)
  have len: "length (inner (ctrl c')) = NBUF" "length (bufs c') = NBUF" "disk c' = disk c" "writes c' = writes c" "lru_inv (ctrl c') xs"
    using I(1,2) l by (simp_all add: c'_def loaded_def l_def)
  have "bc_inv d c'"
    by (rule bc_inv_upd [OF v i len(2,1,5)]) (simp_all add: n m len)
  moreover have C: "cabs d c' = \<lparr>av = (av (cabs d c))(b := data (bufs c' ! i)), ad = disk c', atr = writes c',
      ar = (ar (cabs d c))(b := refcnt (kc c' i)), ah = (ah (cabs d c))(b := locked (bufs c' ! i))\<rparr>"
    and h: "chnd d c' = chnd d c"
    by (rule cabs_upd [OF _ i]; simp add: n m len)+
  have "cabs d c' = (cabs d c)\<lparr>ar := (ar (cabs d c))(b := ar (cabs d c) b + 1), ah := (ah (cabs d c))(b := True)\<rparr>"
    unfolding C by (rule acache.equality) (simp_all add: n m len r)
  moreover have "chnd d c' b = \<lparr>b_index = i, b_dev = d, b_blockno = b\<rparr>" unfolding h by (simp add: chnd_def i)
  ultimately show ?thesis using e h by auto
qed

lemma used_finite: "finite {b. 0 < ar (cabs d c) b}"
proof (rule finite_subset)
  show "{b. 0 < ar (cabs d c) b} \<subseteq> (\<lambda>k. bc_blockno (kc c k)) ` {..< NBUF}"
    using slot_Some by (fastforce simp: cabs_def split: option.splits)
qed simp

lemma free_buffer:
  assumes v: "bc_inv d c" and r: "card {b. 0 < ar (cabs d c) b} < NBUF"
  shows "\<exists>k < NBUF. refcnt (kc c k) = 0"
proof (rule ccontr)
  assume a: "\<not> (\<exists>k < NBUF. refcnt (kc c k) = 0)"
  have s: "slot d c (bc_blockno (kc c k)) = Some k" if "k < NBUF" for k
    using slot_eq [OF v that _ refl] bc_invD(4) [OF v that] a that by auto
  have inj: "inj_on (\<lambda>k. bc_blockno (kc c k)) {..< NBUF}" by (rule inj_onI) (metis s lessThan_iff option.inject)
  have "(\<lambda>k. bc_blockno (kc c k)) ` {..< NBUF} \<subseteq> {b. 0 < ar (cabs d c) b}"
    using s a by (auto simp: cabs_def)
  moreover note used_finite
  ultimately have "card ((\<lambda>k. bc_blockno (kc c k)) ` {..< NBUF}) \<le> card {b. 0 < ar (cabs d c) b}" by (rule card_mono [rotated])
  then show False using r card_image [OF inj] by simp
qed

lemma cache_rd_miss:
  assumes v: "bc_inv d c" and r: "card {b. 0 < ar (cabs d c) b} < NBUF" and nb: "slot d c b = None"
  shows "\<exists>c'. bread c d b = Ret (chnd d c' b, c') \<and> bc_inv d c' \<and>
    cabs d c' = (cabs d c)\<lparr>ar := (ar (cabs d c))(b := ar (cabs d c) b + 1), ah := (ah (cabs d c))(b := True)\<rparr> \<and>
    (\<forall>x. 0 < ar (cabs d c) x \<longrightarrow> chnd d c' x = chnd d c x)"
proof -
  note I = bc_invD [OF v]
  obtain xs where xs: "lru_inv (ctrl c) xs" using I(3) by blast
  note X = lru_invD [OF xs]
  have nk: "\<not> (bc_dev (kc c k) = d \<and> bc_blockno (kc c k) = b)" if "k < NBUF" for k using nb that by (simp add: slot_None)
  have f0: "find (\<lambda>k. bc_dev (kc c k) = d \<and> bc_blockno (kc c k) = b) xs = None"
    using nk X(3) I(2) by (auto simp: find_None_iff)
  have bd: "\<forall>k < length (inner (ctrl c)). bc_dev (kc c k) = d \<longrightarrow> bc_blockno (kc c k) = b \<longrightarrow> refcnt (kc c k) + 1 < usize_lim"
    using nk I(2) by auto
  have fc: "find_cached (ctrl c) d b = Ret (None, ctrl c)"
    unfolding find_cached_ok [OF xs bd] f0 option.case ..
  obtain k0 where "k0 < NBUF" "refcnt (kc c k0) = 0" using free_buffer [OF v r] by blast
  then have "find (\<lambda>k. refcnt (kc c k) = 0) (rev xs) \<noteq> None" using X(3) I(2) by (auto simp: find_None_iff)
  then obtain k where f1: "find (\<lambda>k. refcnt (kc c k) = 0) (rev xs) = Some k" by blast
  then have "k \<in> set (rev xs)" "refcnt (kc c k) = 0"
    by (auto simp: find_Some_iff simp del: set_rev)
  then have k: "k < NBUF" "refcnt (kc c k) = 0" using X(3) I(2) by auto
  define l where "l = upd_ctrl (ctrl c) k (\<lambda>c. c\<lparr>bc_dev := d, bc_blockno := b, refcnt := 1\<rparr>)"
  define c' where "c' = loaded c l k b False"
  have rc: "recycle (ctrl c) d b = Ret (Some k, l)" unfolding recycle_ok [OF xs] f1 option.case l_def ..
  have nl: "\<not> locked (bufs c ! k)" using I(7) [OF k(1)] k(2) by auto
  have e: "bread c d b = Ret (\<lparr>b_index = k, b_dev = d, b_blockno = b\<rparr>, c')"
    unfolding c'_def by (rule bread_miss [OF fc rc _ nl]) (use k(1) I(1) in simp)
  have li: "lru_inv l xs" unfolding l_def using k(1) I(2) by (auto intro!: lru_inv_upd [OF xs])
  have n: "kc c' j = (if j = k then (kc c k)\<lparr>bc_dev := d, bc_blockno := b, refcnt := 1\<rparr> else kc c j)" for j
    using k(1) I(2) by (simp add: c'_def loaded_def l_def nth_upd_ctrl)
  have m: "bufs c' ! j = (if j = k then \<lparr>valid = True, locked = True, data = disk c b\<rparr> else bufs c ! j)" for j
    using k(1) I(1) by (simp add: c'_def loaded_def nth_list_update)
  have len: "length (inner (ctrl c')) = NBUF" "length (bufs c') = NBUF" "disk c' = disk c" "writes c' = writes c" "lru_inv (ctrl c') xs"
    using I(1,2) li by (simp_all add: c'_def loaded_def l_def)
  have v': "bc_inv d c'"
  proof (rule bc_invI [OF len(2,1,5)])
    fix j assume j: "j < NBUF"
    show "bc_dev (kc c' j) = d \<or> refcnt (kc c' j) = 0" "0 < refcnt (kc c' j) \<Longrightarrow> valid (bufs c' ! j)"
      "locked (bufs c' ! j) \<Longrightarrow> 0 < refcnt (kc c' j)"
      using I(4,6,7) [OF j] by (simp_all add: n m split: if_splits)
    show "bc_dev (kc c' j) = d \<Longrightarrow> valid (bufs c' ! j) \<Longrightarrow> refcnt (kc c' j) = 0 \<Longrightarrow> data (bufs c' ! j) = disk c' (bc_blockno (kc c' j))"
      using I(8) [OF j] by (simp add: n m len split: if_splits)
    fix i assume i: "i < NBUF"
    show "bc_dev (kc c' j) = d \<Longrightarrow> bc_dev (kc c' i) = d \<Longrightarrow> bc_blockno (kc c' j) = bc_blockno (kc c' i) \<Longrightarrow> j = i"
      using I(5) [OF j i] nk [OF j] nk [OF i] by (auto simp: n split: if_splits)
  qed
  have sb: "slot d c' b = Some k" by (rule slot_eq [OF v' k(1)]) (simp_all add: n)
  have so: "slot d c' y = (if slot d c y = Some k then None else slot d c y)" if y: "y \<noteq> b" for y
  proof (cases "slot d c y")
    case None
    then have "slot d c' y = None" using y by (auto simp: slot_None n)
    then show ?thesis using None by simp
  next
    case (Some j)
    note jj = slot_Some [OF Some]
    show ?thesis
    proof (cases "j = k")
      case True
      have "bc_blockno (kc c h) \<noteq> y" if "h < NBUF" "h \<noteq> k" "bc_dev (kc c h) = d" for h
        using I(5) [OF that(1) k(1) that(3)] jj True that(2) by metis
      then have "slot d c' y = None" unfolding slot_None n using y by simp
      then show ?thesis using Some True by simp
    next
      case False
      then have "slot d c' y = Some j" by (intro slot_eq [OF v' jj(1)]) (use jj in \<open>simp_all add: n\<close>)
      then show ?thesis using Some False by simp
    qed
  qed
  have kv: "data (bufs c ! k) = disk c y" if "slot d c y = Some k" "valid (bufs c ! k)" for y
    using I(8) [OF k(1)] slot_Some [OF that(1)] that(2) k(2) by simp
  have ab: "cabs d c' = (cabs d c)\<lparr>ar := (ar (cabs d c))(b := ar (cabs d c) b + 1), ah := (ah (cabs d c))(b := True)\<rparr>"
  proof (rule acache.equality)
    show "av (cabs d c') = av ((cabs d c)\<lparr>ar := (ar (cabs d c))(b := ar (cabs d c) b + 1), ah := (ah (cabs d c))(b := True)\<rparr>)"
    proof
      fix y
      show "av (cabs d c') y = av ((cabs d c)\<lparr>ar := (ar (cabs d c))(b := ar (cabs d c) b + 1), ah := (ah (cabs d c))(b := True)\<rparr>) y"
        using kv [of y] sb so [of y] nb
        by (cases "y = b"; cases "slot d c y") (auto simp: cabs_def m len)
    qed
    show "ar (cabs d c') = ar ((cabs d c)\<lparr>ar := (ar (cabs d c))(b := ar (cabs d c) b + 1), ah := (ah (cabs d c))(b := True)\<rparr>)"
    proof
      fix y
      show "ar (cabs d c') y = ar ((cabs d c)\<lparr>ar := (ar (cabs d c))(b := ar (cabs d c) b + 1), ah := (ah (cabs d c))(b := True)\<rparr>) y"
        using sb so [of y] nb k(2) by (cases "y = b"; cases "slot d c y") (auto simp: cabs_def n)
    qed
    show "ah (cabs d c') = ah ((cabs d c)\<lparr>ar := (ar (cabs d c))(b := ar (cabs d c) b + 1), ah := (ah (cabs d c))(b := True)\<rparr>)"
    proof
      fix y
      show "ah (cabs d c') y = ah ((cabs d c)\<lparr>ar := (ar (cabs d c))(b := ar (cabs d c) b + 1), ah := (ah (cabs d c))(b := True)\<rparr>) y"
        using sb so [of y] nb nl by (cases "y = b"; cases "slot d c y") (auto simp: cabs_def m)
    qed
  qed (simp_all add: len)
  have ot: "chnd d c' x = chnd d c x" if "0 < ar (cabs d c) x" for x
  proof -
    have "x \<noteq> b" "slot d c x \<noteq> Some k" using that nb k(2) by (auto simp: cabs_def split: option.splits)
    then show ?thesis using so by (simp add: chnd_def)
  qed
  have "bread c d b = Ret (chnd d c' b, c')" unfolding e by (simp add: chnd_def sb)
  then show ?thesis using v' ab ot by (intro exI [of _ c'] conjI allI impI)
qed

lemma cache_rd:
  assumes v: "bc_inv d c" and u: "\<not> ah (cabs d c) b" and r: "room (cabs d c) b"
  shows "\<exists>c'. bread c d b = Ret (chnd d c' b, c') \<and> bc_inv d c' \<and>
    cabs d c' = (cabs d c)\<lparr>ar := (ar (cabs d c))(b := ar (cabs d c) b + 1), ah := (ah (cabs d c))(b := True)\<rparr> \<and>
    (\<forall>x. 0 < ar (cabs d c) x \<longrightarrow> chnd d c' x = chnd d c x)"
proof (cases "slot d c b")
  case None
  then have "ar (cabs d c) b = 0" by (simp add: cabs_def)
  then have "card {b. 0 < ar (cabs d c) b} < NBUF" using r by (simp add: room_def)
  then show ?thesis by (rule cache_rd_miss [OF v _ None])
next
  case (Some i)
  have lt: "ar (cabs d c) b + 1 < usize_lim" using r by (simp add: room_def)
  obtain c' where "bread c d b = Ret (chnd d c' b, c')" "bc_inv d c'" "chnd d c' = chnd d c"
    "cabs d c' = (cabs d c)\<lparr>ar := (ar (cabs d c))(b := ar (cabs d c) b + 1), ah := (ah (cabs d c))(b := True)\<rparr>"
    using cache_rd_hit [OF v u lt Some] by (elim exE conjE)
  then show ?thesis by (intro exI [of _ c'] conjI allI impI) (assumption | simp only:)+
qed

lemma cache_held: "bc_inv d c \<Longrightarrow> ah (cabs d c) b \<Longrightarrow> 0 < ar (cabs d c) b"
  using held_slot [of d c b] by (auto simp: cabs_def)

interpretation bc: block_cache "bc_inv d" "cabs d" "chnd d" "\<lambda>c b. bread c d b" raw_data raw_data_mut bwrite drop_buf pin unpin
  by unfold_locales (fact cache_rd cache_get cache_put cache_wr cache_rel cache_pin cache_unpin cache_held cache_clean)+

end
