(* ===== verification/BcacheProps.thy ===== *)
theory BcacheProps
  imports BlockCache
begin

text \<open>
  What the buffer cache guarantees: the state after \<open>binit\<close>, the contents that \<open>bread\<close> hands out, and
  the least-recently-used order that decides which buffer is recycled.
\<close>

lemma binit_fields [simp]:
  "bufs (binit c) = bufs c" "disk (binit c) = disk c" "writes (binit c) = writes c"
  by (simp_all add: binit_def Let_def)

lemma boot_kc:
  assumes "k < NBUF"
  shows "bc_dev (kc (binit (bcache_new d)) k) = 0" "refcnt (kc (binit (bcache_new d)) k) = 0"
    "length (inner (ctrl (binit (bcache_new d)))) = NBUF"
  using binit_inner [of "bcache_new d" k] assms
  by (simp_all add: bcache_new_def buf_lru_new_def buf_ctrl_new_def NBUF_def MAXOPBLOCKS_def)

lemma boot_slot: "n \<noteq> 0 \<Longrightarrow> slot n (binit (bcache_new d)) b = None"
  by (simp add: slot_None boot_kc)

lemma boot_bufs [simp]: "bufs (bcache_new d) = replicate NBUF buf_inner_new" "length (inner (ctrl (bcache_new d))) = NBUF"
  by (simp_all add: bcache_new_def buf_lru_new_def)

lemma boot_lru: "lru_inv (ctrl (binit (bcache_new d))) [0..<NBUF]"
  using binit_inv [of "bcache_new d"] by (simp add: NBUF_def MAXOPBLOCKS_def)

lemma boot_cache: "n \<noteq> 0 \<Longrightarrow> bc_inv n (binit (bcache_new d))"
  by (rule bc_invI [OF _ boot_kc(3) [of 0] boot_lru]) (simp_all add: boot_kc buf_inner_new_def, simp add: NBUF_def MAXOPBLOCKS_def)

lemma boot_view:
  "n \<noteq> 0 \<Longrightarrow> cabs n (binit (bcache_new d)) = \<lparr>av = d, ad = d, atr = [], ar = (\<lambda>_. 0), ah = (\<lambda>_. False)\<rparr>"
  by (simp add: cabs_def boot_slot) (simp add: bcache_new_def)

text \<open>C27: After \<open>binit\<close> the cache is in a consistent state for every device number other than 0, the
  control blocks are linked in index order, nothing is in use, and the contents seen through the
  cache are those of the disk.
\<close>

theorem binit_ready:
  "lru_inv (ctrl (binit (bcache_new d))) [0..<NBUF] \<and>
   (n \<noteq> 0 \<longrightarrow> bc_inv n (binit (bcache_new d)) \<and>
     cabs n (binit (bcache_new d)) = \<lparr>av = d, ad = d, atr = [], ar = (\<lambda>_. 0), ah = (\<lambda>_. False)\<rparr>)"
  using boot_cache boot_view boot_lru by simp

theorem binit_ready_witness: "bc_inv 1 (binit (bcache_new (\<lambda>_. replicate BSIZE 0)))"
  using binit_ready [of "\<lambda>_. replicate BSIZE 0" 1] by simp

text \<open>C8: \<open>bread\<close> of a block that is not locked, while some buffer can be used for it, returns a locked
  buffer that holds the current contents of the block. It neither changes the contents of any block
  nor writes to the disk, whether the block was cached or a buffer had to be recycled.
\<close>

theorem bread_correct:
  assumes "bc_inv d c" "\<not> ah (cabs d c) b" "room (cabs d c) b"
  shows "\<exists>h c'. bread c d b = Ret (h, c') \<and> bc_inv d c' \<and> b_blockno h = b \<and> raw_data c' h = av (cabs d c) b \<and>
    av (cabs d c') = av (cabs d c) \<and> disk c' = disk c \<and> writes c' = writes c \<and>
    ah (cabs d c') = (ah (cabs d c))(b := True)"
proof -
  obtain c' where c: "bread c d b = Ret (chnd d c' b, c')" "bc_inv d c'"
    "cabs d c' = (cabs d c)\<lparr>ar := (ar (cabs d c))(b := ar (cabs d c) b + 1), ah := (ah (cabs d c))(b := True)\<rparr>"
    using bc.rd_law [OF assms] by (elim exE conjE)
  have "raw_data c' (chnd d c' b) = av (cabs d c') b" by (rule bc.get_law [OF c(2)]) (simp add: c(3))
  moreover have "disk c' = disk c" "writes c' = writes c"
    using arg_cong [OF c(3), of ad] arg_cong [OF c(3), of atr] by (simp_all add: cabs_def)
  ultimately show ?thesis using c by (intro exI [of _ "chnd d c' b"] exI [of _ c'] conjI) (simp_all add: chnd_def)
qed

theorem bread_correct_witness:
  "\<exists>h c'. bread (binit (bcache_new (\<lambda>n. replicate BSIZE (of_nat n)))) 1 7 = Ret (h, c') \<and> raw_data c' h = replicate BSIZE 7"
  using bread_correct [of 1 "binit (bcache_new (\<lambda>n. replicate BSIZE (of_nat n)))" 7]
    boot_cache [of 1] boot_view [of 1]
  by (auto simp: room_def NBUF_def MAXOPBLOCKS_def usize_lim_def)

text \<open>C12: The linked list implements a least-recently-used order. For a list of control blocks \<open>xs\<close> as
  \<open>head\<close> and \<open>tail\<close> link them, \<open>recycle\<close> takes the last control block of \<open>xs\<close> that nobody uses, and
  \<open>move_if_no_ref\<close>, called when a buffer is released, moves its control block to the front exactly when
  the last reference is gone; it changes no other count.
\<close>

theorem lru_refines_list:
  assumes "lru_inv l xs" "i < length (inner l)" "0 < refcnt (inner l ! i)"
  shows "(\<exists>l'. move_if_no_ref l i = Ret l' \<and>
      lru_inv l' (if refcnt (inner l ! i) = 1 then i # remove1 i xs else xs) \<and>
      (\<forall>k < length (inner l). refcnt (inner l' ! k) = (if k = i then refcnt (inner l ! i) - 1 else refcnt (inner l ! k)))) \<and>
    recycle l dev b = (case find (\<lambda>k. refcnt (inner l ! k) = 0) (rev xs) of None \<Rightarrow> Ret (None, l)
      | Some k \<Rightarrow> Ret (Some k, upd_ctrl l k (\<lambda>c. c\<lparr>bc_dev := dev, bc_blockno := b, refcnt := 1\<rparr>)))"
  using move_if_no_ref_ok [OF assms] recycle_ok [OF assms(1), of dev b] by blast

definition demo_lru :: buf_lru where
  "demo_lru = \<lparr>inner = [\<lparr>bc_dev = 1, bc_blockno = 5, bc_prev = None, bc_next = Some 1, refcnt = 0, bc_index = 0\<rparr>,
     \<lparr>bc_dev = 1, bc_blockno = 6, bc_prev = Some 0, bc_next = None, refcnt = 1, bc_index = 1\<rparr>],
     lru_head = Some 0, lru_tail = Some 1\<rparr>"

lemma demo_lru_inv: "lru_inv demo_lru [0, 1]"
  by (auto simp: lru_inv_def demo_lru_def less_Suc_eq)

theorem lru_refines_list_witness:
  "(\<exists>l'. move_if_no_ref demo_lru 1 = Ret l' \<and> lru_inv l' [1, 0]) \<and> (\<exists>l'. recycle demo_lru 1 9 = Ret (Some 0, l'))"
  using lru_refines_list [OF demo_lru_inv, of 1 1 9] by (auto simp: demo_lru_def)

end
