(* ===== verification/Kprog.thy ===== *)
theory Kprog
  imports Prelude
begin

text \<open>
  Programs on a kernel state: a routine reads and changes the state and returns or panics. \<open>bindp\<close>
  is sequencing, \<open>tryp\<close> the operator \<open>?\<close> on a \<open>Result\<close>, \<open>forp\<close> a \<open>for\<close> loop whose body may return early
  (\<open>Some r\<close> leaves the enclosing function with \<open>r\<close>). A routine that has to wait for another process
  ends with the panic \<open>sleep\<close>: the model follows one process up to that point.
\<close>

type_synonym ('s, 'a) prog = "'s \<Rightarrow> ('a \<times> 's) outcome"

definition retp :: "'a \<Rightarrow> ('s, 'a) prog" where
  "retp x s = Ret (x, s)"

definition bindp :: "('s, 'a) prog \<Rightarrow> ('a \<Rightarrow> ('s, 'b) prog) \<Rightarrow> ('s, 'b) prog" where
  "bindp m f s = bnd (m s) (\<lambda>(x, s'). f x s')"

definition thenp :: "('s, 'a) prog \<Rightarrow> ('s, 'b) prog \<Rightarrow> ('s, 'b) prog" where
  "thenp m k = bindp m (\<lambda>_. k)"

definition panicp :: "string \<Rightarrow> ('s, 'a) prog" where
  "panicp e s = Panic e"

definition getp :: "('s \<Rightarrow> 'a) \<Rightarrow> ('s, 'a) prog" where
  "getp f s = Ret (f s, s)"

definition modp :: "('s \<Rightarrow> 's) \<Rightarrow> ('s, unit) prog" where
  "modp f s = Ret ((), f s)"

definition liftp :: "'a outcome \<Rightarrow> ('s, 'a) prog" where
  "liftp x s = bnd x (\<lambda>y. Ret (y, s))"

definition tryp :: "('s, string + 'a) prog \<Rightarrow> ('a \<Rightarrow> ('s, string + 'b) prog) \<Rightarrow> ('s, string + 'b) prog" where
  "tryp m f = bindp m (\<lambda>r. case r of Inl e \<Rightarrow> retp (Inl e) | Inr x \<Rightarrow> f x)"

definition assertp :: "bool \<Rightarrow> string \<Rightarrow> ('s, unit) prog" where
  "assertp b e = (if b then retp () else panicp e)"

definition unwrapp :: "string \<Rightarrow> 'a option \<Rightarrow> ('s, 'a) prog" where
  "unwrapp e x = (case x of None \<Rightarrow> panicp e | Some y \<Rightarrow> retp y)"

text \<open>\<open>for i in i..i + n\<close>.\<close>

primrec forp :: "nat \<Rightarrow> nat \<Rightarrow> (nat \<Rightarrow> ('s, 'r option) prog) \<Rightarrow> ('s, 'r option) prog" where
  "forp i 0 body = retp None"
| "forp i (Suc n) body = bindp (body i) (\<lambda>r. case r of None \<Rightarrow> forp (Suc i) n body | Some x \<Rightarrow> retp (Some x))"

lemma bindp_simps [simp]:
  "bindp (retp x) f = f x" "bindp (panicp e) f = panicp e" "bindp m retp = m"
  "bindp (bindp m f) g = bindp m (\<lambda>x. bindp (f x) g)"
proof -
  show "bindp m retp = m"
  proof
    fix s show "bindp m retp s = m s" by (cases "m s") (auto simp: bindp_def retp_def)
  qed
  show "bindp (bindp m f) g = bindp m (\<lambda>x. bindp (f x) g)"
  proof
    fix s show "bindp (bindp m f) g s = bindp m (\<lambda>x. bindp (f x) g) s" by (cases "m s") (auto simp: bindp_def)
  qed
qed (auto simp: bindp_def retp_def panicp_def fun_eq_iff)

lemma bindp_run:
  "m s = Ret (x, s') \<Longrightarrow> bindp m f s = f x s'" "m s = Panic e \<Longrightarrow> bindp m f s = Panic e"
  by (simp_all add: bindp_def)

lemma bindp_Ret: "bindp m f s = Ret r \<longleftrightarrow> (\<exists>x s'. m s = Ret (x, s') \<and> f x s' = Ret r)"
  by (cases "m s") (auto simp: bindp_def)

lemmas prog_run = bindp_def thenp_def retp_def panicp_def getp_def modp_def liftp_def tryp_def assertp_def unwrapp_def

text \<open>
  A total-correctness rule set: \<open>runs P m Q\<close> says that \<open>m\<close> returns from every state with \<open>P\<close>, with a
  result and a state that satisfy \<open>Q\<close>.
\<close>

definition runs :: "('s \<Rightarrow> bool) \<Rightarrow> ('s, 'a) prog \<Rightarrow> ('a \<Rightarrow> 's \<Rightarrow> bool) \<Rightarrow> bool" where
  "runs P m Q \<longleftrightarrow> (\<forall>s. P s \<longrightarrow> (\<exists>x s'. m s = Ret (x, s') \<and> Q x s'))"

lemma runsI: "(\<And>s. P s \<Longrightarrow> \<exists>x s'. m s = Ret (x, s') \<and> Q x s') \<Longrightarrow> runs P m Q"
  by (simp add: runs_def)

lemma runsD: "runs P m Q \<Longrightarrow> P s \<Longrightarrow> \<exists>x s'. m s = Ret (x, s') \<and> Q x s'"
  by (simp add: runs_def)

lemma runs_bind: "runs P m R \<Longrightarrow> (\<And>x. runs (R x) (f x) Q) \<Longrightarrow> runs P (bindp m f) Q"
  unfolding runs_def by (fastforce simp: bindp_def)

lemma runs_ret: "(\<And>s. P s \<Longrightarrow> Q x s) \<Longrightarrow> runs P (retp x) Q"
  by (simp add: runs_def retp_def)

lemma runs_for:
  assumes "\<And>j. i \<le> j \<Longrightarrow> j < i + n \<Longrightarrow> runs (I j) (body j) (\<lambda>r s. r = None \<and> I (Suc j) s)"
  shows "runs (I i) (forp i n body) (\<lambda>r s. r = None \<and> I (i + n) s)"
  using assms
proof (induction n arbitrary: i)
  case 0
  then show ?case by (simp add: runs_ret)
next
  case (Suc n)
  have "runs (I i) (body i) (\<lambda>r s. r = None \<and> I (Suc i) s)" using Suc.prems [of i] by simp
  moreover have "runs (I (Suc i)) (forp (Suc i) n body) (\<lambda>r s. r = None \<and> I (Suc i + n) s)"
    by (rule Suc.IH) (use Suc.prems in auto)
  ultimately show ?case unfolding runs_def by (fastforce simp: bindp_def)
qed

end
