(* ===== verification/KData.thy ===== *)
theory KData
  imports FsParams Kprog
begin

text \<open>
  The data of processes and files (\<open>kernel/src/process\<close>, \<open>kernel/src/fs/file.rs\<close>) and the routines that
  only touch the process table. A pointer to a process is its index in the table, a page table is the
  address of its root, the trap frame is the address of its page (0 is the null pointer). A sleep
  channel is the address of an object; distinct objects have distinct addresses. An \<open>Arc<VFile>\<close> is
  the number of a shared object with its count.
\<close>

record inode =
  i_dev :: nat
  i_inum :: nat
  i_index :: nat

datatype FileType = FT_None | FT_Pipe | FT_Inode | FT_Device | FT_Socket

record vfile =
  ftype :: FileType
  readable :: bool
  writeable :: bool
  pipe :: "nat option"
  f_inode :: "inode option"
  offset :: nat
  major :: int

definition vfile_init :: vfile where
  "vfile_init = \<lparr>ftype = FT_None, readable = False, writeable = False, pipe = None, f_inode = None, offset = 0, major = 0\<rparr>"

datatype ProcState = UNUSED | USED | SLEEPING | RUNNABLE | RUNNING | ZOMBIE | ALLOCATED

datatype chan = Chan0 | ChLog | ChProc nat | ChLock nat | ChPipeRead nat | ChPipeWrite nat | ChDisk nat | ChUart | ChConsole

record kcontext =
  c_ra :: nat
  c_sp :: nat
  c_s :: "nat list"

definition context_new :: kcontext where
  "context_new = \<lparr>c_ra = 0, c_sp = 0, c_s = replicate 12 0\<rparr>"

definition context_write_zero :: "kcontext \<Rightarrow> kcontext" where
  "context_write_zero c = c\<lparr>c_ra := 0, c_sp := 0, c_s := replicate 12 0\<rparr>"

definition write_ra :: "kcontext \<Rightarrow> nat \<Rightarrow> kcontext" where
  "write_ra c v = c\<lparr>c_ra := v\<rparr>"

definition write_sp :: "kcontext \<Rightarrow> nat \<Rightarrow> kcontext" where
  "write_sp c v = c\<lparr>c_sp := v\<rparr>"

record proc_meta =
  pstate :: ProcState
  channel :: chan
  killed :: bool
  xstate :: nat
  pid :: nat

record proc_data =
  kstack :: nat
  psize :: nat
  pagetable :: "nat option"
  trapframe :: nat
  pcontext :: kcontext
  pname :: "8 word list"
  parent :: "nat option"
  open_files :: "nat option list"
  cwd :: "inode option"

record process =
  pmeta :: proc_meta
  pdata :: proc_data

definition proc_meta_new :: proc_meta where
  "proc_meta_new = \<lparr>pstate = UNUSED, channel = Chan0, killed = False, xstate = 0, pid = 0\<rparr>"

definition proc_data_new :: proc_data where
  "proc_data_new = \<lparr>kstack = 0, psize = 0, pagetable = None, trapframe = 0, pcontext = context_new,
     pname = replicate 16 0, parent = None, open_files = replicate NFILE None, cwd = None\<rparr>"

definition process_new :: process where
  "process_new = \<lparr>pmeta = proc_meta_new, pdata = proc_data_new\<rparr>"

definition process_init :: "process \<Rightarrow> nat \<Rightarrow> process" where
  "process_init p ks = p\<lparr>pdata := (pdata p)\<lparr>open_files := replicate NFILE None, kstack := ks\<rparr>\<rparr>"

text \<open>\<open>set_name\<close> copies the bytes over the start of the array of 16; a longer name would overrun it.\<close>

definition set_name :: "proc_data \<Rightarrow> 8 word list \<Rightarrow> proc_data outcome" where
  "set_name d name = (if length name \<le> 16 then Ret (d\<lparr>pname := name @ drop (length name) (pname d)\<rparr>)
     else Panic ''write past the end of name'')"

definition init_context :: "nat \<Rightarrow> proc_data \<Rightarrow> proc_data outcome" where
  "init_context fork_ret d = bnd (uadd (kstack d) PGSIZE) (\<lambda>sp.
     Ret (d\<lparr>pcontext := write_sp (write_ra (context_write_zero (pcontext d)) fork_ret) sp\<rparr>))"

primrec find_none :: "'a option list \<Rightarrow> nat \<Rightarrow> nat option" where
  "find_none [] i = None"
| "find_none (x # xs) i = (if x = None then Some i else find_none xs (Suc i))"

definition find_unallocated_fd :: "proc_data \<Rightarrow> string + nat" where
  "find_unallocated_fd d = (case find_none (open_files d) 0 of
     Some fd \<Rightarrow> Inr fd | None \<Rightarrow> Inl ''Fail to find unallocted fd'')"

definition set_state :: "ProcState \<Rightarrow> process \<Rightarrow> process" where
  "set_state st p = p\<lparr>pmeta := (pmeta p)\<lparr>pstate := st\<rparr>\<rparr>"

definition set_killed :: "bool \<Rightarrow> process \<Rightarrow> process" where
  "set_killed k p = p\<lparr>pmeta := (pmeta p)\<lparr>killed := k\<rparr>\<rparr>"

definition set_chan :: "chan \<Rightarrow> process \<Rightarrow> process" where
  "set_chan c p = p\<lparr>pmeta := (pmeta p)\<lparr>channel := c\<rparr>\<rparr>"

text \<open>The routines of \<open>ProcManager\<close> on the table alone.\<close>

definition wake_up :: "chan \<Rightarrow> process list \<Rightarrow> process list" where
  "wake_up ch ps = map (\<lambda>p. if pstate (pmeta p) = SLEEPING \<and> channel (pmeta p) = ch then set_state RUNNABLE p else p) ps"

primrec seek_loop :: "process list \<Rightarrow> nat \<Rightarrow> nat option" where
  "seek_loop [] i = None"
| "seek_loop (p # ps) i = (if pstate (pmeta p) = RUNNABLE then Some i else seek_loop ps (Suc i))"

definition seek_runnable :: "process list \<Rightarrow> nat option \<times> process list" where
  "seek_runnable ps = (case seek_loop ps 0 of
     Some i \<Rightarrow> (Some i, ps[i := set_state ALLOCATED (ps ! i)]) | None \<Rightarrow> (None, ps))"

primrec kill_loop :: "nat \<Rightarrow> process list \<Rightarrow> (unit + nat) \<times> process list" where
  "kill_loop n [] = (Inl (), [])"
| "kill_loop n (p # ps) =
     (if pid (pmeta p) = n then
        let p1 = set_killed True p in
        if pstate (pmeta p1) = SLEEPING then (Inr 0, set_state RUNNABLE p1 # ps)
        else (case kill_loop n ps of (r, qs) \<Rightarrow> (r, p1 # qs))
      else (case kill_loop n ps of (r, qs) \<Rightarrow> (r, p # qs)))"

definition kill :: "nat \<Rightarrow> process list \<Rightarrow> (unit + nat) \<times> process list" where
  "kill n ps = kill_loop n ps"

definition reparent_step :: "nat \<Rightarrow> nat \<Rightarrow> nat \<Rightarrow> process list \<Rightarrow> process list" where
  "reparent_step p init i ps =
     (if parent (pdata (ps ! i)) = Some p
      then wake_up (ChProc init) (ps[i := (ps ! i)\<lparr>pdata := (pdata (ps ! i))\<lparr>parent := Some init\<rparr>\<rparr>])
      else ps)"

definition reparent :: "nat \<Rightarrow> nat \<Rightarrow> process list \<Rightarrow> process list" where
  "reparent p init ps = fold (reparent_step p init) [0..<length ps] ps"

definition alloc_pid :: "nat \<Rightarrow> (nat \<times> nat) outcome" where
  "alloc_pid g = bnd (uadd g 1) (\<lambda>n. Ret (n, n))"

definition kernel_stack :: "nat \<Rightarrow> nat outcome" where
  "kernel_stack pos = bnd (uadd pos 1) (\<lambda>a. bnd (umul a 5) (\<lambda>b. bnd (umul b PGSIZE) (\<lambda>c. usub TRAMPOLINE c)))"

definition proc_init :: "process list \<Rightarrow> process list outcome" where
  "proc_init ps = fold (\<lambda>pos r. bnd r (\<lambda>qs. bnd (kernel_stack pos) (\<lambda>ks.
     Ret (qs[pos := process_init (qs ! pos) ks])))) [0..<length ps] (Ret ps)"

end
