(* ===== verification/FsDev.thy ===== *)
theory FsDev
  imports Bcache KData PageTable
begin

text \<open>
  The state under the file system and the first layers on it: the buffers (\<open>fs/bio.rs\<close>), the super block
  (\<open>fs/superblock.rs\<close>) and the log (\<open>fs/log.rs\<close>). \<open>procs\<close> is the process table, \<open>cur\<close> the process that
  runs on this hart, \<open>mem\<close> the physical memory and the kernel heap.
\<close>

record superblock =
  initialized :: bool
  magic :: nat
  sb_size :: nat
  nblocks :: nat
  ninodes :: nat
  nlog :: nat
  logstart :: nat
  inodestart :: nat
  bmapstart :: nat

record log_header =
  lh_len :: nat
  blocknos :: "nat list"

record log =
  l_start :: nat
  l_size :: nat
  l_dev :: nat
  outstanding :: nat
  committing :: bool
  lh :: log_header

record kproc =
  procs :: "process list"
  init_proc :: "nat option"
  pids :: nat
  cur :: "nat option"
  mem :: vm

record fsdev = kproc +
  cache :: bcache
  sb :: superblock
  wal :: log

text \<open>The operations of the buffer cache on the state; a buffer is released by \<open>drop_bufp\<close>.\<close>

definition breadp :: "nat \<Rightarrow> nat \<Rightarrow> ('z fsdev_scheme, buf) prog" where
  "breadp dev b s = bnd (bread (cache s) dev b) (\<lambda>(h, c). Ret (h, s\<lparr>cache := c\<rparr>))"

definition raw_datap :: "buf \<Rightarrow> ('z fsdev_scheme, block) prog" where
  "raw_datap h = getp (\<lambda>s. raw_data (cache s) h)"

definition raw_data_mutp :: "buf \<Rightarrow> block \<Rightarrow> ('z fsdev_scheme, unit) prog" where
  "raw_data_mutp h d = modp (\<lambda>s. s\<lparr>cache := raw_data_mut (cache s) h d\<rparr>)"

definition bwritep :: "buf \<Rightarrow> ('z fsdev_scheme, unit) prog" where
  "bwritep h = modp (\<lambda>s. s\<lparr>cache := bwrite (cache s) h\<rparr>)"

definition drop_bufp :: "buf \<Rightarrow> ('z fsdev_scheme, unit) prog" where
  "drop_bufp h s = bnd (drop_buf (cache s) h) (\<lambda>c. Ret ((), s\<lparr>cache := c\<rparr>))"

definition pinp :: "buf \<Rightarrow> ('z fsdev_scheme, unit) prog" where
  "pinp h s = bnd (pin (cache s) h) (\<lambda>c. Ret ((), s\<lparr>cache := c\<rparr>))"

definition unpinp :: "buf \<Rightarrow> ('z fsdev_scheme, unit) prog" where
  "unpinp h s = bnd (unpin (cache s) h) (\<lambda>c. Ret ((), s\<lparr>cache := c\<rparr>))"

definition wake_upp :: "chan \<Rightarrow> ('z kproc_scheme, unit) prog" where
  "wake_upp ch = modp (\<lambda>s. s\<lparr>procs := wake_up ch (procs s)\<rparr>)"

text \<open>The super block.\<close>

definition superblock_uninit :: superblock where
  "superblock_uninit = \<lparr>initialized = False, magic = 0, sb_size = 0, nblocks = 0, ninodes = 0, nlog = 0,
     logstart = 0, inodestart = 0, bmapstart = 0\<rparr>"

definition raw_superblock :: "block \<Rightarrow> superblock \<Rightarrow> superblock" where
  "raw_superblock d s = \<lparr>initialized = initialized s, magic = rd32 d 0, sb_size = rd32 d 4, nblocks = rd32 d 8,
     ninodes = rd32 d 12, nlog = rd32 d 16, logstart = rd32 d 20, inodestart = rd32 d 24, bmapstart = rd32 d 28\<rparr>"

definition sb_init :: "nat \<Rightarrow> ('z fsdev_scheme, unit) prog" where
  "sb_init dev = bindp (getp (\<lambda>s. initialized (sb s))) (\<lambda>ini.
     if ini then retp ()
     else bindp (breadp dev 1) (\<lambda>b. bindp (raw_datap b) (\<lambda>d.
       thenp (modp (\<lambda>s. s\<lparr>sb := raw_superblock d (sb s)\<rparr>))
       (bindp (getp (\<lambda>s. magic (sb s))) (\<lambda>m.
         if m \<noteq> FSMAGIC then panicp ''invalid file system magic num''
         else thenp (modp (\<lambda>s. s\<lparr>sb := (sb s)\<lparr>initialized := True\<rparr>\<rparr>)) (drop_bufp b))))))"

definition sb_read :: "('z fsdev_scheme, superblock) prog" where
  "sb_read = bindp (getp sb) (\<lambda>s. thenp (assertp (initialized s) ''assertion failed'') (retp s))"

definition read_log :: "('z fsdev_scheme, nat \<times> nat) prog" where
  "read_log = bindp sb_read (\<lambda>s. retp (logstart s, nlog s))"

definition sb_sizep :: "('z fsdev_scheme, nat) prog" where
  "sb_sizep = bindp sb_read (\<lambda>s. retp (sb_size s))"

definition inodestartp :: "('z fsdev_scheme, nat) prog" where
  "inodestartp = bindp sb_read (\<lambda>s. retp (inodestart s))"

definition bmapstartp :: "('z fsdev_scheme, nat) prog" where
  "bmapstartp = bindp sb_read (\<lambda>s. retp (bmapstart s))"

definition ninodesp :: "('z fsdev_scheme, nat) prog" where
  "ninodesp = bindp sb_read (\<lambda>s. retp (ninodes s))"

definition locate_inode :: "nat \<Rightarrow> ('z fsdev_scheme, nat) prog" where
  "locate_inode inum = bindp sb_read (\<lambda>s.
     if inum \<ge> ninodes s then panicp ''query inum larger than maximum inode nums''
     else liftp (add32 (inum div IPB) (inodestart s)))"

definition bitmap_blockno :: "nat \<Rightarrow> ('z fsdev_scheme, nat) prog" where
  "bitmap_blockno b = bindp sb_read (\<lambda>s. liftp (add32 (b div BPB) (bmapstart s)))"

text \<open>The log.\<close>

definition log_uninit :: log where
  "log_uninit = \<lparr>l_start = 0, l_size = 0, l_dev = 0, outstanding = 0, committing = False,
     lh = \<lparr>lh_len = 0, blocknos = replicate (LOGSIZE - 1) 0\<rparr>\<rparr>"

definition header_of :: "block \<Rightarrow> log_header" where
  "header_of d = \<lparr>lh_len = rd32 d 0, blocknos = map (\<lambda>i. rd32 d (4 + 4 * i)) [0..<LOGSIZE - 1]\<rparr>"

definition put_header :: "log_header \<Rightarrow> block \<Rightarrow> block" where
  "put_header h d = fold (\<lambda>i d. wr32 d (4 + 4 * i) (blocknos h ! i)) [0..<LOGSIZE - 1] (wr32 d 0 (lh_len h))"

definition set_lh :: "log_header \<Rightarrow> ('z fsdev_scheme, unit) prog" where
  "set_lh h = modp (\<lambda>s. s\<lparr>wal := (wal s)\<lparr>lh := h\<rparr>\<rparr>)"

definition read_head :: "('z fsdev_scheme, unit) prog" where
  "read_head = bindp (getp wal) (\<lambda>l. bindp (breadp (l_dev l) (l_start l)) (\<lambda>b. bindp (raw_datap b) (\<lambda>d.
     thenp (set_lh (header_of d)) (drop_bufp b))))"

definition write_head :: "('z fsdev_scheme, unit) prog" where
  "write_head = bindp (getp wal) (\<lambda>l. bindp (breadp (l_dev l) (l_start l)) (\<lambda>b. bindp (raw_datap b) (\<lambda>d.
     thenp (raw_data_mutp b (put_header (lh l) d)) (thenp (bwritep b) (drop_bufp b)))))"

definition empty_head :: "('z fsdev_scheme, unit) prog" where
  "empty_head = thenp (modp (\<lambda>s. s\<lparr>wal := (wal s)\<lparr>lh := (lh (wal s))\<lparr>lh_len := 0\<rparr>\<rparr>\<rparr>))
     (bindp (getp wal) (\<lambda>l. bindp (breadp (l_dev l) (l_start l)) (\<lambda>b. bindp (raw_datap b) (\<lambda>d.
     thenp (raw_data_mutp b (wr32 d 0 0)) (thenp (bwritep b) (drop_bufp b))))))"

text \<open>\<open>lh.blocknos[i]\<close> and \<open>start + 1 + i\<close>.\<close>

definition blockno_at :: "nat \<Rightarrow> ('z fsdev_scheme, nat) prog" where
  "blockno_at i = bindp (getp (\<lambda>s. blocknos (lh (wal s)))) (\<lambda>bs.
     if i < length bs then retp (bs ! i) else panicp ''index out of bounds'')"

definition log_blockno :: "nat \<Rightarrow> ('z fsdev_scheme, nat) prog" where
  "log_blockno i = bindp (getp wal) (\<lambda>l. bindp (liftp (add32 (l_start l) 1)) (\<lambda>a. liftp (add32 a i)))"

definition install_one :: "bool \<Rightarrow> nat \<Rightarrow> ('z fsdev_scheme, unit option) prog" where
  "install_one recovering i = bindp (getp wal) (\<lambda>l.
     bindp (log_blockno i) (\<lambda>n. bindp (breadp (l_dev l) n) (\<lambda>log_buf.
     bindp (blockno_at i) (\<lambda>bn. bindp (breadp (l_dev l) bn) (\<lambda>disk_buf.
     bindp (raw_datap log_buf) (\<lambda>d. thenp (raw_data_mutp disk_buf d) (thenp (bwritep disk_buf)
     (thenp (if recovering then retp () else unpinp disk_buf)
     (thenp (drop_bufp log_buf) (thenp (drop_bufp disk_buf) (retp None)))))))))))"

definition install_trans :: "bool \<Rightarrow> ('z fsdev_scheme, unit) prog" where
  "install_trans recovering = bindp (getp (\<lambda>s. lh_len (lh (wal s)))) (\<lambda>n.
     thenp (forp 0 n (install_one recovering)) (retp ()))"

definition write_log_one :: "nat \<Rightarrow> ('z fsdev_scheme, unit option) prog" where
  "write_log_one i = bindp (getp wal) (\<lambda>l.
     bindp (log_blockno i) (\<lambda>n. bindp (breadp (l_dev l) n) (\<lambda>log_buf.
     bindp (blockno_at i) (\<lambda>bn. bindp (breadp (l_dev l) bn) (\<lambda>cache_buf.
     bindp (raw_datap cache_buf) (\<lambda>d. thenp (raw_data_mutp log_buf d) (thenp (bwritep log_buf)
     (thenp (drop_bufp cache_buf) (thenp (drop_bufp log_buf) (retp None))))))))))"

definition write_log :: "('z fsdev_scheme, unit) prog" where
  "write_log = bindp (getp (\<lambda>s. lh_len (lh (wal s)))) (\<lambda>n. thenp (forp 0 n write_log_one) (retp ()))"

definition commit :: "('z fsdev_scheme, unit) prog" where
  "commit = bindp (getp wal) (\<lambda>l.
     if \<not> committing l then panicp ''log: committing while the committing flag is not set''
     else if lh_len (lh l) > 0
     then thenp write_log (thenp write_head (thenp (install_trans False) empty_head))
     else retp ())"

definition recover :: "('z fsdev_scheme, unit) prog" where
  "recover = thenp read_head (bindp (getp (\<lambda>s. lh_len (lh (wal s)))) (\<lambda>n.
     if n > 0 then thenp (install_trans True) empty_head else retp ()))"

definition log_init :: "nat \<Rightarrow> ('z fsdev_scheme, unit) prog" where
  "log_init dev = bindp read_log (\<lambda>(st, sz).
     thenp (modp (\<lambda>s. s\<lparr>wal := (wal s)\<lparr>l_start := st, l_size := sz, l_dev := dev\<rparr>\<rparr>)) recover)"

definition begin_op :: "('z fsdev_scheme, unit) prog" where
  "begin_op = bindp (getp wal) (\<lambda>l.
     if committing l then panicp ''sleep''
     else bindp (liftp (add32 (outstanding l) 1)) (\<lambda>n.
       if 1 + lh_len (lh l) + n * MAXOPBLOCKS > LOGSIZE then panicp ''sleep''
       else modp (\<lambda>s. s\<lparr>wal := (wal s)\<lparr>outstanding := n\<rparr>\<rparr>)))"

definition log_write :: "buf \<Rightarrow> ('z fsdev_scheme, unit) prog" where
  "log_write b = bindp (getp wal) (\<lambda>l. let n = lh_len (lh l); bs = blocknos (lh l) in
     bindp (liftp (add32 n 1)) (\<lambda>n1.
     if n1 \<ge> LOGSIZE \<or> n1 \<ge> l_size l then panicp ''log: not enough space for ongoing transactions''
     else if outstanding l < 1 then panicp ''log: this log write is out of recording''
     else if b_blockno b \<in> set (take n bs) then drop_bufp b
     else bindp (liftp (add32 n 2)) (\<lambda>n2.
       if n2 \<ge> LOGSIZE \<or> n2 \<ge> l_size l then panicp ''log: not enough space for this transaction''
       else thenp (pinp b) (thenp (set_lh \<lparr>lh_len = n1, blocknos = bs[n := b_blockno b]\<rparr>) (drop_bufp b)))))"

definition end_op :: "('z fsdev_scheme, unit) prog" where
  "end_op = bindp (getp wal) (\<lambda>l. bindp (liftp (usub (outstanding l) 1)) (\<lambda>n.
     thenp (modp (\<lambda>s. s\<lparr>wal := (wal s)\<lparr>outstanding := n\<rparr>\<rparr>))
     (if committing l then panicp ''log: end fs op while the log is committing''
      else if n = 0
      then thenp (modp (\<lambda>s. s\<lparr>wal := (wal s)\<lparr>committing := True\<rparr>\<rparr>)) (thenp commit
        (thenp (modp (\<lambda>s. s\<lparr>wal := (wal s)\<lparr>committing := False\<rparr>\<rparr>)) (wake_upp ChLog)))
      else wake_upp ChLog)))"

definition fs_init :: "nat \<Rightarrow> ('z fsdev_scheme, unit) prog" where
  "fs_init dev = thenp (sb_init dev) (log_init dev)"

end
