(* ===== verification/LogSteps.thy ===== *)
theory LogSteps
  imports FsDev BlockCache
begin

text \<open>
  The steps of the log on the view of the buffer cache. \<open>view d s a\<close> says that the cache of \<open>s\<close> is
  consistent for device \<open>d\<close> and looks like \<open>a\<close>; the effect of every routine of the log is an update of
  \<open>a\<close>. The lemmas use the laws of \<open>block_cache\<close> only.
\<close>

definition view :: "nat \<Rightarrow> 'z fsdev_scheme \<Rightarrow> acache \<Rightarrow> bool" where
  "view d s a \<longleftrightarrow> bc_inv d (cache s) \<and> cabs d (cache s) = a"

abbreviation hb :: "nat \<Rightarrow> 'z fsdev_scheme \<Rightarrow> nat \<Rightarrow> buf" where
  "hb d s b \<equiv> chnd d (cache s) b"

definition use1 :: "nat \<Rightarrow> acache \<Rightarrow> acache" where
  "use1 b a = a\<lparr>ar := (ar a)(b := ar a b + 1), ah := (ah a)(b := True)\<rparr>"

definition unuse1 :: "nat \<Rightarrow> acache \<Rightarrow> acache" where
  "unuse1 b a = a\<lparr>ar := (ar a)(b := ar a b - 1), ah := (ah a)(b := False)\<rparr>"

definition setv :: "nat \<Rightarrow> block \<Rightarrow> acache \<Rightarrow> acache" where
  "setv b x a = a\<lparr>av := (av a)(b := x)\<rparr>"

definition flush :: "nat \<Rightarrow> acache \<Rightarrow> acache" where
  "flush b a = a\<lparr>ad := (ad a)(b := av a b), atr := atr a @ [(b, av a b)]\<rparr>"

definition chg :: "nat \<Rightarrow> nat \<Rightarrow> acache \<Rightarrow> acache" where
  "chg b n a = a\<lparr>ar := (ar a)(b := n)\<rparr>"

text \<open>\<open>s'\<close> is \<open>s\<close> up to the cache.\<close>

definition same :: "'z fsdev_scheme \<Rightarrow> 'z fsdev_scheme \<Rightarrow> bool" where
  "same s s' \<longleftrightarrow> s' = s\<lparr>cache := cache s'\<rparr>"

lemma same_refl [simp]: "same s s" "same s (s\<lparr>cache := c\<rparr>)"
  by (simp_all add: same_def)

lemma same_trans [trans]: "same s t \<Longrightarrow> same t u \<Longrightarrow> same s u"
  by (cases s; cases t; cases u) (simp add: same_def)

lemma same_wal: "same s s' \<Longrightarrow> wal s' = wal s"
  by (cases s; cases s') (simp add: same_def)

lemmas adefs = use1_def unuse1_def setv_def flush_def chg_def

lemma breadp_view:
  assumes "view d s a" "\<not> ah a b" "room a b"
  shows "\<exists>s'. breadp d b s = Ret (hb d s' b, s') \<and> view d s' (use1 b a) \<and> same s s' \<and>
    (\<forall>x. 0 < ar a x \<longrightarrow> hb d s' x = hb d s x)"
proof -
  have v: "bc_inv d (cache s)" "cabs d (cache s) = a" using assms(1) by (simp_all add: view_def)
  obtain c where c: "bread (cache s) d b = Ret (chnd d c b, c)" "bc_inv d c"
    "cabs d c = a\<lparr>ar := (ar a)(b := ar a b + 1), ah := (ah a)(b := True)\<rparr>"
    "\<forall>x. 0 < ar a x \<longrightarrow> chnd d c x = chnd d (cache s) x"
    using bc.rd_law [OF v(1), of b] assms(2,3) unfolding v(2) by blast
  show ?thesis
    by (rule exI [of _ "s\<lparr>cache := c\<rparr>"]) (use c in \<open>simp add: breadp_def view_def use1_def\<close>)
qed

lemma raw_datap_view: "view d s a \<Longrightarrow> 0 < ar a b \<Longrightarrow> raw_datap (hb d s b) s = Ret (av a b, s)"
  using bc.get_law [of d "cache s" b] by (simp add: raw_datap_def getp_def view_def)

lemma raw_data_mutp_view:
  assumes "view d s a" "ah a b"
  shows "\<exists>s'. raw_data_mutp (hb d s b) x s = Ret ((), s') \<and> view d s' (setv b x a) \<and> same s s' \<and> hb d s' = hb d s"
  using bc.put_law [of d "cache s" b x] assms
  by (intro exI [of _ "s\<lparr>cache := raw_data_mut (cache s) (hb d s b) x\<rparr>"]) (simp add: raw_data_mutp_def modp_def view_def setv_def)

lemma bwritep_view:
  assumes "view d s a" "ah a b"
  shows "\<exists>s'. bwritep (hb d s b) s = Ret ((), s') \<and> view d s' (flush b a) \<and> same s s' \<and> hb d s' = hb d s"
  using bc.wr_law [of d "cache s" b] assms
  by (intro exI [of _ "s\<lparr>cache := bwrite (cache s) (hb d s b)\<rparr>"]) (auto simp: bwritep_def modp_def view_def flush_def)

lemma drop_bufp_view:
  assumes "view d s a" "ah a b" "1 < ar a b \<or> av a b = ad a b"
  shows "\<exists>s'. drop_bufp (hb d s b) s = Ret ((), s') \<and> view d s' (unuse1 b a) \<and> same s s' \<and> hb d s' = hb d s"
proof -
  have v: "bc_inv d (cache s)" "cabs d (cache s) = a" using assms(1) by (simp_all add: view_def)
  obtain c where "drop_buf (cache s) (hb d s b) = Ret c" "bc_inv d c" "chnd d c = chnd d (cache s)"
    "cabs d c = a\<lparr>ar := (ar a)(b := ar a b - 1), ah := (ah a)(b := False)\<rparr>"
    using bc.rel_law [OF v(1), of b] assms(2,3) unfolding v(2) by blast
  then show ?thesis
    by (intro exI [of _ "s\<lparr>cache := c\<rparr>"]) (simp add: drop_bufp_def view_def unuse1_def)
qed

lemma pinp_view:
  assumes "view d s a" "0 < ar a b" "ar a b + 1 < usize_lim"
  shows "\<exists>s'. pinp (hb d s b) s = Ret ((), s') \<and> view d s' (chg b (ar a b + 1) a) \<and> same s s' \<and> hb d s' = hb d s"
proof -
  have v: "bc_inv d (cache s)" "cabs d (cache s) = a" using assms(1) by (simp_all add: view_def)
  obtain c where "pin (cache s) (hb d s b) = Ret c" "bc_inv d c" "chnd d c = chnd d (cache s)"
    "cabs d c = a\<lparr>ar := (ar a)(b := ar a b + 1)\<rparr>"
    using bc.pn_law [OF v(1), of b] assms(2,3) unfolding v(2) by blast
  then show ?thesis
    by (intro exI [of _ "s\<lparr>cache := c\<rparr>"]) (simp add: pinp_def view_def chg_def)
qed

lemma unpinp_view:
  assumes "view d s a" "1 < ar a b"
  shows "\<exists>s'. unpinp (hb d s b) s = Ret ((), s') \<and> view d s' (chg b (ar a b - 1) a) \<and> same s s' \<and> hb d s' = hb d s"
proof -
  have v: "bc_inv d (cache s)" "cabs d (cache s) = a" using assms(1) by (simp_all add: view_def)
  obtain c where "unpin (cache s) (hb d s b) = Ret c" "bc_inv d c" "chnd d c = chnd d (cache s)"
    "cabs d c = a\<lparr>ar := (ar a)(b := ar a b - 1)\<rparr>"
    using bc.upn_law [OF v(1), of b] assms(2) unfolding v(2) by blast
  then show ?thesis
    by (intro exI [of _ "s\<lparr>cache := c\<rparr>"]) (simp add: unpinp_def view_def chg_def)
qed

lemma view_clean: "view d s a \<Longrightarrow> ar a b = 0 \<Longrightarrow> av a b = ad a b"
  using bc.clean_law [of d "cache s" b] by (auto simp: view_def)

lemma view_other [simp]: "view d (s\<lparr>wal := w\<rparr>) a = view d s a" "view d (s\<lparr>procs := p\<rparr>) a = view d s a"
  by (simp_all add: view_def)

text \<open>\<open>cp x y\<close>: the contents of block \<open>x\<close> go to block \<open>y\<close>, in the cache and on the disk.\<close>

definition cp :: "nat \<Rightarrow> nat \<Rightarrow> acache \<Rightarrow> acache" where
  "cp x y a = flush y (setv y (av a x) a)"

lemma cp_sel [simp]:
  "av (cp x y a) = (av a)(y := av a x)" "ad (cp x y a) = (ad a)(y := av a x)" "atr (cp x y a) = atr a @ [(y, av a x)]"
  "ar (cp x y a) = ar a" "ah (cp x y a) = ah a"
  by (simp_all add: cp_def adefs)

lemma chg_sel [simp]:
  "av (chg x k a) = av a" "ad (chg x k a) = ad a" "atr (chg x k a) = atr a" "ar (chg x k a) = (ar a)(x := k)" "ah (chg x k a) = ah a"
  by (simp_all add: adefs)

lemma bread_pair:
  assumes v: "view d s a" and n: "n \<noteq> m" "\<not> ah a n" "\<not> ah a m" and r: "room a n" "room (use1 n a) m"
  shows "\<exists>s1 s2. breadp d n s = Ret (hb d s2 n, s1) \<and> breadp d m s1 = Ret (hb d s2 m, s2) \<and>
    view d s2 (use1 m (use1 n a)) \<and> same s s1 \<and> same s s2"
proof -
  obtain s1 where s1: "breadp d n s = Ret (hb d s1 n, s1)" "view d s1 (use1 n a)" "same s s1"
    using breadp_view [OF v n(2) r(1)] by blast
  have "\<not> ah (use1 n a) m" using n by (simp add: use1_def)
  then obtain s2 where s2: "breadp d m s1 = Ret (hb d s2 m, s2)" "view d s2 (use1 m (use1 n a))" "same s1 s2"
    "\<forall>x. 0 < ar (use1 n a) x \<longrightarrow> hb d s2 x = hb d s1 x"
    using breadp_view [OF s1(2) _ r(2)] by blast
  have "hb d s2 n = hb d s1 n" using s2(4) by (simp add: use1_def)
  then show ?thesis using s1 s2 same_trans by metis
qed

lemma copy_held:
  assumes v: "view d s a" and x: "0 < ar a x" and y: "ah a y"
  shows "\<exists>t s'. raw_datap (hb d s x) s = Ret (av a x, s) \<and> raw_data_mutp (hb d s y) (av a x) s = Ret ((), t) \<and>
    bwritep (hb d s y) t = Ret ((), s') \<and> view d s' (cp x y a) \<and> same s s' \<and> hb d s' = hb d s"
proof -
  obtain t where t: "raw_data_mutp (hb d s y) (av a x) s = Ret ((), t)" "view d t (setv y (av a x) a)" "same s t" "hb d t = hb d s"
    using raw_data_mutp_view [OF v y] by blast
  have "ah (setv y (av a x) a) y" using y by (simp add: setv_def)
  then obtain s' where s': "bwritep (hb d t y) t = Ret ((), s')" "view d s' (flush y (setv y (av a x) a))" "same t s'" "hb d s' = hb d t"
    using bwritep_view [OF t(2)] by blast
  show ?thesis
    using raw_datap_view [OF v x] t s' same_trans [OF t(3) s'(3)] by (auto simp: cp_def)
qed

lemma drop_pair:
  assumes v: "view d s a" and n: "n \<noteq> m" "ah a n" "ah a m"
    and c: "1 < ar a n \<or> av a n = ad a n" "1 < ar a m \<or> av a m = ad a m"
  shows "\<exists>s1 s2. drop_bufp (hb d s n) s = Ret ((), s1) \<and> drop_bufp (hb d s m) s1 = Ret ((), s2) \<and>
    view d s2 (unuse1 m (unuse1 n a)) \<and> same s s2"
proof -
  obtain s1 where s1: "drop_bufp (hb d s n) s = Ret ((), s1)" "view d s1 (unuse1 n a)" "same s s1" "hb d s1 = hb d s"
    using drop_bufp_view [OF v n(2) c(1)] by blast
  have "ah (unuse1 n a) m" "1 < ar (unuse1 n a) m \<or> av (unuse1 n a) m = ad (unuse1 n a) m"
    using n c by (simp_all add: unuse1_def)
  then obtain s2 where s2: "drop_bufp (hb d s1 m) s1 = Ret ((), s2)" "view d s2 (unuse1 m (unuse1 n a))" "same s1 s2"
    using drop_bufp_view [OF s1(2)] by blast
  show ?thesis using s1 s2 same_trans [OF s1(3) s2(3)] by auto
qed

text \<open>What the two routines that copy a block need: the numbers fit, and the cache has room.\<close>

definition copy_pre :: "log \<Rightarrow> nat \<Rightarrow> acache \<Rightarrow> bool" where
  "copy_pre l i a \<longleftrightarrow> l_start l + 1 + i < u32_lim \<and> i < length (blocknos (lh l)) \<and>
     (let n = l_start l + 1 + i; b = blocknos (lh l) ! i in
       b \<noteq> n \<and> \<not> ah a n \<and> \<not> ah a b \<and> room a n \<and> room (use1 n a) b)"

lemma use_pair_back:
  "n \<noteq> m \<Longrightarrow> \<not> ah a n \<Longrightarrow> \<not> ah a m \<Longrightarrow> unuse1 n (unuse1 m (cp m n (use1 m (use1 n a)))) = cp m n a"
  "n \<noteq> m \<Longrightarrow> \<not> ah a n \<Longrightarrow> \<not> ah a m \<Longrightarrow> unuse1 m (unuse1 n (cp n m (use1 m (use1 n a)))) = cp n m a"
  "n \<noteq> m \<Longrightarrow> \<not> ah a n \<Longrightarrow> \<not> ah a m \<Longrightarrow>
    unuse1 m (unuse1 n (chg m (ar a m) (cp n m (use1 m (use1 n a))))) = chg m (ar a m - 1) (cp n m a)"
  by (auto simp: adefs cp_def fun_eq_iff intro!: acache.equality)

lemma log_blockno_run: "l_start (wal s) + 1 + i < u32_lim \<Longrightarrow> log_blockno i s = Ret (l_start (wal s) + 1 + i, s)"
  by (simp add: log_blockno_def prog_run add32_def)

lemma blockno_at_run: "i < length (blocknos (lh (wal s))) \<Longrightarrow> blockno_at i s = Ret (blocknos (lh (wal s)) ! i, s)"
  by (simp add: blockno_at_def prog_run)

lemma write_log_one_view:
  assumes v: "view (l_dev (wal s)) s a" and p: "copy_pre (wal s) i a" and pin: "0 < ar a (blocknos (lh (wal s)) ! i)"
  shows "\<exists>s'. write_log_one i s = Ret (None, s') \<and> same s s' \<and>
    view (l_dev (wal s)) s' (cp (blocknos (lh (wal s)) ! i) (l_start (wal s) + 1 + i) a)"
proof -
  let ?d = "l_dev (wal s)" and ?n = "l_start (wal s) + 1 + i" and ?b = "blocknos (lh (wal s)) ! i"
  have q: "?n < u32_lim" "i < length (blocknos (lh (wal s)))" "?n \<noteq> ?b" "\<not> ah a ?n" "\<not> ah a ?b" "room a ?n" "room (use1 ?n a) ?b"
    using p by (auto simp: copy_pre_def Let_def)
  obtain s1 s2 where r: "breadp ?d ?n s = Ret (hb ?d s2 ?n, s1)" "breadp ?d ?b s1 = Ret (hb ?d s2 ?b, s2)"
    "view ?d s2 (use1 ?b (use1 ?n a))" "same s s1" "same s s2"
    using bread_pair [OF v q(3-7)] by blast
  let ?a2 = "use1 ?b (use1 ?n a)"
  have a2: "0 < ar ?a2 ?b" "ah ?a2 ?n" "ah ?a2 ?b" "av ?a2 ?b = av a ?b" "1 < ar ?a2 ?b" using pin by (simp_all add: use1_def)
  obtain s3 s4 where w: "raw_datap (hb ?d s2 ?b) s2 = Ret (av a ?b, s2)" "raw_data_mutp (hb ?d s2 ?n) (av a ?b) s2 = Ret ((), s3)"
    "bwritep (hb ?d s2 ?n) s3 = Ret ((), s4)" "view ?d s4 (cp ?b ?n ?a2)" "same s2 s4" "hb ?d s4 = hb ?d s2"
    using copy_held [OF r(3) a2(1,2)] unfolding a2(4) by blast
  obtain s5 s6 where x: "drop_bufp (hb ?d s4 ?b) s4 = Ret ((), s5)" "drop_bufp (hb ?d s4 ?n) s5 = Ret ((), s6)"
    "view ?d s6 (unuse1 ?n (unuse1 ?b (cp ?b ?n ?a2)))" "same s4 s6"
    using drop_pair [OF w(4), of ?b ?n] q(3) a2 by auto
  have "write_log_one i s = Ret (None, s6)"
    using log_blockno_run [OF q(1)] blockno_at_run [of i s1] r(1,2) w(1-3,6) x(1,2) q(2) same_wal [OF r(4)]
    by (simp add: write_log_one_def bindp_def thenp_def getp_def retp_def)
  then show ?thesis using x(3) use_pair_back(1) [OF q(3-5)] same_trans [OF r(5) same_trans [OF w(5) x(4)]] by auto
qed

lemma install_one_view:
  assumes v: "view (l_dev (wal s)) s a" and p: "copy_pre (wal s) i a"
    and pin: "\<not> rc \<Longrightarrow> 0 < ar a (blocknos (lh (wal s)) ! i)"
    and cl: "av a (l_start (wal s) + 1 + i) = ad a (l_start (wal s) + 1 + i)"
  shows "\<exists>s'. install_one rc i s = Ret (None, s') \<and> same s s' \<and>
    view (l_dev (wal s)) s' ((if rc then (\<lambda>x. x) else chg (blocknos (lh (wal s)) ! i) (ar a (blocknos (lh (wal s)) ! i) - 1))
      (cp (l_start (wal s) + 1 + i) (blocknos (lh (wal s)) ! i) a))"
proof -
  let ?d = "l_dev (wal s)" and ?n = "l_start (wal s) + 1 + i" and ?b = "blocknos (lh (wal s)) ! i"
  have q: "?n < u32_lim" "i < length (blocknos (lh (wal s)))" "?n \<noteq> ?b" "\<not> ah a ?n" "\<not> ah a ?b" "room a ?n" "room (use1 ?n a) ?b"
    using p by (auto simp: copy_pre_def Let_def)
  obtain s1 s2 where r: "breadp ?d ?n s = Ret (hb ?d s2 ?n, s1)" "breadp ?d ?b s1 = Ret (hb ?d s2 ?b, s2)"
    "view ?d s2 (use1 ?b (use1 ?n a))" "same s s1" "same s s2"
    using bread_pair [OF v q(3-7)] by blast
  let ?a2 = "use1 ?b (use1 ?n a)"
  have a2: "0 < ar ?a2 ?n" "ah ?a2 ?b" "ah ?a2 ?n" "av ?a2 ?n = av a ?n" "ad ?a2 ?n = ad a ?n" "ar ?a2 ?b = ar a ?b + 1"
    using q(3) by (simp_all add: use1_def)
  obtain s3 s4 where w: "raw_datap (hb ?d s2 ?n) s2 = Ret (av a ?n, s2)" "raw_data_mutp (hb ?d s2 ?b) (av a ?n) s2 = Ret ((), s3)"
    "bwritep (hb ?d s2 ?b) s3 = Ret ((), s4)" "view ?d s4 (cp ?n ?b ?a2)" "same s2 s4" "hb ?d s4 = hb ?d s2"
    using copy_held [OF r(3) a2(1,2)] unfolding a2(4) by blast
  let ?a4 = "cp ?n ?b ?a2"
  let ?a5 = "if rc then ?a4 else chg ?b (ar a ?b) ?a4"
  obtain s5 where u: "(if rc then retp () else unpinp (hb ?d s4 ?b)) s4 = Ret ((), s5)" "view ?d s5 ?a5" "same s4 s5" "hb ?d s5 = hb ?d s4"
  proof (cases rc)
    case True
    then show ?thesis using that [of s4] w(4) by (simp add: retp_def)
  next
    case False
    then have "1 < ar ?a4 ?b" using pin a2(6) by simp
    from unpinp_view [OF w(4) this] show ?thesis using that False a2(6) by (auto simp del: One_nat_def)
  qed
  have "\<exists>s6 s7. drop_bufp (hb ?d s5 ?n) s5 = Ret ((), s6) \<and> drop_bufp (hb ?d s5 ?b) s6 = Ret ((), s7) \<and>
    view ?d s7 (unuse1 ?b (unuse1 ?n ?a5)) \<and> same s5 s7"
    by (rule drop_pair [OF u(2) q(3)]) (use q(3) a2 cl in auto)
  then obtain s6 s7 where x: "drop_bufp (hb ?d s5 ?n) s5 = Ret ((), s6)" "drop_bufp (hb ?d s5 ?b) s6 = Ret ((), s7)"
    "view ?d s7 (unuse1 ?b (unuse1 ?n ?a5))" "same s5 s7" by blast
  have "install_one rc i s = Ret (None, s7)"
    using log_blockno_run [OF q(1)] blockno_at_run [of i s1] r(1,2) w(1-3,6) u(1,4) x(1,2) q(2) same_wal [OF r(4)]
    by (simp add: install_one_def bindp_def thenp_def getp_def retp_def split: if_splits)
  then show ?thesis
    using x(3) use_pair_back(2,3) [OF q(3-5)] same_trans [OF r(5) same_trans [OF w(5) same_trans [OF u(3) x(4)]]]
    by (auto split: if_splits)
qed

text \<open>The header block.\<close>

definition wrv :: "nat \<Rightarrow> block \<Rightarrow> acache \<Rightarrow> acache" where
  "wrv b x a = flush b (setv b x a)"

lemma wrv_sel [simp]:
  "av (wrv b x a) = (av a)(b := x)" "ad (wrv b x a) = (ad a)(b := x)" "atr (wrv b x a) = atr a @ [(b, x)]"
  "ar (wrv b x a) = ar a" "ah (wrv b x a) = ah a"
  by (simp_all add: wrv_def adefs)

lemma use_back: "\<not> ah a b \<Longrightarrow> unuse1 b (use1 b a) = a" "\<not> ah a b \<Longrightarrow> unuse1 b (wrv b x (use1 b a)) = wrv b x a"
  by (auto simp: adefs wrv_def fun_eq_iff intro!: acache.equality)

lemma update_view:
  assumes v: "view d s a" and h: "\<not> ah a b" and r: "room a b"
  shows "\<exists>s'. bindp (breadp d b) (\<lambda>h. bindp (raw_datap h) (\<lambda>x.
      thenp (raw_data_mutp h (f x)) (thenp (bwritep h) (drop_bufp h)))) s = Ret ((), s') \<and>
    view d s' (wrv b (f (av a b)) a) \<and> same s s'"
proof -
  obtain s1 where s1: "breadp d b s = Ret (hb d s1 b, s1)" "view d s1 (use1 b a)" "same s s1"
    using breadp_view [OF v h r] by blast
  let ?x = "f (av a b)"
  have g: "raw_datap (hb d s1 b) s1 = Ret (av a b, s1)" using raw_datap_view [OF s1(2), of b] by (simp add: use1_def)
  have "ah (use1 b a) b" by (simp add: use1_def)
  then obtain s2 where s2: "raw_data_mutp (hb d s1 b) ?x s1 = Ret ((), s2)" "view d s2 (setv b ?x (use1 b a))" "same s1 s2" "hb d s2 = hb d s1"
    using raw_data_mutp_view [OF s1(2)] by blast
  have "ah (setv b ?x (use1 b a)) b" by (simp add: adefs)
  then obtain s3 where s3: "bwritep (hb d s2 b) s2 = Ret ((), s3)" "view d s3 (wrv b ?x (use1 b a))" "same s2 s3" "hb d s3 = hb d s2"
    using bwritep_view [OF s2(2)] unfolding wrv_def by blast
  have "ah (wrv b ?x (use1 b a)) b" "av (wrv b ?x (use1 b a)) b = ad (wrv b ?x (use1 b a)) b" by (simp_all add: use1_def)
  then obtain s4 where s4: "drop_bufp (hb d s3 b) s3 = Ret ((), s4)" "view d s4 (unuse1 b (wrv b ?x (use1 b a)))" "same s3 s4"
    using drop_bufp_view [OF s3(2)] by blast
  show ?thesis
    using s1(1) g s2(1,4) s3(1,4) s4(1,2) use_back(2) [OF h] same_trans [OF s1(3) same_trans [OF s2(3) same_trans [OF s3(3) s4(3)]]]
    by (auto simp: bindp_def thenp_def)
qed

lemma write_head_view:
  assumes "view (l_dev (wal s)) s a" "\<not> ah a (l_start (wal s))" "room a (l_start (wal s))"
  shows "\<exists>s'. write_head s = Ret ((), s') \<and> same s s' \<and>
    view (l_dev (wal s)) s' (wrv (l_start (wal s)) (put_header (lh (wal s)) (av a (l_start (wal s)))) a)"
  using update_view [OF assms, of "put_header (lh (wal s))"] by (auto simp: write_head_def getp_def bindp_def)

lemma empty_head_view:
  assumes "view (l_dev (wal s)) s a" "\<not> ah a (l_start (wal s))" "room a (l_start (wal s))"
  shows "\<exists>s'. empty_head s = Ret ((), s') \<and> same (s\<lparr>wal := (wal s)\<lparr>lh := (lh (wal s))\<lparr>lh_len := 0\<rparr>\<rparr>\<rparr>) s' \<and>
    view (l_dev (wal s)) s' (wrv (l_start (wal s)) (wr32 (av a (l_start (wal s))) 0 0) a)"
proof -
  let ?s = "s\<lparr>wal := (wal s)\<lparr>lh := (lh (wal s))\<lparr>lh_len := 0\<rparr>\<rparr>\<rparr>"
  have "view (l_dev (wal ?s)) ?s a" using assms(1) by simp
  from update_view [OF this, of "l_start (wal ?s)" "\<lambda>x. wr32 x 0 0"] assms(2,3) show ?thesis
    by (auto simp: empty_head_def getp_def modp_def bindp_def thenp_def)
qed

lemma read_head_view:
  assumes v: "view (l_dev (wal s)) s a" and h: "\<not> ah a (l_start (wal s))" and r: "room a (l_start (wal s))"
    and c: "0 < ar a (l_start (wal s)) \<or> av a (l_start (wal s)) = ad a (l_start (wal s))"
  shows "\<exists>s'. read_head s = Ret ((), s') \<and> same (s\<lparr>wal := (wal s)\<lparr>lh := header_of (av a (l_start (wal s)))\<rparr>\<rparr>) s' \<and>
    view (l_dev (wal s)) s' a"
proof -
  let ?d = "l_dev (wal s)" and ?b = "l_start (wal s)"
  obtain s1 where s1: "breadp ?d ?b s = Ret (hb ?d s1 ?b, s1)" "view ?d s1 (use1 ?b a)" "same s s1"
    using breadp_view [OF v h r] by blast
  have g: "raw_datap (hb ?d s1 ?b) s1 = Ret (av a ?b, s1)" using raw_datap_view [OF s1(2), of ?b] by (simp add: use1_def)
  let ?s = "s1\<lparr>wal := (wal s1)\<lparr>lh := header_of (av a ?b)\<rparr>\<rparr>"
  have "view ?d ?s (use1 ?b a)" "ah (use1 ?b a) ?b" "1 < ar (use1 ?b a) ?b \<or> av (use1 ?b a) ?b = ad (use1 ?b a) ?b"
    using s1(2) c by (auto simp: use1_def)
  then obtain s2 where s2: "drop_bufp (hb ?d ?s ?b) ?s = Ret ((), s2)" "view ?d s2 (unuse1 ?b (use1 ?b a))" "same ?s s2"
    using drop_bufp_view by blast
  have "same (s\<lparr>wal := (wal s)\<lparr>lh := header_of (av a ?b)\<rparr>\<rparr>) ?s"
    using s1(3) same_wal [OF s1(3)] by (cases s; cases s1) (simp add: same_def)
  then have "same (s\<lparr>wal := (wal s)\<lparr>lh := header_of (av a ?b)\<rparr>\<rparr>) s2" using s2(3) same_trans by blast
  moreover have "read_head s = Ret ((), s2)"
    using s1(1) g s2(1) by (simp add: read_head_def getp_def set_lh_def modp_def bindp_def thenp_def)
  ultimately show ?thesis using s2(2) use_back(1) [OF h] by auto
qed

end
