(* ===== verification/BlockWords.thy ===== *)
theory BlockWords
  imports FsParams
begin

text \<open>
  Arrays of 32-bit words in a block, as the log header and the inodes have them: what is read back after
  all words have been written, and which bytes stay.
\<close>

definition put_words :: "nat \<Rightarrow> nat list \<Rightarrow> nat \<Rightarrow> block \<Rightarrow> block" where
  "put_words off ws m d = fold (\<lambda>i d. wr32 d (off + 4 * i) (ws ! i)) [0..<m] d"

lemma put_words_Suc: "put_words off ws (Suc m) d = wr32 (put_words off ws m d) (off + 4 * m) (ws ! m)"
  by (simp add: put_words_def)

lemma put_words_length: "off + 4 * m \<le> length d \<Longrightarrow> length (put_words off ws m d) = length d"
  by (induction m) (simp_all add: put_words_Suc, simp add: put_words_def)

lemma put_words_other:
  assumes "off + 4 * m \<le> length d" "o2 + n \<le> length d" "o2 + n \<le> off \<or> off + 4 * m \<le> o2"
  shows "get_bytes (put_words off ws m d) o2 n = get_bytes d o2 n"
  using assms
proof (induction m)
  case (Suc m)
  then show ?case using get_put_other [of "off + 4 * m" "le_enc 4 (ws ! m)" "put_words off ws m d" o2 n]
    by (auto simp: put_words_Suc wr32_def put_words_length)
qed (simp add: put_words_def)

lemma put_words_read:
  assumes "off + 4 * m \<le> length d" "i < m" "\<forall>j < m. ws ! j < u32_lim"
  shows "rd32 (put_words off ws m d) (off + 4 * i) = ws ! i"
  using assms
proof (induction m)
  case (Suc m)
  have l: "length (put_words off ws m d) = length d" using Suc.prems by (simp add: put_words_length)
  show ?case
  proof (cases "i = m")
    case False
    then have "off + 4 * i + 4 \<le> off + 4 * m" using Suc.prems(2) by simp
    then show ?thesis using rd32_wr32 [of "off + 4 * m" "put_words off ws m d" "off + 4 * i" "ws ! m"] Suc l False
      by (simp add: put_words_Suc)
  qed (use rd32_wr32 [of "off + 4 * m" "put_words off ws m d" "off + 4 * m" "ws ! m"] Suc.prems l in \<open>simp add: put_words_Suc\<close>)
qed simp

lemma rd_other: "get_bytes d o2 4 = get_bytes e o2 4 \<Longrightarrow> rd32 d o2 = rd32 e o2" "get_bytes d o2 2 = get_bytes e o2 2 \<Longrightarrow> rd16 d o2 = rd16 e o2"
  by (simp_all add: rd32_def rd16_def)

lemma wr_other:
  "off + 4 \<le> length d \<Longrightarrow> o2 + n \<le> length d \<Longrightarrow> o2 + n \<le> off \<or> off + 4 \<le> o2 \<Longrightarrow> get_bytes (wr32 d off v) o2 n = get_bytes d o2 n"
  "off + 2 \<le> length d \<Longrightarrow> o2 + n \<le> length d \<Longrightarrow> o2 + n \<le> off \<or> off + 2 \<le> o2 \<Longrightarrow> get_bytes (wr16 d off v) o2 n = get_bytes d o2 n"
  using get_put_other [of off "le_enc 4 v" d o2 n] get_put_other [of off "le_enc 2 v" d o2 n] by (simp_all add: wr32_def wr16_def)

end
