(* ===== verification/LogCommit.thy ===== *)
theory LogCommit
  imports LogSteps BcacheProps BlockWords
begin

text \<open>
  The effect of committing and recovering a transaction. \<open>log_ready\<close> says when a transaction can be
  committed; \<open>logged\<close>, \<open>installed\<close> describe the cache during \<open>write_log\<close> and \<open>install_trans\<close>, and
  \<open>play\<close> is what a list of block writes makes of a disk.
\<close>

subsection \<open>The header block\<close>

definition header_ok :: "log_header \<Rightarrow> bool" where
  "header_ok h \<longleftrightarrow> length (blocknos h) = LOGSIZE - 1 \<and> lh_len h < u32_lim \<and> (\<forall>b \<in> set (blocknos h). b < u32_lim)"

lemma put_header_words: "put_header h d = put_words 4 (blocknos h) (LOGSIZE - 1) (wr32 d 0 (lh_len h))"
  by (simp add: put_header_def put_words_def)

lemma header_round:
  assumes "header_ok h" "length d = BSIZE"
  shows "header_of (put_header h d) = h" "length (put_header h d) = BSIZE"
proof -
  let ?e = "wr32 d 0 (lh_len h)"
  have e: "length ?e = BSIZE" "rd32 ?e 0 = lh_len h"
    using assms rd32_wr32 [of 0 d 0 "lh_len h"] by (simp_all add: header_ok_def BSIZE_def)
  have fit: "4 + 4 * (LOGSIZE - 1) \<le> length ?e" using e(1) by (simp add: fs_defs)
  have b: "\<forall>i < LOGSIZE - 1. blocknos h ! i < u32_lim" using assms(1) by (auto simp: header_ok_def)
  have p: "rd32 (put_header h d) 0 = lh_len h"
    using rd_other(1) [OF put_words_other [OF fit, of 0 4]] e by (simp add: put_header_words BSIZE_def)
  show "length (put_header h d) = BSIZE" using put_words_length [OF fit] e(1) by (simp add: put_header_words)
  have "map (\<lambda>i. rd32 (put_header h d) (4 + 4 * i)) [0..<LOGSIZE - 1] = blocknos h"
    by (rule nth_equalityI) (use assms(1) put_words_read [OF fit _ b] in \<open>auto simp: header_ok_def put_header_words\<close>)
  then show "header_of (put_header h d) = h" using p by (simp add: header_of_def)
qed

lemma header_empty: "length d = BSIZE \<Longrightarrow> lh_len (header_of (wr32 d 0 0)) = 0"
  using rd32_wr32 [of 0 d 0 0] by (simp add: header_of_def fs_defs u32_lim_def)

lemma header_of_ok: "header_ok (header_of d)"
  by (auto simp: header_ok_def header_of_def rd32_bound)

subsection \<open>A transaction that can be committed\<close>

text \<open>
  The logged blocks are different, pinned and outside the log; nobody uses the blocks of the log and
  nothing is locked; a buffer is free.
\<close>

definition txn_blocks :: "log \<Rightarrow> nat list" where
  "txn_blocks l = take (lh_len (lh l)) (blocknos (lh l))"

definition log_area :: "log \<Rightarrow> nat set" where
  "log_area l = {l_start l..l_start l + lh_len (lh l)}"

definition cache_quiet :: "acache \<Rightarrow> bool" where
  "cache_quiet a \<longleftrightarrow> (\<forall>x. \<not> ah a x) \<and> (\<forall>x. ar a x + 1 < usize_lim) \<and> card {x. 0 < ar a x} < NBUF"

definition log_ready :: "log \<Rightarrow> acache \<Rightarrow> bool" where
  "log_ready l a \<longleftrightarrow> header_ok (lh l) \<and> lh_len (lh l) < LOGSIZE \<and> l_start l + lh_len (lh l) < u32_lim \<and>
     distinct (txn_blocks l) \<and> set (txn_blocks l) \<inter> log_area l = {} \<and> (\<forall>b \<in> set (txn_blocks l). 0 < ar a b) \<and>
     (\<forall>b \<in> log_area l. ar a b = 0) \<and> cache_quiet a"

lemma log_readyD:
  assumes "log_ready l a"
  shows "header_ok (lh l)" "length (blocknos (lh l)) = LOGSIZE - 1" "lh_len (lh l) \<le> length (blocknos (lh l))"
    "length (txn_blocks l) = lh_len (lh l)" "distinct (txn_blocks l)" "\<And>i. i < lh_len (lh l) \<Longrightarrow> txn_blocks l ! i = blocknos (lh l) ! i"
    "\<And>b. b \<in> set (txn_blocks l) \<Longrightarrow> 0 < ar a b \<and> (b < l_start l \<or> l_start l + lh_len (lh l) < b)"
    "\<And>b. l_start l \<le> b \<Longrightarrow> b \<le> l_start l + lh_len (lh l) \<Longrightarrow> ar a b = 0" "l_start l + lh_len (lh l) < u32_lim"
    "cache_quiet a"
  using assms by (auto simp: log_ready_def header_ok_def txn_blocks_def log_area_def disjoint_iff)

lemma quiet_room: "cache_quiet a \<Longrightarrow> room a b"
  by (auto simp: cache_quiet_def room_def)

lemma ready_room2:
  assumes "cache_quiet a" "n \<noteq> b" "0 < ar a b"
  shows "room (use1 n a) b"
  using assms by (auto simp: cache_quiet_def room_def use1_def)

definition play :: "(nat \<times> block) list \<Rightarrow> (nat \<Rightarrow> block) \<Rightarrow> nat \<Rightarrow> block" where
  "play ws D = fold (\<lambda>(b, x) D. D(b := x)) ws D"

lemma play_simps [simp]: "play [] D = D" "play (ws @ vs) D = play vs (play ws D)" "play ((b, x) # ws) D = play ws (D(b := x))"
  by (simp_all add: play_def)

lemma play_out: "x \<notin> fst ` set ws \<Longrightarrow> play ws D x = D x"
  by (induction ws arbitrary: D) (auto simp: play_def)

lemma play_in: "x \<in> fst ` set ws \<Longrightarrow> play ws D x = play ws E x"
proof (induction ws arbitrary: D E)
  case (Cons w ws)
  obtain b v where w: "w = (b, v)" by (cases w)
  show ?case
  proof (cases "x \<in> fst ` set ws")
    case False
    then have "x = b" using Cons.prems w by auto
    then show ?thesis using False by (simp add: w play_out)
  qed (simp only: w play_simps, rule Cons.IH)
qed simp

lemma play_at: "(b, v) \<in> set ws \<Longrightarrow> distinct (map fst ws) \<Longrightarrow> play ws D b = v"
proof (induction ws arbitrary: D)
  case (Cons w ws)
  show ?case
  proof (cases "w = (b, v)")
    case True
    then have "b \<notin> fst ` set ws" using Cons.prems(2) by auto
    then show ?thesis using True by (simp add: play_out)
  qed (use Cons in \<open>cases w; auto\<close>)
qed simp

lemma play_again: "fst ` set vs \<subseteq> fst ` set ws \<Longrightarrow> play ws (play vs D) = play ws D"
proof
  fix x assume s: "fst ` set vs \<subseteq> fst ` set ws"
  show "play ws (play vs D) x = play ws D x"
  proof (cases "x \<in> fst ` set ws")
    case False
    then have "x \<notin> fst ` set vs" using s by blast
    then show ?thesis using False by (simp add: play_out)
  qed (rule play_in)
qed

subsection \<open>Writing the log\<close>

definition log_writes :: "log \<Rightarrow> (nat \<Rightarrow> block) \<Rightarrow> nat \<Rightarrow> (nat \<times> block) list" where
  "log_writes l V k = map (\<lambda>i. (l_start l + 1 + i, V (blocknos (lh l) ! i))) [0..<k]"

definition home_writes :: "log \<Rightarrow> (nat \<Rightarrow> block) \<Rightarrow> nat \<Rightarrow> (nat \<times> block) list" where
  "home_writes l V k = map (\<lambda>i. (blocknos (lh l) ! i, V (l_start l + 1 + i))) [0..<k]"

lemma writes_Suc:
  "log_writes l V (Suc k) = log_writes l V k @ [(l_start l + 1 + k, V (blocknos (lh l) ! k))]"
  "home_writes l V (Suc k) = home_writes l V k @ [(blocknos (lh l) ! k, V (l_start l + 1 + k))]"
  by (simp_all add: log_writes_def home_writes_def)

lemma writes_0 [simp]: "log_writes l V 0 = []" "home_writes l V 0 = []" "length (log_writes l V k) = k" "length (home_writes l V k) = k"
  by (simp_all add: log_writes_def home_writes_def)

lemma writes_keys: "fst ` set (log_writes l V k) = {l_start l + 1..<l_start l + 1 + k}"
  "fst ` set (home_writes l V k) = set (map (\<lambda>i. blocknos (lh l) ! i) [0..<k])"
proof -
  have "fst ` set (log_writes l V k) = (\<lambda>i. l_start l + 1 + i) ` {0..<k}" by (simp add: log_writes_def image_image)
  then show "fst ` set (log_writes l V k) = {l_start l + 1..<l_start l + 1 + k}" by (simp only: image_add_atLeastLessThan) (simp add: add.commute)
qed (simp add: home_writes_def image_image)

lemma take_writes: "k \<le> n \<Longrightarrow> take k (log_writes l V n) = log_writes l V k" "k \<le> n \<Longrightarrow> take k (home_writes l V n) = home_writes l V k"
  by (simp_all add: log_writes_def home_writes_def take_map)

text \<open>The blocks of the transaction lie outside the log, and the log has room for its header.\<close>

definition log_fits :: "log \<Rightarrow> bool" where
  "log_fits l \<longleftrightarrow> lh_len (lh l) \<le> length (blocknos (lh l)) \<and> l_start l + lh_len (lh l) < u32_lim \<and>
     (\<forall>i < lh_len (lh l). blocknos (lh l) ! i \<notin> log_area l)"

lemma log_fitsD:
  "log_fits l \<Longrightarrow> i < lh_len (lh l) \<Longrightarrow> i < length (blocknos (lh l)) \<and> l_start l + 1 + i < u32_lim \<and>
    (blocknos (lh l) ! i < l_start l \<or> l_start l + lh_len (lh l) < blocknos (lh l) ! i)"
  by (auto simp: log_fits_def log_area_def)

lemma play_log_home:
  assumes "log_fits l" "i < lh_len (lh l)" "k \<le> lh_len (lh l)"
  shows "play (log_writes l V k) D (blocknos (lh l) ! i) = D (blocknos (lh l) ! i)"
  using log_fitsD [OF assms(1,2)] assms(3) by (intro play_out) (auto simp: writes_keys)

lemma play_home_log:
  assumes "log_fits l" "k \<le> lh_len (lh l)" "l_start l \<le> x" "x \<le> l_start l + lh_len (lh l)"
  shows "play (home_writes l V k) D x = D x"
proof (rule play_out)
  have n: "blocknos (lh l) ! i \<noteq> x" if "i < k" for i using log_fitsD [OF assms(1), of i] assms(2-4) that by auto
  show "x \<notin> fst ` set (home_writes l V k)"
  proof
    assume "x \<in> fst ` set (home_writes l V k)"
    then obtain i where "i < k" "blocknos (lh l) ! i = x" by (auto simp: writes_keys)
    then show False using n by blast
  qed
qed

lemma play_log_at:
  assumes "i < k"
  shows "play (log_writes l V k) D (l_start l + 1 + i) = V (blocknos (lh l) ! i)"
  using assms by (intro play_at) (auto simp: log_writes_def o_def distinct_map inj_on_def)

lemma ready_fits: "log_ready l a \<Longrightarrow> log_fits l"
  using log_readyD(3,9) unfolding log_ready_def log_fits_def
  by (metis disjoint_iff log_ready_def log_readyD(3,4,6) nth_mem)

lemma copy_preI:
  assumes "log_fits l" "i < lh_len (lh l)" "cache_quiet a" "0 < ar a (blocknos (lh l) ! i) \<or> card {x. 0 < ar a x} + 1 < NBUF"
  shows "copy_pre l i a"
proof -
  have q: "\<And>x. \<not> ah a x" "\<And>x. ar a x + 1 < usize_lim" "card {x. 0 < ar a x} < NBUF" using assms(3) by (auto simp: cache_quiet_def)
  have f: "i < length (blocknos (lh l))" "l_start l + 1 + i < u32_lim" "blocknos (lh l) ! i \<noteq> l_start l + 1 + i"
    using log_fitsD [OF assms(1,2)] assms(2) by auto
  have "card {x. 0 < ar (use1 n a) x} \<le> card {x. 0 < ar a x} + 1" for n
  proof -
    have "{x. 0 < ar (use1 n a) x} = insert n {x. 0 < ar a x}" by (auto simp: use1_def)
    then show ?thesis by (metis Suc_eq_plus1 card_insert_le_m1 card_insert_if card.infinite finite_insert le_SucI order_refl zero_le)
  qed
  then have "card {x. 0 < ar (use1 n a) x} < NBUF" if "card {x. 0 < ar a x} + 1 < NBUF" for n
    using that le_less_trans by blast
  moreover have "ar (use1 (l_start l + 1 + i) a) (blocknos (lh l) ! i) = ar a (blocknos (lh l) ! i)" using f(3) by (simp add: use1_def)
  ultimately have "room (use1 (l_start l + 1 + i) a) (blocknos (lh l) ! i)"
    using assms(4) q(2) [of "blocknos (lh l) ! i"] unfolding room_def by presburger
  then show ?thesis using quiet_room [OF assms(3)] f q(1) by (simp add: copy_pre_def Let_def)
qed

primrec logged :: "log \<Rightarrow> nat \<Rightarrow> acache \<Rightarrow> acache" where
  "logged l 0 a = a"
| "logged l (Suc k) a = cp (blocknos (lh l) ! k) (l_start l + 1 + k) (logged l k a)"

lemma logged_use [simp]: "ar (logged l k a) = ar a" "ah (logged l k a) = ah a"
  by (induction k) simp_all

lemma logged_eq:
  assumes f: "log_fits l" and k: "k \<le> lh_len (lh l)"
  shows "av (logged l k a) = play (log_writes l (av a) k) (av a) \<and> ad (logged l k a) = play (log_writes l (av a) k) (ad a) \<and>
    atr (logged l k a) = atr a @ log_writes l (av a) k"
  using k
proof (induction k)
  case (Suc k)
  have "play (log_writes l (av a) k) (av a) (blocknos (lh l) ! k) = av a (blocknos (lh l) ! k)"
    using play_log_home [OF f, of k k] Suc.prems by simp
  then show ?case using Suc by (simp add: writes_Suc)
qed simp

lemma write_log_view:
  assumes v: "view (l_dev (wal s)) s a" and r: "log_ready (wal s) a"
  shows "\<exists>s'. write_log s = Ret ((), s') \<and> same s s' \<and> view (l_dev (wal s)) s' (logged (wal s) (lh_len (lh (wal s))) a)"
proof -
  let ?l = "wal s" and ?d = "l_dev (wal s)"
  let ?I = "\<lambda>j t. same s t \<and> view ?d t (logged ?l j a)"
  have body: "runs (?I j) (write_log_one j) (\<lambda>r t. r = None \<and> ?I (Suc j) t)" if j: "j < lh_len (lh ?l)" for j
  proof (rule runsI)
    fix t :: "'a fsdev_scheme" assume t: "?I j t"
    have w: "wal t = ?l" using t same_wal by blast
    have pin: "0 < ar (logged ?l j a) (blocknos (lh ?l) ! j)"
      using log_readyD(4,6,7) [OF r] j by (metis logged_use(1) nth_mem)
    have "cache_quiet (logged ?l j a)" using log_readyD(10) [OF r] by (simp add: cache_quiet_def)
    then have "copy_pre ?l j (logged ?l j a)" using copy_preI [OF ready_fits [OF r] j] pin by blast
    from write_log_one_view [of t "logged ?l j a" j] this pin t show "\<exists>x t'. write_log_one j t = Ret (x, t') \<and> x = None \<and> ?I (Suc j) t'"
      unfolding w by (auto intro: same_trans)
  qed
  have "runs (?I 0) (forp 0 (lh_len (lh ?l)) write_log_one) (\<lambda>r t. r = None \<and> ?I (0 + lh_len (lh ?l)) t)"
    by (rule runs_for, rule body) simp
  from runsD [OF this, of s] v show ?thesis by (auto simp: write_log_def prog_run)
qed

subsection \<open>Installing the transaction\<close>

primrec installed :: "bool \<Rightarrow> log \<Rightarrow> nat \<Rightarrow> acache \<Rightarrow> acache" where
  "installed rc l 0 a = a"
| "installed rc l (Suc k) a = (let b = blocknos (lh l) ! k; a' = installed rc l k a in
     (if rc then (\<lambda>x. x) else chg b (ar a' b - 1)) (cp (l_start l + 1 + k) b a'))"

lemma installed_eq:
  assumes f: "log_fits l" and k: "k \<le> lh_len (lh l)"
  shows "av (installed rc l k a) = play (home_writes l (av a) k) (av a) \<and> ad (installed rc l k a) = play (home_writes l (av a) k) (ad a) \<and>
    atr (installed rc l k a) = atr a @ home_writes l (av a) k \<and> ah (installed rc l k a) = ah a"
  using k
proof (induction k)
  case (Suc k)
  have "play (home_writes l (av a) k) (av a) (l_start l + 1 + k) = av a (l_start l + 1 + k)"
    using play_home_log [OF f, of k "l_start l + 1 + k"] Suc.prems by simp
  then show ?case using Suc by (cases rc) (simp_all add: writes_Suc Let_def)
qed simp

lemma installed_ar:
  "ar (installed True l k a) = ar a"
  "distinct (take k (blocknos (lh l))) \<Longrightarrow> k \<le> length (blocknos (lh l)) \<Longrightarrow>
    ar (installed False l k a) x = (if x \<in> set (take k (blocknos (lh l))) then ar a x - 1 else ar a x)"
proof -
  show "ar (installed True l k a) = ar a" by (induction k) (simp_all add: Let_def)
  show "distinct (take k (blocknos (lh l))) \<Longrightarrow> k \<le> length (blocknos (lh l)) \<Longrightarrow>
    ar (installed False l k a) x = (if x \<in> set (take k (blocknos (lh l))) then ar a x - 1 else ar a x)"
  proof (induction k)
    case (Suc k)
    have e: "take (Suc k) (blocknos (lh l)) = take k (blocknos (lh l)) @ [blocknos (lh l) ! k]"
      using Suc.prems(2) by (simp add: take_Suc_conv_app_nth)
    then have "distinct (take k (blocknos (lh l)))" "blocknos (lh l) ! k \<notin> set (take k (blocknos (lh l)))" using Suc.prems(1) by auto
    then show ?case using Suc e by (auto simp: Let_def)
  qed simp
qed

lemma install_trans_view:
  assumes v: "view (l_dev (wal s)) s a" and f: "log_fits (wal s)"
    and cl: "\<forall>b. l_start (wal s) \<le> b \<longrightarrow> b \<le> l_start (wal s) + lh_len (lh (wal s)) \<longrightarrow> av a b = ad a b"
    and st: "\<And>j. j < lh_len (lh (wal s)) \<Longrightarrow> cache_quiet (installed rc (wal s) j a) \<and>
      (if rc then card {x. 0 < ar (installed rc (wal s) j a) x} + 1 < NBUF else 0 < ar (installed rc (wal s) j a) (blocknos (lh (wal s)) ! j))"
  shows "\<exists>s'. install_trans rc s = Ret ((), s') \<and> same s s' \<and> view (l_dev (wal s)) s' (installed rc (wal s) (lh_len (lh (wal s))) a)"
proof -
  let ?l = "wal s" and ?d = "l_dev (wal s)"
  let ?I = "\<lambda>j t. same s t \<and> view ?d t (installed rc ?l j a)"
  have body: "runs (?I j) (install_one rc j) (\<lambda>r t. r = None \<and> ?I (Suc j) t)" if j: "j < lh_len (lh ?l)" for j
  proof (rule runsI)
    fix t :: "'a fsdev_scheme" assume t: "?I j t"
    have w: "wal t = ?l" using t same_wal by blast
    let ?a = "installed rc ?l j a"
    have pre: "copy_pre ?l j ?a" using copy_preI [OF f j] st [OF j] by (auto split: if_splits)
    have "av ?a (l_start ?l + 1 + j) = ad ?a (l_start ?l + 1 + j)"
      using installed_eq [OF f, of j rc a] play_home_log [OF f, of j "l_start ?l + 1 + j"] cl j by simp
    moreover have "\<not> rc \<Longrightarrow> 0 < ar ?a (blocknos (lh ?l) ! j)" using st [OF j] by simp
    ultimately show "\<exists>x t'. install_one rc j t = Ret (x, t') \<and> x = None \<and> ?I (Suc j) t'"
      using install_one_view [of t ?a j rc] pre t unfolding w by (auto simp: Let_def intro: same_trans)
  qed
  have "runs (?I 0) (forp 0 (lh_len (lh ?l)) (install_one rc)) (\<lambda>r t. r = None \<and> ?I (0 + lh_len (lh ?l)) t)"
    by (rule runs_for, rule body) simp
  from runsD [OF this, of s] v show ?thesis by (auto simp: install_trans_def prog_run)
qed

subsection \<open>Commit\<close>

text \<open>The writes of a commit, in order: the log, its header, the blocks at home, the empty header.\<close>

definition commit_writes :: "log \<Rightarrow> (nat \<Rightarrow> block) \<Rightarrow> (nat \<times> block) list" where
  "commit_writes l V = (let H = put_header (lh l) (V (l_start l)) in
     log_writes l V (lh_len (lh l)) @ [(l_start l, H)] @ map (\<lambda>b. (b, V b)) (txn_blocks l) @ [(l_start l, wr32 H 0 0)])"

lemma home_writes_logged:
  assumes "log_ready l a" "V = (play (log_writes l W (lh_len (lh l))) E)(l_start l := H)"
  shows "home_writes l V (lh_len (lh l)) = map (\<lambda>b. (b, W b)) (txn_blocks l)"
proof (rule nth_equalityI)
  show "length (home_writes l V (lh_len (lh l))) = length (map (\<lambda>b. (b, W b)) (txn_blocks l))"
    using log_readyD(4) [OF assms(1)] by simp
  fix i assume "i < length (home_writes l V (lh_len (lh l)))"
  then have i: "i < lh_len (lh l)" by simp
  then show "home_writes l V (lh_len (lh l)) ! i = map (\<lambda>b. (b, W b)) (txn_blocks l) ! i"
    using log_readyD(4) [OF assms(1)] log_readyD(6) [OF assms(1) i] play_log_at [OF i, of l W E]
    by (simp add: home_writes_def assms(2))
qed

text \<open>Installing takes back the pins one by one, so the cache stays within its bounds.\<close>

lemma installed_pins:
  assumes r: "log_ready l a" and e: "ar b = ar a" and j: "j \<le> lh_len (lh l)"
  shows "ar (installed False l j b) x = (if x \<in> set (take j (blocknos (lh l))) then ar a x - 1 else ar a x)"
    and "j < lh_len (lh l) \<Longrightarrow> 0 < ar (installed False l j b) (blocknos (lh l) ! j)"
proof -
  have d: "distinct (take j (blocknos (lh l)))"
    using log_readyD(5) [OF r] j by (metis distinct_take min.absorb1 take_take txn_blocks_def)
  show ar: "ar (installed False l j b) x = (if x \<in> set (take j (blocknos (lh l))) then ar a x - 1 else ar a x)" for x
    using installed_ar(2) [OF d, of b x] j log_readyD(3) [OF r] by (simp add: e)
  assume n: "j < lh_len (lh l)"
  have "blocknos (lh l) ! j \<notin> set (take j (blocknos (lh l)))"
  proof
    assume "blocknos (lh l) ! j \<in> set (take j (blocknos (lh l)))"
    then obtain i where "i < j" "blocknos (lh l) ! i = blocknos (lh l) ! j"
      using n log_readyD(3) [OF r] by (auto simp: in_set_conv_nth)
    then show False using log_readyD(4-6) [OF r] n by (metis less_trans nth_eq_iff_index_eq less_irrefl)
  qed
  then show "0 < ar (installed False l j b) (blocknos (lh l) ! j)" using ar log_readyD(4,6,7) [OF r] n by (metis nth_mem)
qed

lemma installed_quiet:
  assumes r: "log_ready l a" and e: "ar b = ar a" "ah b = ah a" and j: "j \<le> lh_len (lh l)" and f: "finite {x. 0 < ar a x}"
  shows "cache_quiet (installed False l j b)"
proof -
  have q: "\<And>x. \<not> ah a x" "\<And>x. ar a x + 1 < usize_lim" "card {x. 0 < ar a x} < NBUF"
    using log_readyD(10) [OF r] by (auto simp: cache_quiet_def)
  have le: "ar (installed False l j b) x \<le> ar a x" for x using installed_pins(1) [OF r e(1) j] by simp
  have "card {x. 0 < ar (installed False l j b) x} \<le> card {x. 0 < ar a x}"
    by (rule card_mono [OF f]) (use le in \<open>auto intro: less_le_trans\<close>)
  then have "card {x. 0 < ar (installed False l j b) x} < NBUF" using q(3) by simp
  moreover have "ar (installed False l j b) x + 1 < usize_lim" for x using le [of x] q(2) [of x] by simp
  moreover have "\<not> ah (installed False l j b) x" for x using installed_eq [OF ready_fits [OF r] j, of False b] q(1) e(2) by simp
  ultimately show ?thesis unfolding cache_quiet_def by blast
qed

lemma view_finite: "view d s a \<Longrightarrow> finite {x. 0 < ar a x}"
  using used_finite by (auto simp: view_def)

text \<open>The cache after the log and its header are written, and after the blocks are installed.\<close>

definition headed :: "log \<Rightarrow> acache \<Rightarrow> acache" where
  "headed l a = wrv (l_start l) (put_header (lh l) (av a (l_start l))) (logged l (lh_len (lh l)) a)"

lemma headed_eq:
  assumes r: "log_ready l a"
  shows "av (headed l a) = (play (log_writes l (av a) (lh_len (lh l))) (av a))(l_start l := put_header (lh l) (av a (l_start l)))"
    "ad (headed l a) = (play (log_writes l (av a) (lh_len (lh l))) (ad a))(l_start l := put_header (lh l) (av a (l_start l)))"
    "atr (headed l a) = atr a @ log_writes l (av a) (lh_len (lh l)) @ [(l_start l, put_header (lh l) (av a (l_start l)))]"
    "ar (headed l a) = ar a" "ah (headed l a) = ah a"
  using logged_eq [OF ready_fits [OF r], of "lh_len (lh l)" a] by (simp_all add: headed_def)

lemma head_view:
  assumes v: "view (l_dev (wal s)) s a" and r: "log_ready (wal s) a"
  shows "\<exists>s'. thenp write_log write_head s = Ret ((), s') \<and> same s s' \<and> view (l_dev (wal s)) s' (headed (wal s) a)"
proof -
  let ?l = "wal s" and ?d = "l_dev (wal s)"
  let ?a = "logged ?l (lh_len (lh ?l)) a"
  obtain s1 where s1: "write_log s = Ret ((), s1)" "same s s1" "view ?d s1 ?a"
    using write_log_view [OF v r] by blast
  have q: "cache_quiet ?a" using log_readyD(10) [OF r] by (simp add: cache_quiet_def)
  have st: "av ?a (l_start ?l) = av a (l_start ?l)"
    using logged_eq [OF ready_fits [OF r], of "lh_len (lh ?l)" a] by (simp add: play_out writes_keys)
  obtain s2 where s2: "write_head s1 = Ret ((), s2)" "same s1 s2" "view ?d s2 (headed ?l a)"
    using write_head_view [of s1 ?a] s1(3) q quiet_room [OF q] unfolding same_wal [OF s1(2)] st headed_def
    by (auto simp: cache_quiet_def)
  then show ?thesis using s1(1) same_trans [OF s1(2) s2(2)] by (auto simp: thenp_def bindp_def)
qed

lemma install_head_view:
  assumes v: "view (l_dev (wal s)) s (headed (wal s) a)" and r: "log_ready (wal s) a"
  shows "\<exists>s'. thenp (install_trans False) empty_head s = Ret ((), s') \<and> same (s\<lparr>wal := (wal s)\<lparr>lh := (lh (wal s))\<lparr>lh_len := 0\<rparr>\<rparr>\<rparr>) s' \<and>
    view (l_dev (wal s)) s' (wrv (l_start (wal s)) (wr32 (put_header (lh (wal s)) (av a (l_start (wal s)))) 0 0)
      (installed False (wal s) (lh_len (lh (wal s))) (headed (wal s) a)))"
proof -
  let ?l = "wal s" and ?d = "l_dev (wal s)" and ?n = "lh_len (lh (wal s))" and ?st = "l_start (wal s)" and ?a = "headed (wal s) a"
  note f = ready_fits [OF r] and h = headed_eq [OF r]
  have fin: "finite {x. 0 < ar a x}" using view_finite [OF v] h(4) by simp
  have cl: "\<forall>b. ?st \<le> b \<longrightarrow> b \<le> ?st + ?n \<longrightarrow> av ?a b = ad ?a b"
    using log_readyD(8) [OF r] h(4) view_clean [OF v] by auto
  obtain s1 where s1: "install_trans False s = Ret ((), s1)" "same s s1" "view ?d s1 (installed False ?l ?n ?a)"
    using install_trans_view [OF v f cl, of False] installed_quiet [OF r h(4,5) _ fin] installed_pins(2) [OF r h(4)] by auto
  have st: "av (installed False ?l ?n ?a) ?st = put_header (lh ?l) (av a ?st)"
    using installed_eq [OF f, of ?n False ?a] play_home_log [OF f, of ?n ?st] h(1) by simp
  have q: "cache_quiet (installed False ?l ?n ?a)" by (rule installed_quiet [OF r h(4,5) _ fin]) simp
  note w = same_wal [OF s1(2)]
  obtain s2 where s2: "empty_head s1 = Ret ((), s2)" "same (s1\<lparr>wal := ?l\<lparr>lh := (lh ?l)\<lparr>lh_len := 0\<rparr>\<rparr>\<rparr>) s2"
    "view ?d s2 (wrv ?st (wr32 (put_header (lh ?l) (av a ?st)) 0 0) (installed False ?l ?n ?a))"
    using empty_head_view [of s1 "installed False ?l ?n ?a"] s1(3) q quiet_room [OF q] unfolding w st by (auto simp: cache_quiet_def)
  have "same (s\<lparr>wal := ?l\<lparr>lh := (lh ?l)\<lparr>lh_len := 0\<rparr>\<rparr>\<rparr>) (s1\<lparr>wal := ?l\<lparr>lh := (lh ?l)\<lparr>lh_len := 0\<rparr>\<rparr>\<rparr>)"
    using s1(2) by (cases s; cases s1) (simp add: same_def)
  from same_trans [OF this s2(2)] show ?thesis using s1(1) s2(1,3) by (auto simp: thenp_def bindp_def)
qed

lemma commit_view:
  assumes v: "view (l_dev (wal s)) s a" and r: "log_ready (wal s) a" and c: "committing (wal s)" and n: "0 < lh_len (lh (wal s))"
  shows "\<exists>s' a'. commit s = Ret ((), s') \<and> same (s\<lparr>wal := (wal s)\<lparr>lh := (lh (wal s))\<lparr>lh_len := 0\<rparr>\<rparr>\<rparr>) s' \<and> view (l_dev (wal s)) s' a' \<and>
    av a' = play (commit_writes (wal s) (av a)) (av a) \<and> ad a' = play (commit_writes (wal s) (av a)) (ad a) \<and>
    atr a' = atr a @ commit_writes (wal s) (av a) \<and> ah a' = ah a \<and>
    ar a' = (\<lambda>x. if x \<in> set (txn_blocks (wal s)) then ar a x - 1 else ar a x)"
proof -
  let ?l = "wal s" and ?d = "l_dev (wal s)" and ?n = "lh_len (lh (wal s))" and ?st = "l_start (wal s)"
  let ?a = "headed ?l a" and ?H = "put_header (lh ?l) (av a ?st)"
  note h = headed_eq [OF r]
  obtain s1 where s1: "thenp write_log write_head s = Ret ((), s1)" "same s s1" "view ?d s1 ?a"
    using head_view [OF v r] by blast
  note w = same_wal [OF s1(2)]
  let ?a' = "wrv ?st (wr32 ?H 0 0) (installed False ?l ?n ?a)"
  obtain s2 where s2: "thenp (install_trans False) empty_head s1 = Ret ((), s2)"
    "same (s1\<lparr>wal := ?l\<lparr>lh := (lh ?l)\<lparr>lh_len := 0\<rparr>\<rparr>\<rparr>) s2" "view ?d s2 ?a'"
    using install_head_view [of s1 a] s1(3) r unfolding w by blast
  have "same (s\<lparr>wal := ?l\<lparr>lh := (lh ?l)\<lparr>lh_len := 0\<rparr>\<rparr>\<rparr>) (s1\<lparr>wal := ?l\<lparr>lh := (lh ?l)\<lparr>lh_len := 0\<rparr>\<rparr>\<rparr>)"
    using s1(2) by (cases s; cases s1) (simp add: same_def)
  note sm = same_trans [OF this s2(2)]
  have "commit s = bindp (thenp write_log write_head) (\<lambda>_. thenp (install_trans False) empty_head) s"
    using c n by (simp add: commit_def bindp_def getp_def thenp_def split: outcome.splits)
  then have run: "commit s = Ret ((), s2)" using s1(1) s2(1) by (simp add: bindp_def)
  have "ar (installed False ?l ?n ?a) = (\<lambda>x. if x \<in> set (txn_blocks ?l) then ar a x - 1 else ar a x)"
    using installed_pins(1) [OF r h(4), of ?n] by (auto simp: txn_blocks_def)
  then show ?thesis
    using run sm s2(3) installed_eq [OF ready_fits [OF r], of ?n False ?a] h
    by (intro exI [of _ s2] exI [of _ ?a']) (simp add: commit_writes_def Let_def home_writes_logged [OF r refl])
qed

subsection \<open>Recovery\<close>

definition rec_writes :: "nat \<Rightarrow> (nat \<Rightarrow> block) \<Rightarrow> (nat \<times> block) list" where
  "rec_writes st D = (let h = header_of (D st) in
     if lh_len h = 0 then []
     else map (\<lambda>i. (blocknos h ! i, D (st + 1 + i))) [0..<lh_len h] @ [(st, wr32 (D st) 0 0)])"

definition rec_fits :: "nat \<Rightarrow> (nat \<Rightarrow> block) \<Rightarrow> bool" where
  "rec_fits st D \<longleftrightarrow> log_fits (log_uninit\<lparr>l_start := st, lh := header_of (D st)\<rparr>)"

lemma log_fits_cong: "l_start l = l_start m \<Longrightarrow> lh l = lh m \<Longrightarrow> log_fits l = log_fits m"
  by (simp add: log_fits_def log_area_def)

lemma recover_view:
  assumes v: "view (l_dev (wal s)) s a" and z: "\<forall>x. ar a x = 0 \<and> \<not> ah a x" and f: "rec_fits (l_start (wal s)) (ad a)"
  shows "\<exists>s' a'. recover s = Ret ((), s') \<and> view (l_dev (wal s)) s' a' \<and> ad a' = play (rec_writes (l_start (wal s)) (ad a)) (ad a) \<and>
    atr a' = atr a @ rec_writes (l_start (wal s)) (ad a) \<and> ar a' = ar a \<and> ah a' = ah a \<and> lh_len (lh (wal s')) = 0"
proof -
  let ?d = "l_dev (wal s)" and ?st = "l_start (wal s)" and ?h = "header_of (ad a (l_start (wal s)))"
  let ?l = "(wal s)\<lparr>lh := ?h\<rparr>"
  have e: "av a = ad a" using view_clean [OF v] z by auto
  have q: "cache_quiet a" using z by (simp add: cache_quiet_def fs_defs usize_lim_def)
  obtain s1 where s1: "read_head s = Ret ((), s1)" "same (s\<lparr>wal := ?l\<rparr>) s1" "view ?d s1 a"
    using read_head_view [OF v] z quiet_room [OF q] e by auto
  have w: "wal s1 = ?l" using same_wal [OF s1(2)] by simp
  show ?thesis
  proof (cases "lh_len ?h = 0")
    case True
    then show ?thesis using s1 w by (intro exI [of _ s1] exI [of _ a]) (simp add: recover_def rec_writes_def prog_run)
  next
    case False
    have fl: "log_fits ?l" using f log_fits_cong [of ?l "log_uninit\<lparr>l_start := ?st, lh := ?h\<rparr>"] by (simp add: rec_fits_def)
    let ?n = "lh_len ?h"
    let ?a2 = "installed True ?l ?n a"
    have us: "ar (installed True ?l j a) = ar a" for j by (rule installed_ar)
    have ah: "ah (installed True ?l j a) = ah a" if "j \<le> ?n" for j using installed_eq [OF fl, of j True a] that by simp
    have qj: "cache_quiet (installed True ?l j a)" if "j \<le> ?n" for j using q us ah [OF that] by (simp add: cache_quiet_def)
    have c1: "card {x. 0 < ar a x} + 1 < NBUF" using z by (simp add: fs_defs)
    have "\<exists>s'. install_trans True s1 = Ret ((), s') \<and> same s1 s' \<and> view (l_dev (wal s1)) s' (installed True (wal s1) (lh_len (lh (wal s1))) a)"
      by (rule install_trans_view) (use s1(3) fl e qj c1 us in \<open>simp_all add: w\<close>)
    then obtain s2 where s2: "install_trans True s1 = Ret ((), s2)" "same s1 s2" "view ?d s2 ?a2" using w by auto
    have w2: "wal s2 = ?l" using same_wal [OF s2(2)] w by simp
    have st: "av ?a2 ?st = ad a ?st" using installed_eq [OF fl, of ?n True a] play_home_log [OF fl, of ?n ?st] e by simp
    have q2: "cache_quiet ?a2" by (rule qj) simp
    obtain s3 where s3: "empty_head s2 = Ret ((), s3)" "same (s2\<lparr>wal := ?l\<lparr>lh := ?h\<lparr>lh_len := 0\<rparr>\<rparr>\<rparr>) s3"
      "view ?d s3 (wrv ?st (wr32 (ad a ?st) 0 0) ?a2)"
      using empty_head_view [of s2 ?a2] s2(3) q2 quiet_room [OF q2] st unfolding w2 by (auto simp: cache_quiet_def)
    have "wal s3 = ?l\<lparr>lh := ?h\<lparr>lh_len := 0\<rparr>\<rparr>" using same_wal [OF s3(2)] by simp
    then show ?thesis
      using False s1(1) s2(1) s3(1,3) w installed_eq [OF fl, of ?n True a] us ah e
      by (intro exI [of _ s3] exI [of _ "wrv ?st (wr32 (ad a ?st) 0 0) ?a2"])
        (simp add: recover_def rec_writes_def prog_run home_writes_def Let_def)
  qed
qed

subsection \<open>Crashes\<close>

lemma rec_empty: "lh_len (header_of (D st)) = 0 \<Longrightarrow> st < u32_lim \<Longrightarrow> rec_writes st D = [] \<and> rec_fits st D"
  by (simp add: rec_writes_def rec_fits_def log_fits_def)

text \<open>A crash in recovery: after any prefix of its writes, recovery has the same result.\<close>

lemma rec_writes_again:
  assumes "rec_fits st D" "k \<le> length (rec_writes st D)" "length (D st) = BSIZE"
  shows "play (rec_writes st (play (take k (rec_writes st D)) D)) (play (take k (rec_writes st D)) D) = play (rec_writes st D) D"
    and "rec_fits st (play (take k (rec_writes st D)) D)"
proof -
  let ?h = "header_of (D st)" and ?ws = "rec_writes st D" and ?D = "play (take k (rec_writes st D)) D"
  let ?l = "log_uninit\<lparr>l_start := st, lh := ?h\<rparr>"
  have f: "log_fits ?l" using assms(1) by (simp add: rec_fits_def)
  have "play (rec_writes st ?D) ?D = play ?ws D \<and> rec_fits st ?D"
  proof (cases "lh_len ?h = 0")
    case False
    then have w: "?ws = home_writes ?l D (lh_len ?h) @ [(st, wr32 (D st) 0 0)]" by (simp add: rec_writes_def home_writes_def Let_def)
    show ?thesis
    proof (cases "k \<le> lh_len ?h")
      case True
      then have D: "?D = play (home_writes ?l D k) D" unfolding w by (simp add: take_writes)
      have "?D x = D x" if "st \<le> x" "x \<le> st + lh_len ?h" for x
        using play_home_log [OF f, of k x D D] True that unfolding D by simp
      then have "rec_writes st ?D = ?ws" "rec_fits st ?D" using assms(1) by (auto simp: rec_writes_def rec_fits_def Let_def)
      moreover have "play ?ws ?D = play ?ws D" by (rule play_again) (auto dest: in_set_takeD)
      ultimately show ?thesis by simp
    next
      case False
      then have t: "take k ?ws = ?ws" using assms(2) w by simp
      have "?D st = wr32 (D st) 0 0" unfolding t by (simp add: w)
      then have "lh_len (header_of (?D st)) = 0" using header_empty [OF assms(3)] by simp
      moreover have "st < u32_lim" using f by (simp add: log_fits_def)
      ultimately show ?thesis using rec_empty [of ?D st] by (simp add: t)
    qed
  qed (use assms(1) in \<open>simp_all add: rec_writes_def\<close>)
  then show "play (rec_writes st ?D) ?D = play ?ws D" "rec_fits st ?D" by auto
qed

text \<open>A crash in a commit: before the header is written the old blocks remain, afterwards the new ones.\<close>

lemma play_self: "play (map (\<lambda>b. (b, V b)) bs) D x = (if x \<in> set bs then V x else D x)"
  by (induction bs arbitrary: D) auto

definition new_disk :: "log \<Rightarrow> (nat \<Rightarrow> block) \<Rightarrow> (nat \<Rightarrow> block) \<Rightarrow> nat \<Rightarrow> block" where
  "new_disk l V D x = (if x \<in> set (txn_blocks l) then V x else D x)"

lemma crash_headed:
  assumes r: "log_ready l a" and V: "length (V (l_start l)) = BSIZE" and p: "0 < lh_len (lh l)"
    and E: "E = play (map (\<lambda>b. (b, V b)) (take j (txn_blocks l)))
      ((play (log_writes l V (lh_len (lh l))) D)(l_start l := put_header (lh l) (V (l_start l))))"
  shows "rec_fits (l_start l) E" "x \<notin> log_area l \<Longrightarrow> play (rec_writes (l_start l) E) E x = new_disk l V D x"
    "lh_len (header_of (play (rec_writes (l_start l) E) E (l_start l))) = 0"
proof -
  let ?n = "lh_len (lh l)" and ?st = "l_start l" and ?bs = "txn_blocks l" and ?H = "put_header (lh l) (V (l_start l))"
  note f = ready_fits [OF r] and h = header_round [OF log_readyD(1) [OF r] V]
  have out: "b \<notin> set ?bs" if "?st \<le> b" "b \<le> ?st + ?n" for b using log_readyD(7) [OF r, of b] that by auto
  have tk: "b \<notin> set (take j ?bs)" if "?st \<le> b" "b \<le> ?st + ?n" for b using out [OF that] by (blast dest: in_set_takeD)
  have st: "E ?st = ?H" using tk [of ?st] by (simp add: E play_self)
  have lg: "E (?st + 1 + i) = V (?bs ! i)" if "i < ?n" for i
    using tk [of "?st + 1 + i"] that play_log_at [OF that, of l V D] log_readyD(6) [OF r that] by (simp add: E play_self)
  have w: "rec_writes ?st E = map (\<lambda>b. (b, V b)) ?bs @ [(?st, wr32 ?H 0 0)]"
    using p st h(1) log_readyD(4) [OF r] log_readyD(6) [OF r] lg
    by (simp add: rec_writes_def Let_def) (rule nth_equalityI; simp)
  show "rec_fits ?st E" unfolding rec_fits_def st h(1)
    using f log_fits_cong [of l "log_uninit\<lparr>l_start := ?st, lh := lh l\<rparr>"] by simp
  show "lh_len (header_of (play (rec_writes ?st E) E ?st)) = 0" using header_empty [OF h(2)] by (simp add: w)
  assume x: "x \<notin> log_area l"
  then have "x \<noteq> ?st" "x \<notin> fst ` set (log_writes l V ?n)" by (auto simp: log_area_def writes_keys)
  then have "x \<notin> set ?bs \<Longrightarrow> E x = D x" by (auto simp: E play_self play_out dest: in_set_takeD)
  then show "play (rec_writes ?st E) E x = new_disk l V D x" using \<open>x \<noteq> ?st\<close> by (simp add: w play_self new_disk_def)
qed

lemma commit_crash:
  assumes r: "log_ready l a" and V: "length (V (l_start l)) = BSIZE" and p: "0 < lh_len (lh l)"
    and D: "lh_len (header_of (D (l_start l))) = 0" and k: "k \<le> length (commit_writes l V)"
    and E: "E = play (take k (commit_writes l V)) D"
  shows "rec_fits (l_start l) E \<and> lh_len (header_of (play (rec_writes (l_start l) E) E (l_start l))) = 0 \<and>
    (\<forall>x. x \<notin> log_area l \<longrightarrow> play (rec_writes (l_start l) E) E x = (if k \<le> lh_len (lh l) then D x else new_disk l V D x))"
proof -
  let ?n = "lh_len (lh l)" and ?st = "l_start l" and ?bs = "txn_blocks l" and ?H = "put_header (lh l) (V (l_start l))"
  have u: "?st < u32_lim" using log_readyD(9) [OF r] by simp
  have n: "length ?bs = ?n" by (rule log_readyD(4) [OF r])
  have "k \<le> ?n + 1 + ?n + 1" using k n by (simp add: commit_writes_def Let_def)
  then consider "k \<le> ?n" | "?n < k" "k - ?n - 1 \<le> ?n" | "k = ?n + 1 + ?n + 1" by linarith
  then show ?thesis
  proof cases
    case 1
    then have e: "E = play (log_writes l V k) D" by (simp add: E commit_writes_def Let_def take_writes)
    have "E x = D x" if "x = ?st \<or> x \<notin> log_area l" for x
      unfolding e by (rule play_out) (use that 1 in \<open>auto simp: writes_keys log_area_def\<close>)
    then show ?thesis using rec_empty [of E ?st] D u 1 by simp
  next
    case 2
    have "take k (commit_writes l V) = log_writes l V ?n @ [(?st, ?H)] @ take (k - ?n - 1) (map (\<lambda>b. (b, V b)) ?bs)"
      using 2 n by (cases "k - ?n") (simp_all add: commit_writes_def Let_def)
    then have e: "E = play (map (\<lambda>b. (b, V b)) (take (k - ?n - 1) ?bs)) ((play (log_writes l V ?n) D)(?st := ?H))"
      by (simp add: E take_map)
    show ?thesis using crash_headed [OF r V p e] 2 by simp
  next
    case 3
    have e: "E = (play (map (\<lambda>b. (b, V b)) ?bs) ((play (log_writes l V ?n) D)(?st := ?H)))(?st := wr32 ?H 0 0)"
      using 3 n by (simp add: E commit_writes_def Let_def)
    have "lh_len (header_of (E ?st)) = 0" using header_empty [OF header_round(2) [OF log_readyD(1) [OF r] V]] by (simp add: e)
    moreover have "E x = new_disk l V D x" if "x \<notin> log_area l" for x
      using that by (auto simp: e play_self new_disk_def log_area_def writes_keys play_out)
    ultimately show ?thesis using rec_empty [of E ?st] u 3 by simp
  qed
qed

subsection \<open>Adding a block to the transaction\<close>

text \<open>The transaction so far: its blocks are different, outside the log, and each has a pin of its own.\<close>

definition txn_inv :: "log \<Rightarrow> acache \<Rightarrow> bool" where
  "txn_inv l a \<longleftrightarrow> header_ok (lh l) \<and> lh_len (lh l) < LOGSIZE \<and> l_start l + LOGSIZE < u32_lim \<and> distinct (txn_blocks l) \<and>
     (\<forall>b \<in> set (txn_blocks l). (b < l_start l \<or> l_start l + LOGSIZE \<le> b) \<and> (if ah a b then 1 else 0) < ar a b)"

lemma txn_snoc:
  assumes "txn_inv l a" "lh_len (lh l) < LOGSIZE - 1" "lh m = \<lparr>lh_len = lh_len (lh l) + 1, blocknos = (blocknos (lh l))[lh_len (lh l) := b]\<rparr>"
  shows "txn_blocks m = txn_blocks l @ [b]"
  using assms by (auto simp: txn_inv_def header_ok_def txn_blocks_def take_Suc_conv_app_nth)

lemma txn_ready:
  assumes t: "txn_inv l a" and q: "cache_quiet a" and z: "\<forall>b \<in> log_area l. ar a b = 0"
  shows "log_ready l a"
proof -
  have "b < l_start l \<or> l_start l + LOGSIZE \<le> b" "0 < ar a b" if "b \<in> set (txn_blocks l)" for b
    using t that by (auto simp: txn_inv_def)
  moreover have "lh_len (lh l) < LOGSIZE" using t by (simp add: txn_inv_def)
  ultimately have "set (txn_blocks l) \<inter> log_area l = {}" by (fastforce simp: log_area_def)
  then show ?thesis using t q z by (auto simp: txn_inv_def log_ready_def)
qed

lemma header_ok_snoc:
  "header_ok h \<Longrightarrow> lh_len h < LOGSIZE - 1 \<Longrightarrow> b < u32_lim \<Longrightarrow> header_ok \<lparr>lh_len = lh_len h + 1, blocknos = (blocknos h)[lh_len h := b]\<rparr>"
  by (auto simp: header_ok_def fs_defs u32_lim_def dest!: set_update_subset_insert [THEN subsetD])

lemma log_write_view:
  assumes v: "view d s a" and h: "ah a b" "0 < ar a b" "ar a b + 1 < usize_lim"
    and t: "txn_inv (wal s) a" and o: "1 \<le> outstanding (wal s)"
    and n: "lh_len (lh (wal s)) + 2 < LOGSIZE" "lh_len (lh (wal s)) + 2 < l_size (wal s)"
    and b: "b < u32_lim" "b < l_start (wal s) \<or> l_start (wal s) + LOGSIZE \<le> b"
  shows "\<exists>s' a'. log_write (hb d s b) s = Ret ((), s') \<and> view d s' a' \<and> txn_inv (wal s') a' \<and>
    txn_blocks (wal s') = (if b \<in> set (txn_blocks (wal s)) then txn_blocks (wal s) else txn_blocks (wal s) @ [b]) \<and>
    (\<exists>g. wal s' = (wal s)\<lparr>lh := g\<rparr>) \<and>
    a' = a\<lparr>ar := (ar a)(b := if b \<in> set (txn_blocks (wal s)) then ar a b - 1 else ar a b), ah := (ah a)(b := False)\<rparr>"
proof -
  let ?l = "wal s" and ?n = "lh_len (lh (wal s))" and ?bs = "blocknos (lh (wal s))"
  have add: "add32 ?n 1 = Ret (?n + 1)" "add32 ?n 2 = Ret (?n + 2)" using n(1) by (auto simp: add32_def fs_defs u32_lim_def)
  have pre: "log_write (hb d s b) s = (if b \<in> set (txn_blocks ?l) then drop_bufp (hb d s b) s
    else thenp (pinp (hb d s b)) (thenp (set_lh \<lparr>lh_len = ?n + 1, blocknos = ?bs[?n := b]\<rparr>) (drop_bufp (hb d s b))) s)"
    using add n o by (simp add: log_write_def getp_def bindp_def liftp_def chnd_def txn_blocks_def Let_def)
  show ?thesis
  proof (cases "b \<in> set (txn_blocks ?l)")
    case True
    then have "1 < ar a b" using t h(1) by (auto simp: txn_inv_def)
    then obtain s' where s': "drop_bufp (hb d s b) s = Ret ((), s')" "view d s' (unuse1 b a)" "same s s'"
      using drop_bufp_view [OF v h(1)] by blast
    have "txn_inv ?l (unuse1 b a)" using t h(1) unfolding txn_inv_def unuse1_def by auto
    then show ?thesis using s' same_wal [OF s'(3)] pre True
      by (intro exI [of _ s'] exI [of _ "unuse1 b a"]) (auto simp: unuse1_def intro: exI [of _ "lh ?l"])
  next
    case False
    let ?g = "\<lparr>lh_len = ?n + 1, blocknos = ?bs[?n := b]\<rparr>"
    let ?m = "?l\<lparr>lh := ?g\<rparr>"
    obtain s1 where s1: "pinp (hb d s b) s = Ret ((), s1)" "view d s1 (chg b (ar a b + 1) a)" "same s s1" "hb d s1 = hb d s"
      using pinp_view [OF v h(2,3)] by blast
    let ?s = "s1\<lparr>wal := ?m\<rparr>"
    have "view d ?s (chg b (ar a b + 1) a)" "ah (chg b (ar a b + 1) a) b" "1 < ar (chg b (ar a b + 1) a) b"
      using s1(2) h(1,2) by simp_all
    then obtain s2 where s2: "drop_bufp (hb d ?s b) ?s = Ret ((), s2)" "view d s2 (unuse1 b (chg b (ar a b + 1) a))" "same ?s s2"
      using drop_bufp_view by blast
    have w: "wal s2 = ?m" using same_wal [OF s2(3)] by simp
    have tb: "txn_blocks ?m = txn_blocks ?l @ [b]" by (rule txn_snoc [OF t]) (use n(1) in simp_all)
    have "header_ok (lh ?m)" using header_ok_snoc [of "lh ?l" b] t n(1) b(1) by (simp add: txn_inv_def)
    then have "txn_inv ?m (unuse1 b (chg b (ar a b + 1) a))"
      using t False n(1) b(2) h(2) unfolding txn_inv_def tb by (auto simp: unuse1_def)
    moreover have "log_write (hb d s b) s = Ret ((), s2)"
      using pre False s1(1,4) s2(1) same_wal [OF s1(3)] by (simp add: thenp_def bindp_def set_lh_def modp_def)
    ultimately show ?thesis using s2(2) w tb False
      by (intro exI [of _ s2] exI [of _ "unuse1 b (chg b (ar a b + 1) a)"]) (auto simp: adefs)
  qed
qed

end
