(* ===== verification/LogProps.thy ===== *)
theory LogProps
  imports LogCommit
begin

text \<open>
  The properties of the log (\<open>fs/log.rs\<close>): a commit is atomic for crashes, recovery can be interrupted
  and repeated, \<open>log_write\<close> keeps the log consistent, the last \<open>end_op\<close> installs the transaction, and the
  bound that \<open>begin_op\<close> reserves. A crash between two writes of blocks leaves the disk as the writes
  before it made it; the cache after it is the one of \<open>binit\<close>.
\<close>

definition booted :: "nat \<Rightarrow> nat \<Rightarrow> (nat \<Rightarrow> block) \<Rightarrow> 'z fsdev_scheme \<Rightarrow> bool" where
  "booted d st D t \<longleftrightarrow> cache t = binit (bcache_new D) \<and> l_dev (wal t) = d \<and> l_start (wal t) = st"

lemma view_disk: "view d s a \<Longrightarrow> disk (cache s) = ad a"
  by (auto simp: view_def cabs_def)

lemma recover_booted:
  assumes t: "booted d st D t" and d: "d \<noteq> 0" and f: "rec_fits st D"
  shows "\<exists>t'. recover t = Ret ((), t') \<and> disk (cache t') = play (rec_writes st D) D \<and> writes (cache t') = rec_writes st D"
proof -
  let ?a = "\<lparr>av = D, ad = D, atr = [], ar = (\<lambda>_. 0), ah = (\<lambda>_. False)\<rparr>"
  have v: "view (l_dev (wal t)) t ?a" using t boot_cache [OF d] boot_view [OF d] by (simp add: view_def booted_def)
  obtain t' a' where "recover t = Ret ((), t')" "view d t' a'" "ad a' = play (rec_writes st D) D" "atr a' = rec_writes st D"
    using recover_view [OF v] f t by (auto simp: booted_def)
  then show ?thesis by (auto simp: view_def cabs_def)
qed

text \<open>C1: Committing is atomic. Let the log be ready (the logged blocks are pinned in the cache, lie
  outside the log, and nobody uses the log), and the header on disk empty. Then \<open>commit\<close> returns, and
  wherever its sequence \<open>ws\<close> of block writes is cut by a crash, \<open>recover\<close> on the freshly booted cache
  returns and leaves every block outside the log either as it was on disk before the commit (up to
  the write of the header) or, for all blocks of the transaction at once, as the transaction left them.\<close>

theorem commit_crash_atomic:
  fixes s :: "'z fsdev_scheme"
  assumes "wal s = l" and "bc_inv (l_dev l) (cache s)" and "l_dev l \<noteq> 0" and "log_ready l (cabs (l_dev l) (cache s))"
    and "committing l" and "0 < lh_len (lh l)"
    and "length (av (cabs (l_dev l) (cache s)) (l_start l)) = BSIZE" and "lh_len (header_of (disk (cache s) (l_start l))) = 0"
  shows "\<exists>s' ws. commit s = Ret ((), s') \<and> writes (cache s') = writes (cache s) @ ws \<and> disk (cache s') = play ws (disk (cache s)) \<and>
    (\<forall>k \<le> length ws. \<forall>t :: 'z fsdev_scheme. booted (l_dev l) (l_start l) (play (take k ws) (disk (cache s))) t \<longrightarrow>
      (\<exists>t'. recover t = Ret ((), t') \<and> (\<forall>x. x \<notin> log_area l \<longrightarrow> disk (cache t') x =
        (if k \<le> lh_len (lh l) \<or> x \<notin> set (txn_blocks l) then disk (cache s) x else av (cabs (l_dev l) (cache s)) x))))"
proof -
  let ?a = "cabs (l_dev l) (cache s)"
  have v: "view (l_dev (wal s)) s ?a" using assms by (simp add: view_def)
  have D: "ad ?a = disk (cache s)" by (simp add: cabs_def)
  obtain s' a' where c: "commit s = Ret ((), s')" "view (l_dev l) s' a'" "ad a' = play (commit_writes l (av ?a)) (ad ?a)"
    "atr a' = atr ?a @ commit_writes l (av ?a)"
    using commit_view [OF v] assms(4,5,6) unfolding assms(1) by blast
  have w: "writes (cache s') = writes (cache s) @ commit_writes l (av ?a)" "disk (cache s') = play (commit_writes l (av ?a)) (disk (cache s))"
    using c by (auto simp: view_def cabs_def)
  have "\<exists>t'. recover t = Ret ((), t') \<and> (\<forall>x. x \<notin> log_area l \<longrightarrow> disk (cache t') x =
      (if k \<le> lh_len (lh l) \<or> x \<notin> set (txn_blocks l) then disk (cache s) x else av ?a x))"
    if k: "k \<le> length (commit_writes l (av ?a))" and t: "booted (l_dev l) (l_start l) (play (take k (commit_writes l (av ?a))) (disk (cache s))) t"
    for k and t :: "'z fsdev_scheme"
    using commit_crash [OF assms(4) assms(7,6) _ k refl, of "disk (cache s)"] assms(8) recover_booted [OF t assms(3)]
    by (fastforce simp: new_disk_def)
  then show ?thesis using c(1) w by blast
qed

text \<open>C9: Recovery can be interrupted. Wherever a crash cuts the writes of a recovery from the disk \<open>D\<close>,
  recovering again after the crash returns and gives the disk that the undisturbed recovery gives. The
  hypothesis says that the header on disk names at most 29 blocks, all outside the log.\<close>

theorem recover_restart:
  fixes t :: "'z fsdev_scheme"
  assumes "booted d st D t" and "d \<noteq> 0" and "rec_fits st D" and "length (D st) = BSIZE"
  shows "\<exists>t'. recover t = Ret ((), t') \<and> (\<forall>k \<le> length (writes (cache t')). \<forall>u :: 'z fsdev_scheme. booted d st (play (take k (writes (cache t'))) D) u \<longrightarrow>
    (\<exists>u'. recover u = Ret ((), u') \<and> disk (cache u') = disk (cache t')))"
proof -
  obtain t' where t: "recover t = Ret ((), t')" "disk (cache t') = play (rec_writes st D) D" "writes (cache t') = rec_writes st D"
    using recover_booted [OF assms(1-3)] by blast
  have "\<exists>u'. recover u = Ret ((), u') \<and> disk (cache u') = disk (cache t')"
    if k: "k \<le> length (writes (cache t'))" and u: "booted d st (play (take k (writes (cache t'))) D) u" for k and u :: "'z fsdev_scheme"
    using rec_writes_again [OF assms(3) _ assms(4), of k] recover_booted [OF u assms(2)] k t(2,3) by auto
  then show ?thesis using t(1) by blast
qed

text \<open>C10: \<open>log_write\<close> keeps the log consistent: called in a transaction on a held buffer of a block outside
  the log, with at most 27 blocks logged so far, it returns; the block is logged once and has a pin of
  its own, the buffer is released, the other blocks and the contents are untouched.\<close>

theorem log_write_keeps_log:
  assumes "bc_inv d (cache s)" and "a = cabs d (cache s)" and "ah a b" and "0 < ar a b" and "ar a b + 1 < usize_lim"
    and "txn_inv (wal s) a" and "1 \<le> outstanding (wal s)" and "b < u32_lim" and "b < l_start (wal s) \<or> l_start (wal s) + LOGSIZE \<le> b"
    and "lh_len (lh (wal s)) + 2 < LOGSIZE" and "lh_len (lh (wal s)) + 2 < l_size (wal s)"
  shows "\<exists>s'. log_write (chnd d (cache s) b) s = Ret ((), s') \<and> bc_inv d (cache s') \<and> txn_inv (wal s') (cabs d (cache s')) \<and>
    txn_blocks (wal s') = (if b \<in> set (txn_blocks (wal s)) then txn_blocks (wal s) else txn_blocks (wal s) @ [b]) \<and>
    av (cabs d (cache s')) = av a \<and> disk (cache s') = disk (cache s) \<and> \<not> ah (cabs d (cache s')) b \<and>
    (\<forall>x. x \<noteq> b \<longrightarrow> ar (cabs d (cache s')) x = ar a x)"
proof -
  have v: "view d s a" using assms(1,2) by (simp add: view_def)
  obtain s' a' where "log_write (hb d s b) s = Ret ((), s')" "view d s' a'" "txn_inv (wal s') a'"
    "txn_blocks (wal s') = (if b \<in> set (txn_blocks (wal s)) then txn_blocks (wal s) else txn_blocks (wal s) @ [b])"
    "a' = a\<lparr>ar := (ar a)(b := if b \<in> set (txn_blocks (wal s)) then ar a b - 1 else ar a b), ah := (ah a)(b := False)\<rparr>"
    using log_write_view [OF v assms(3-7,10,11,8,9)] by blast
  moreover have "disk (cache s') = disk (cache s)" using view_disk [OF calculation(2)] view_disk [OF v] calculation(5) by simp
  ultimately show ?thesis by (intro exI [of _ s']) (auto simp: view_def)
qed

text \<open>C11: The last \<open>end_op\<close> of a transaction returns with the transaction on disk: every logged block has
  its cached contents at home, the other blocks outside the log are unchanged, the log is empty and
  open for new operations, the pins are taken back and the waiting processes are woken.\<close>

theorem end_op_commits:
  assumes "wal s = l" and "bc_inv (l_dev l) (cache s)" and "a = cabs (l_dev l) (cache s)" and "log_ready l a"
    and "outstanding l = 1" and "\<not> committing l" and "0 < lh_len (lh l)"
  shows "\<exists>s'. end_op s = Ret ((), s') \<and> bc_inv (l_dev l) (cache s') \<and>
    wal s' = l\<lparr>outstanding := 0, committing := False, lh := (lh l)\<lparr>lh_len := 0\<rparr>\<rparr> \<and> procs s' = wake_up ChLog (procs s) \<and>
    (\<forall>x. x \<notin> log_area l \<longrightarrow> disk (cache s') x = (if x \<in> set (txn_blocks l) then av a x else disk (cache s) x)) \<and>
    ar (cabs (l_dev l) (cache s')) = (\<lambda>x. if x \<in> set (txn_blocks l) then ar a x - 1 else ar a x)"
proof -
  let ?m = "l\<lparr>outstanding := 0, committing := True\<rparr>" and ?d = "l_dev l"
  let ?s = "s\<lparr>wal := ?m\<rparr>"
  have v: "view (l_dev (wal ?s)) ?s a" using assms(2,3) by (simp add: view_def)
  have r: "log_ready (wal ?s) a" using assms(4) by (simp add: log_ready_def txn_blocks_def log_area_def)
  obtain s1 a1 where c: "commit ?s = Ret ((), s1)" "same (?s\<lparr>wal := ?m\<lparr>lh := (lh l)\<lparr>lh_len := 0\<rparr>\<rparr>\<rparr>) s1" "view ?d s1 a1"
    "ad a1 = play (commit_writes ?m (av a)) (ad a)" "ar a1 = (\<lambda>x. if x \<in> set (txn_blocks ?m) then ar a x - 1 else ar a x)"
    using commit_view [OF v r] assms(7) by auto
  have e: "txn_blocks ?m = txn_blocks l" "log_area ?m = log_area l" by (simp_all add: txn_blocks_def log_area_def)
  have w: "wal s1 = ?m\<lparr>lh := (lh l)\<lparr>lh_len := 0\<rparr>\<rparr>" using same_wal [OF c(2)] by simp
  have p: "procs s1 = procs s" using c(2) by (cases s; cases s1) (simp add: same_def)
  have "ad a1 x = (if x \<in> set (txn_blocks l) then av a x else ad a x)" if "x \<notin> log_area l" for x
    using that by (auto simp: c(4) commit_writes_def Let_def play_self e play_out writes_keys log_area_def)
  moreover have "end_op s = Ret ((), s1\<lparr>wal := (wal s1)\<lparr>committing := False\<rparr>, procs := wake_up ChLog (procs s)\<rparr>)"
    using assms(1,5,6) c(1) p
    by (simp add: end_op_def bindp_def thenp_def getp_def modp_def liftp_def usub_def wake_upp_def)
  ultimately show ?thesis using c(3,5) w assms(5,6) e view_disk [OF c(3)] view_disk [OF v]
    by (auto simp: view_def intro!: log.equality)
qed

text \<open>C28: The bound of the reservation. When \<open>begin_op\<close> admits an operation, the blocks logged so far and
  \<open>MAXOPBLOCKS\<close> for every operation in progress are at most \<open>LOGSIZE - 1\<close> together, the number of entries
  of the header; but \<open>log_write\<close> refuses the last of these entries: with \<open>LOGSIZE - 2\<close> blocks logged it
  panics on a further block, although that block has been reserved.\<close>

theorem log_reservation_gap:
  "(\<forall>s s'. begin_op s = Ret ((), s') \<longrightarrow> lh_len (lh (wal s')) + outstanding (wal s') * MAXOPBLOCKS \<le> LOGSIZE - 1 \<and>
      wal s' = (wal s)\<lparr>outstanding := outstanding (wal s) + 1\<rparr> \<and> \<not> committing (wal s)) \<and>
   (\<forall>s b. lh_len (lh (wal s)) = LOGSIZE - 2 \<and> b_blockno b \<notin> set (txn_blocks (wal s)) \<longrightarrow> (\<exists>e. log_write b s = Panic e))"
proof (intro conjI allI impI)
  fix s s' :: "'a fsdev_scheme" assume b: "begin_op s = Ret ((), s')"
  then show "lh_len (lh (wal s')) + outstanding (wal s') * MAXOPBLOCKS \<le> LOGSIZE - 1"
    "wal s' = (wal s)\<lparr>outstanding := outstanding (wal s) + 1\<rparr>" "\<not> committing (wal s)"
    by (auto simp: begin_op_def prog_run add32_def fs_defs split: if_splits)
next
  fix s :: "'b fsdev_scheme" and b :: buf assume "lh_len (lh (wal s)) = LOGSIZE - 2 \<and> b_blockno b \<notin> set (txn_blocks (wal s))"
  then show "\<exists>e. log_write b s = Panic e"
    by (auto simp: log_write_def prog_run add32_def fs_defs u32_lim_def txn_blocks_def Let_def)
qed

subsection \<open>Witnesses: a transaction with one block\<close>

definition demo_disk :: "nat \<Rightarrow> block" where
  "demo_disk = (\<lambda>_. replicate BSIZE 0)"

definition demo_wal :: log where
  "demo_wal = log_uninit\<lparr>l_start := 2, l_size := 30, l_dev := 1, outstanding := 1\<rparr>"

definition demo_boot :: "(nat \<Rightarrow> block) \<Rightarrow> fsdev" where
  "demo_boot D = \<lparr>procs = [], init_proc = None, pids = 0, cur = None, mem = \<lparr>ram = (\<lambda>_. 0), heap = bs_uninit demo_mem\<rparr>,
     cache = binit (bcache_new D), sb = superblock_uninit, wal = demo_wal\<rparr>"

definition run_state :: "('s, 'a) prog \<Rightarrow> 's \<Rightarrow> 's" where
  "run_state m s = (case m s of Ret (_, s') \<Rightarrow> s' | Panic _ \<Rightarrow> s)"

text \<open>Block 40 is read and changed; then it is logged.\<close>

definition demo_held :: fsdev where
  "demo_held = run_state (bindp (breadp 1 40) (\<lambda>h. raw_data_mutp h (replicate BSIZE 7))) (demo_boot demo_disk)"

definition demo_txn :: fsdev where
  "demo_txn = run_state (log_write (chnd 1 (cache demo_held) 40)) demo_held"

definition demo_view :: acache where
  "demo_view = \<lparr>av = demo_disk(40 := replicate BSIZE 7), ad = demo_disk, atr = [], ar = (\<lambda>_. 0)(40 := 1), ah = (\<lambda>_. False)\<rparr>"

lemma demo_boot_view: "view 1 (demo_boot D) \<lparr>av = D, ad = D, atr = [], ar = (\<lambda>_. 0), ah = (\<lambda>_. False)\<rparr>"
  using boot_cache [of 1] boot_view [of 1] by (simp add: view_def demo_boot_def)

lemma demo_held_eq: "view 1 demo_held (demo_view\<lparr>ah := (\<lambda>_. False)(40 := True)\<rparr>)" "wal demo_held = demo_wal"
proof -
  let ?a = "\<lparr>av = demo_disk, ad = demo_disk, atr = [], ar = (\<lambda>_. 0), ah = (\<lambda>_. False)\<rparr>"
  have "room ?a 40" by (simp add: room_def fs_defs usize_lim_def)
  then obtain s1 where s1: "breadp 1 40 (demo_boot demo_disk) = Ret (hb 1 s1 40, s1)" "view 1 s1 (use1 40 ?a)" "same (demo_boot demo_disk) s1"
    using breadp_view [OF demo_boot_view] by fastforce
  have "ah (use1 40 ?a) 40" by (simp add: use1_def)
  then obtain s2 where s2: "raw_data_mutp (hb 1 s1 40) (replicate BSIZE 7) s1 = Ret ((), s2)"
    "view 1 s2 (setv 40 (replicate BSIZE 7) (use1 40 ?a))" "same s1 s2"
    using raw_data_mutp_view [OF s1(2)] by blast
  have e: "demo_held = s2" using s1(1) s2(1) by (simp add: demo_held_def run_state_def bindp_def)
  have "setv 40 (replicate BSIZE 7) (use1 40 ?a) = demo_view\<lparr>ah := (\<lambda>_. False)(40 := True)\<rparr>"
    by (simp add: adefs demo_view_def fun_upd_def)
  then show "view 1 demo_held (demo_view\<lparr>ah := (\<lambda>_. False)(40 := True)\<rparr>)" using s2(2) e by simp
  show "wal demo_held = demo_wal" using same_wal [OF same_trans [OF s1(3) s2(3)]] e by (simp add: demo_boot_def)
qed

lemma demo_inv: "txn_inv demo_wal a" "txn_blocks demo_wal = []"
  by (auto simp: txn_inv_def txn_blocks_def demo_wal_def log_uninit_def header_ok_def fs_defs u32_lim_def)

lemma demo_txn_eq: "view 1 demo_txn demo_view" "txn_blocks (wal demo_txn) = [40]" "txn_inv (wal demo_txn) demo_view"
  "\<exists>g. wal demo_txn = demo_wal\<lparr>lh := g\<rparr>"
proof -
  let ?a = "demo_view\<lparr>ah := (\<lambda>_. False)(40 := True)\<rparr>"
  have "\<exists>s' a'. log_write (hb 1 demo_held 40) demo_held = Ret ((), s') \<and> view 1 s' a' \<and> txn_inv (wal s') a' \<and>
    txn_blocks (wal s') = (if 40 \<in> set (txn_blocks (wal demo_held)) then txn_blocks (wal demo_held) else txn_blocks (wal demo_held) @ [40]) \<and>
    (\<exists>g. wal s' = (wal demo_held)\<lparr>lh := g\<rparr>) \<and>
    a' = ?a\<lparr>ar := (ar ?a)(40 := if 40 \<in> set (txn_blocks (wal demo_held)) then ar ?a 40 - 1 else ar ?a 40), ah := (ah ?a)(40 := False)\<rparr>"
    by (rule log_write_view [OF demo_held_eq(1)])
      (simp_all add: demo_held_eq(2) demo_inv, simp_all add: demo_view_def usize_lim_def demo_wal_def log_uninit_def fs_defs u32_lim_def)
  moreover have "?a\<lparr>ar := (ar ?a)(40 := ar ?a 40), ah := (ah ?a)(40 := False)\<rparr> = demo_view" by (simp add: demo_view_def fun_upd_def fun_eq_iff)
  ultimately have "view 1 demo_txn demo_view \<and> txn_blocks (wal demo_txn) = [40] \<and> txn_inv (wal demo_txn) demo_view \<and> (\<exists>g. wal demo_txn = demo_wal\<lparr>lh := g\<rparr>)"
    by (auto simp: demo_txn_def run_state_def demo_held_eq(2) demo_inv)
  then show "view 1 demo_txn demo_view" "txn_blocks (wal demo_txn) = [40]" "txn_inv (wal demo_txn) demo_view" "\<exists>g. wal demo_txn = demo_wal\<lparr>lh := g\<rparr>"
    by blast+
qed

lemma demo_log: "l_dev (wal demo_txn) = 1" "l_start (wal demo_txn) = 2" "outstanding (wal demo_txn) = 1" "\<not> committing (wal demo_txn)"
  "lh_len (lh (wal demo_txn)) = 1"
proof -
  show "l_dev (wal demo_txn) = 1" "l_start (wal demo_txn) = 2" "outstanding (wal demo_txn) = 1" "\<not> committing (wal demo_txn)"
    using demo_txn_eq(4) by (auto simp: demo_wal_def log_uninit_def)
  have "length (txn_blocks (wal demo_txn)) = lh_len (lh (wal demo_txn))"
    using demo_txn_eq(3) by (auto simp: txn_inv_def txn_blocks_def header_ok_def)
  then show "lh_len (lh (wal demo_txn)) = 1" by (simp add: demo_txn_eq(2))
qed

lemma demo_ready: "log_ready (wal demo_txn) demo_view"
  by (rule txn_ready [OF demo_txn_eq(3)])
    (simp_all add: cache_quiet_def demo_view_def fs_defs usize_lim_def log_area_def demo_log)

lemma demo_head: "lh_len (header_of (demo_disk 2)) = 0"
  by (simp add: demo_disk_def header_of_def rd32_def get_bytes_def BSIZE_def) (simp add: numeral_eq_Suc)

theorem commit_crash_atomic_witness:
  "\<exists>s' ws. commit (demo_txn\<lparr>wal := (wal demo_txn)\<lparr>committing := True\<rparr>\<rparr>) = Ret ((), s') \<and> disk (cache s') = play ws demo_disk \<and>
    (\<forall>k \<le> length ws. \<exists>t'. recover (demo_boot (play (take k ws) demo_disk)) = Ret ((), t') \<and>
      disk (cache t') 40 = replicate BSIZE (if k \<le> 1 then 0 else 7))"
proof -
  let ?l = "(wal demo_txn)\<lparr>committing := True\<rparr>"
  let ?s = "demo_txn\<lparr>wal := ?l\<rparr>"
  have v: "cabs 1 (cache demo_txn) = demo_view" "bc_inv 1 (cache demo_txn)" using demo_txn_eq(1) by (simp_all add: view_def)
  have d: "disk (cache demo_txn) = demo_disk" using view_disk [OF demo_txn_eq(1)] by (simp add: demo_view_def)
  have r: "log_ready ?l demo_view" using demo_ready by (simp add: log_ready_def txn_blocks_def log_area_def)
  have b: "txn_blocks ?l = [40]" "40 \<notin> log_area ?l" using demo_txn_eq(2) by (simp_all add: txn_blocks_def log_area_def demo_log)
  have len: "length (av demo_view 2) = BSIZE" by (simp add: demo_view_def demo_disk_def)
  have e: "cache ?s = cache demo_txn" "l_dev ?l = 1" "l_start ?l = 2" "lh_len (lh ?l) = 1" "wal ?s = ?l" "committing ?l"
    by (simp_all add: demo_log)
  obtain s' ws where w: "commit ?s = Ret ((), s')" "disk (cache s') = play ws demo_disk"
    "\<forall>k \<le> length ws. \<forall>t :: fsdev. booted 1 2 (play (take k ws) demo_disk) t \<longrightarrow>
      (\<exists>t'. recover t = Ret ((), t') \<and> (\<forall>x. x \<notin> log_area ?l \<longrightarrow> disk (cache t') x =
        (if k \<le> 1 \<or> x \<notin> set (txn_blocks ?l) then demo_disk x else av demo_view x)))"
    using commit_crash_atomic [of ?s ?l, unfolded e v(1) d, OF refl v(2) _ r] len demo_head by auto
  have "\<exists>t'. recover (demo_boot (play (take k ws) demo_disk)) = Ret ((), t') \<and> disk (cache t') 40 = replicate BSIZE (if k \<le> 1 then 0 else 7)"
    if "k \<le> length ws" for k
  proof -
    have "booted 1 2 (play (take k ws) demo_disk) (demo_boot (play (take k ws) demo_disk))"
      by (simp add: booted_def demo_boot_def demo_wal_def)
    then show ?thesis using w(3) that b by (fastforce simp: demo_disk_def demo_view_def)
  qed
  then show ?thesis using w(1,2) by blast
qed

text \<open>A disk whose header names block 40, with its new contents in the first block of the log.\<close>

definition demo_crash :: "nat \<Rightarrow> block" where
  "demo_crash = demo_disk(2 := put_header \<lparr>lh_len = 1, blocknos = 40 # replicate 28 0\<rparr> (replicate BSIZE 0), 3 := replicate BSIZE 7)"

lemma demo_crash_head: "header_of (demo_crash 2) = \<lparr>lh_len = 1, blocknos = 40 # replicate 28 0\<rparr>" "length (demo_crash 2) = BSIZE"
  using header_round [of "\<lparr>lh_len = 1, blocknos = 40 # replicate 28 0\<rparr>" "replicate BSIZE 0"]
  by (simp_all add: demo_crash_def header_ok_def fs_defs u32_lim_def)

theorem recover_restart_witness:
  "\<exists>t'. recover (demo_boot demo_crash) = Ret ((), t') \<and> (\<forall>k \<le> length (writes (cache t')).
    \<exists>u'. recover (demo_boot (play (take k (writes (cache t'))) demo_crash)) = Ret ((), u') \<and> disk (cache u') = disk (cache t'))"
proof -
  have b: "booted 1 2 D (demo_boot D)" for D by (simp add: booted_def demo_boot_def demo_wal_def)
  have f: "rec_fits 2 demo_crash"
    by (simp add: rec_fits_def demo_crash_head(1) log_fits_def log_area_def fs_defs u32_lim_def)
  show ?thesis using recover_restart [OF b _ f demo_crash_head(2)] b by (metis zero_neq_one)
qed

theorem log_write_keeps_log_witness:
  "\<exists>s'. log_write (chnd 1 (cache demo_held) 40) demo_held = Ret ((), s') \<and> txn_blocks (wal s') = [40] \<and> \<not> ah (cabs 1 (cache s')) 40"
proof -
  let ?a = "demo_view\<lparr>ah := (\<lambda>_. False)(40 := True)\<rparr>"
  have v: "bc_inv 1 (cache demo_held)" "cabs 1 (cache demo_held) = ?a" using demo_held_eq(1) by (simp_all add: view_def)
  have a: "ah ?a 40" "0 < ar ?a 40" "ar ?a 40 + 1 < usize_lim" by (simp_all add: demo_view_def usize_lim_def)
  have l: "1 \<le> outstanding demo_wal" "(40::nat) < u32_lim" "40 < l_start demo_wal \<or> l_start demo_wal + LOGSIZE \<le> 40"
    "lh_len (lh demo_wal) + 2 < LOGSIZE" "lh_len (lh demo_wal) + 2 < l_size demo_wal"
    by (simp_all add: demo_wal_def log_uninit_def fs_defs u32_lim_def)
  show ?thesis
    using log_write_keeps_log [of 1 demo_held ?a 40, unfolded demo_held_eq(2), OF v(1) v(2) [symmetric] a demo_inv(1) l]
    by (auto simp: demo_inv(2))
qed

theorem end_op_commits_witness:
  "\<exists>s'. end_op demo_txn = Ret ((), s') \<and> disk (cache s') 40 = replicate BSIZE 7 \<and> disk (cache s') 41 = replicate BSIZE 0 \<and>
    ar (cabs 1 (cache s')) 40 = 0"
proof -
  have v: "bc_inv 1 (cache demo_txn)" "cabs 1 (cache demo_txn) = demo_view" using demo_txn_eq(1) by (simp_all add: view_def)
  have "disk (cache demo_txn) = demo_disk" using view_disk [OF demo_txn_eq(1)] by (simp add: demo_view_def)
  moreover have "40 \<notin> log_area (wal demo_txn)" "41 \<notin> log_area (wal demo_txn)" by (simp_all add: log_area_def demo_log)
  ultimately show ?thesis
    using end_op_commits [OF refl, of demo_txn demo_view] v demo_ready by (fastforce simp: demo_log demo_txn_eq(2) demo_view_def demo_disk_def)
qed

text \<open>With 9 blocks logged and one operation in progress, \<open>begin_op\<close> admits a second one: 29 blocks are reserved.\<close>

definition demo_full :: "nat \<Rightarrow> nat \<Rightarrow> fsdev" where
  "demo_full n o1 = (demo_boot demo_disk)\<lparr>wal := demo_wal\<lparr>lh := \<lparr>lh_len = n, blocknos = [100..<129]\<rparr>, outstanding := o1\<rparr>\<rparr>"

theorem log_reservation_gap_witness:
  "lh_len (lh (wal (run_state begin_op (demo_full 9 1)))) + outstanding (wal (run_state begin_op (demo_full 9 1))) * MAXOPBLOCKS \<le> LOGSIZE - 1 \<and>
   outstanding (wal (run_state begin_op (demo_full 9 1))) = 2 \<and>
   (\<exists>e. log_write \<lparr>b_index = 0, b_dev = 1, b_blockno = 40\<rparr> (demo_full 28 1) = Panic e)"
proof -
  let ?b = "\<lparr>b_index = 0, b_dev = 1, b_blockno = 40\<rparr>"
  have run: "begin_op (demo_full 9 1) = Ret ((), run_state begin_op (demo_full 9 1))"
    by (simp add: begin_op_def run_state_def prog_run demo_full_def demo_wal_def log_uninit_def add32_def u32_lim_def fs_defs)
  have full: "lh_len (lh (wal (demo_full 28 1))) = LOGSIZE - 2 \<and> b_blockno ?b \<notin> set (txn_blocks (wal (demo_full 28 1)))"
    by (auto simp: demo_full_def fs_defs txn_blocks_def dest: in_set_takeD)
  have one: "outstanding (wal (demo_full 9 1)) = 1" by (simp add: demo_full_def)
  note g = log_reservation_gap [THEN conjunct1, rule_format, OF run]
  have "outstanding (wal (run_state begin_op (demo_full 9 1))) = 2" using g one by simp
  then show ?thesis using g log_reservation_gap [THEN conjunct2, rule_format, OF full] by blast
qed

end
