(* ===== verification/Hart.thy ===== *)
theory Hart
  imports KData
begin

text \<open>
  A hart: the status register (\<open>arch/riscv/register/sstatus.rs\<close>), the per-hart state and
  \<open>push_off\<close>/\<open>pop_off\<close> (\<open>process/cpu.rs\<close>), spin locks (\<open>lock/spinlock.rs\<close>) and sleep locks
  (\<open>lock/sleeplock.rs\<close>), and the cause of a trap (\<open>arch/riscv/register/scause.rs\<close>).
\<close>

text \<open>The status register.\<close>

definition SPP :: "64 word" where "SPP = push_bit 8 1"

definition SPIE :: "64 word" where "SPIE = push_bit 5 1"

definition SIE :: "64 word" where "SIE = push_bit 1 1"

definition is_from_supervisor :: "64 word \<Rightarrow> bool" where
  "is_from_supervisor x \<longleftrightarrow> x AND SPP \<noteq> 0"

definition is_from_user :: "64 word \<Rightarrow> bool" where
  "is_from_user x \<longleftrightarrow> x AND SPP = 0"

definition intr_on :: "64 word \<Rightarrow> 64 word" where
  "intr_on x = x OR SIE"

definition intr_off :: "64 word \<Rightarrow> 64 word" where
  "intr_off x = x AND NOT SIE"

definition intr_get :: "64 word \<Rightarrow> bool" where
  "intr_get x \<longleftrightarrow> x AND SIE \<noteq> 0"

definition clear_spp :: "64 word \<Rightarrow> 64 word" where
  "clear_spp x = x AND NOT SPP"

definition user_intr_on :: "64 word \<Rightarrow> 64 word" where
  "user_intr_on x = x OR SPIE"

text \<open>The state of a hart. \<open>intena\<close> is a \<open>usize\<close> that holds a truth value.\<close>

record hart =
  sstatus :: "64 word"
  hproc :: "nat option"
  noff :: nat
  intena :: nat

definition cpu_new :: "64 word \<Rightarrow> hart" where
  "cpu_new x = \<lparr>sstatus = x, hproc = None, noff = 0, intena = 0\<rparr>"

definition set_proc :: "nat option \<Rightarrow> hart \<Rightarrow> hart" where
  "set_proc p h = h\<lparr>hproc := p\<rparr>"

definition push_off :: "hart \<Rightarrow> hart outcome" where
  "push_off h = (let old = intr_get (sstatus h); h1 = h\<lparr>sstatus := intr_off (sstatus h)\<rparr>;
     h2 = (if noff h1 = 0 then h1\<lparr>intena := (if old then 1 else 0)\<rparr> else h1) in
     bnd (uadd (noff h2) 1) (\<lambda>n. Ret (h2\<lparr>noff := n\<rparr>)))"

definition pop_off :: "hart \<Rightarrow> hart outcome" where
  "pop_off h = (if intr_get (sstatus h) then Panic ''pop_off(): interruptable''
     else if noff h = 0 then Panic ''pop_off(): count not match''
     else let h1 = h\<lparr>noff := noff h - 1\<rparr> in
       if noff h1 = 0 \<and> intena h1 \<noteq> 0 then Ret (h1\<lparr>sstatus := intr_on (sstatus h1)\<rparr>) else Ret h1)"

text \<open>\<open>sched\<close>: the checks before the switch; \<open>held\<close> says that the process lock is held.\<close>

definition sched :: "bool \<Rightarrow> ProcState \<Rightarrow> hart \<Rightarrow> hart outcome" where
  "sched held st h =
     (if \<not> held then Panic ''sched: not holding proc's lock''
      else if noff h \<noteq> 1 then Panic ''sched: cpu hold mutliple locks''
      else if st = RUNNING then Panic ''sched: proc is running''
      else if intr_get (sstatus h) then Panic ''sched: interruptible''
      else Ret h)"

text \<open>One round of the scheduler up to the switch to the chosen process.\<close>

definition scheduler_round :: "hart \<times> process list \<Rightarrow> hart \<times> process list" where
  "scheduler_round = (\<lambda>(h, ps). let h1 = h\<lparr>sstatus := intr_on (sstatus h)\<rparr> in
     case seek_runnable ps of
       (Some i, qs) \<Rightarrow> (set_proc (Some i) h1, qs[i := set_state RUNNING (qs ! i)])
     | (None, qs) \<Rightarrow> (h1, qs))"

text \<open>Spin locks; \<open>cpu_id\<close> is \<open>-1\<close> when nobody holds the lock.\<close>

record spinlock =
  s_locked :: bool
  cpu_id :: int

definition spinlock_new :: spinlock where
  "spinlock_new = \<lparr>s_locked = False, cpu_id = -1\<rparr>"

definition holding :: "nat \<Rightarrow> spinlock \<Rightarrow> bool" where
  "holding hid l \<longleftrightarrow> s_locked l \<and> cpu_id l = int hid"

text \<open>
  \<open>acquire\<close> and \<open>release\<close> as one hart sees them when the lock is free, without the waiting.
\<close>

definition acquire :: "nat \<Rightarrow> hart \<times> spinlock \<Rightarrow> (hart \<times> spinlock) outcome" where
  "acquire hid = (\<lambda>(h, l). bnd (push_off h) (\<lambda>h1.
     if holding hid l then Panic ''spinlock acquire''
     else if s_locked l then Panic ''sleep''
     else Ret (h1, l\<lparr>s_locked := True, cpu_id := int hid\<rparr>)))"

definition release :: "nat \<Rightarrow> hart \<times> spinlock \<Rightarrow> (hart \<times> spinlock) outcome" where
  "release hid = (\<lambda>(h, l). if \<not> holding hid l then Panic ''spinlock release''
     else bnd (pop_off h) (\<lambda>h1. Ret (h1, l\<lparr>cpu_id := -1, s_locked := False\<rparr>)))"

text \<open>
  The interleaving of all harts. A hart is at a point of \<open>acquire\<close> or \<open>release\<close>, or elsewhere (\<open>Run\<close>); \<open>hheld\<close>
  are the locks for which it has a guard. Every step is one atomic access of the code. A failed
  \<open>swap\<close> leaves the state as it is.
\<close>

datatype lock_pc = Run | Spin nat | SetId nat | ClearLocked nat | PopOff

record machine =
  harts :: "nat \<Rightarrow> hart"
  locks :: "nat \<Rightarrow> spinlock"
  lpc :: "nat \<Rightarrow> lock_pc"
  hheld :: "nat \<Rightarrow> nat list"

definition upd_hart :: "nat \<Rightarrow> hart \<Rightarrow> lock_pc \<Rightarrow> machine \<Rightarrow> machine" where
  "upd_hart i h pc m = m\<lparr>harts := (harts m)(i := h), lpc := (lpc m)(i := pc)\<rparr>"

inductive lock_step :: "machine \<Rightarrow> machine \<Rightarrow> bool" where
  acquire_begin: "lpc m i = Run \<Longrightarrow> push_off (harts m i) = Ret h \<Longrightarrow> \<not> holding i (locks m k) \<Longrightarrow>
    lock_step m (upd_hart i h (Spin k) m)"
| swap: "lpc m i = Spin k \<Longrightarrow> \<not> s_locked (locks m k) \<Longrightarrow>
    lock_step m (upd_hart i (harts m i) (SetId k) m\<lparr>locks := (locks m)(k := (locks m k)\<lparr>s_locked := True\<rparr>)\<rparr>)"
| set_id: "lpc m i = SetId k \<Longrightarrow>
    lock_step m (upd_hart i (harts m i) Run m\<lparr>locks := (locks m)(k := (locks m k)\<lparr>cpu_id := int i\<rparr>),
      hheld := (hheld m)(i := k # hheld m i)\<rparr>)"
| release_begin: "lpc m i = Run \<Longrightarrow> k \<in> set (hheld m i) \<Longrightarrow> holding i (locks m k) \<Longrightarrow>
    lock_step m (upd_hart i (harts m i) (ClearLocked k) m\<lparr>locks := (locks m)(k := (locks m k)\<lparr>cpu_id := -1\<rparr>),
      hheld := (hheld m)(i := remove1 k (hheld m i))\<rparr>)"
| clear_locked: "lpc m i = ClearLocked k \<Longrightarrow>
    lock_step m (upd_hart i (harts m i) PopOff m\<lparr>locks := (locks m)(k := (locks m k)\<lparr>s_locked := False\<rparr>)\<rparr>)"
| pop: "lpc m i = PopOff \<Longrightarrow> pop_off (harts m i) = Ret h \<Longrightarrow> lock_step m (upd_hart i h Run m)"
| switch_intr: "lpc m i = Run \<Longrightarrow> noff (harts m i) = 0 \<Longrightarrow> x = intr_on (sstatus (harts m i)) \<or> x = intr_off (sstatus (harts m i)) \<Longrightarrow>
    lock_step m (upd_hart i ((harts m i)\<lparr>sstatus := x\<rparr>) Run m)"

text \<open>
  A sleep lock with the processes that use it. The spin lock inside makes \<open>lock\<close> and \<open>unlock\<close> atomic up
  to the sleep: the process lock is taken before the spin lock is released, so that a wake-up cannot
  come in between. \<open>owner\<close> is the process that has the guard.
\<close>

record sleep_lock =
  sl_locked :: bool
  owner :: "nat option"

definition sleep_chan :: chan where "sleep_chan = ChLock 0"

definition sleep_lock_try :: "nat \<Rightarrow> sleep_lock \<times> process list \<Rightarrow> sleep_lock \<times> process list" where
  "sleep_lock_try p = (\<lambda>(l, ps).
     if sl_locked l then (l, ps[p := set_state SLEEPING (set_chan sleep_chan (ps ! p))])
     else (l\<lparr>sl_locked := True, owner := Some p\<rparr>, ps))"

definition sleep_lock_unlock :: "sleep_lock \<times> process list \<Rightarrow> sleep_lock \<times> process list" where
  "sleep_lock_unlock = (\<lambda>(l, ps). (l\<lparr>sl_locked := False, owner := None\<rparr>, wake_up sleep_chan ps))"

inductive sleep_step :: "sleep_lock \<times> process list \<Rightarrow> sleep_lock \<times> process list \<Rightarrow> bool" where
  try_lock: "p < length ps \<Longrightarrow> pstate (pmeta (ps ! p)) = RUNNING \<Longrightarrow> owner l \<noteq> Some p \<Longrightarrow>
    sleep_step (l, ps) (sleep_lock_try p (l, ps))"
| unlock: "p < length ps \<Longrightarrow> pstate (pmeta (ps ! p)) = RUNNING \<Longrightarrow> owner l = Some p \<Longrightarrow>
    sleep_step (l, ps) (sleep_lock_unlock (l, ps))"
| schedule: "p < length ps \<Longrightarrow> pstate (pmeta (ps ! p)) = RUNNABLE \<Longrightarrow>
    sleep_step (l, ps) (l, ps[p := set_state RUNNING (ps ! p)])"
| preempt: "p < length ps \<Longrightarrow> pstate (pmeta (ps ! p)) = RUNNING \<Longrightarrow>
    sleep_step (l, ps) (l, ps[p := set_state RUNNABLE (ps ! p)])"

text \<open>The cause of a trap.\<close>

datatype Interrupt = UserSoft | SupervisorSoft | UserTimer | SupervisorTimer | UserExternal | SupervisorExternal | UnknownInterrupt

datatype Exception = InstructionMisaligned | InstructionFault | IllegalInstruction | Breakpoint | LoadFault | StoreMisaligned
  | StoreFault | UserEnvCall | KernelEnvCall | InstructionPageFault | LoadPageFault | StorePageFault | UnknownException

datatype Trap = TInterrupt Interrupt | TException Exception

definition interrupt_from :: "nat \<Rightarrow> Interrupt" where
  "interrupt_from n = (if n = 0 then UserSoft else if n = 1 then SupervisorSoft else if n = 4 then UserTimer
     else if n = 5 then SupervisorTimer else if n = 8 then UserExternal else if n = 9 then SupervisorExternal
     else UnknownInterrupt)"

definition exception_from :: "nat \<Rightarrow> Exception" where
  "exception_from n = (if n = 0 then InstructionMisaligned else if n = 1 then InstructionFault else if n = 2 then IllegalInstruction
     else if n = 3 then Breakpoint else if n = 5 then LoadFault else if n = 6 then StoreMisaligned else if n = 7 then StoreFault
     else if n = 8 then UserEnvCall else if n = 9 then KernelEnvCall else if n = 12 then InstructionPageFault
     else if n = 13 then LoadPageFault else if n = 15 then StorePageFault else UnknownException)"

definition is_interrupt :: "64 word bitops \<Rightarrow> 64 word \<Rightarrow> bool" where
  "is_interrupt bf x = get_bit_op bf x 63"

definition cause_code :: "64 word \<Rightarrow> 64 word" where
  "cause_code x = x AND NOT (push_bit 63 1)"

definition cause :: "64 word bitops \<Rightarrow> 64 word \<Rightarrow> Trap" where
  "cause bf x = (if is_interrupt bf x then TInterrupt (interrupt_from (unat (cause_code x)))
     else TException (exception_from (unat (cause_code x))))"

end
