(* ===== verification/HartProps.thy ===== *)
theory HartProps
  imports Hart
begin

text \<open>
  The properties of the locks: mutual exclusion of spin locks for every interleaving of the harts, the
  nesting of \<open>push_off\<close> and \<open>pop_off\<close>, and that no wake-up of a sleep lock is lost.
\<close>

subsection \<open>The interrupt bit\<close>

lemma SIE_bits [simp]: "bit SIE n \<longleftrightarrow> n = 1"
  by (auto simp: SIE_def bit_simps)

lemma intr_get_bit: "intr_get x \<longleftrightarrow> bit x 1"
proof
  assume "intr_get x"
  then obtain n where "bit (x AND SIE) n" unfolding intr_get_def using bit_eqI by (metis bit_0_eq bot_apply bot_bool_def)
  then show "bit x 1" by (auto simp: bit_and_iff)
next
  assume "bit x 1"
  then have "bit (x AND SIE) 1" by (simp add: bit_and_iff)
  then show "intr_get x" unfolding intr_get_def by auto
qed

lemma intr_simps [simp]: "\<not> intr_get (intr_off x)" "intr_get (intr_on x)" "intr_off (intr_off x) = intr_off x"
  by (simp_all add: intr_get_bit intr_on_def intr_off_def bit_simps)

lemma intr_restore: "intr_get x \<Longrightarrow> intr_on (intr_off x) = x" "\<not> intr_get x \<Longrightarrow> intr_off x = x"
proof -
  show "intr_get x \<Longrightarrow> intr_on (intr_off x) = x"
    by (rule bit_word_eqI) (auto simp: intr_get_bit intr_on_def intr_off_def bit_or_iff bit_and_iff bit_not_iff)
  show "\<not> intr_get x \<Longrightarrow> intr_off x = x"
    by (rule bit_word_eqI) (auto simp: intr_get_bit intr_off_def bit_and_iff bit_not_iff)
qed

lemma push_off_Ret:
  "push_off h = Ret h' \<Longrightarrow> noff h' = noff h + 1 \<and> sstatus h' = intr_off (sstatus h) \<and>
     intena h' = (if noff h = 0 then (if intr_get (sstatus h) then 1 else 0) else intena h) \<and> hproc h' = hproc h"
  by (auto simp: push_off_def Let_def uadd_def split: if_splits)

lemma pop_off_Ret:
  "pop_off h = Ret h' \<Longrightarrow> 0 < noff h \<and> noff h' = noff h - 1 \<and> \<not> intr_get (sstatus h) \<and> intena h' = intena h \<and> hproc h' = hproc h \<and>
     sstatus h' = (if noff h = 1 \<and> intena h \<noteq> 0 then intr_on (sstatus h) else sstatus h)"
  by (auto simp: pop_off_def Let_def split: if_splits)

lemma pop_off_runs: "0 < noff h \<Longrightarrow> \<not> intr_get (sstatus h) \<Longrightarrow> \<exists>h'. pop_off h = Ret h'"
  by (auto simp: pop_off_def Let_def)

subsection \<open>Spin locks\<close>

text \<open>Hart \<open>i\<close> has won lock \<open>k\<close>: from the successful swap to the store that clears the flag.\<close>

definition owns :: "machine \<Rightarrow> nat \<Rightarrow> nat \<Rightarrow> bool" where
  "owns m i k \<longleftrightarrow> k \<in> set (hheld m i) \<or> lpc m i = SetId k \<or> lpc m i = ClearLocked k"

definition lock_inv :: "machine \<Rightarrow> bool" where
  "lock_inv m \<longleftrightarrow> (\<forall>k. s_locked (locks m k) \<longleftrightarrow> (\<exists>i. owns m i k)) \<and> (\<forall>i j k. owns m i k \<longrightarrow> owns m j k \<longrightarrow> i = j) \<and>
     (\<forall>i k. lpc m i = SetId k \<or> lpc m i = ClearLocked k \<longrightarrow> k \<notin> set (hheld m i)) \<and>
     (\<forall>i k. cpu_id (locks m k) = int i \<longleftrightarrow> k \<in> set (hheld m i))"

definition hart_inv :: "machine \<Rightarrow> bool" where
  "hart_inv m \<longleftrightarrow> (\<forall>i. distinct (hheld m i) \<and> noff (harts m i) = length (hheld m i) + (if lpc m i = Run then 0 else 1) \<and>
     (0 < noff (harts m i) \<longrightarrow> \<not> intr_get (sstatus (harts m i))))"

text \<open>The machine when the harts start: no lock is taken.\<close>

definition lock_init :: "machine \<Rightarrow> bool" where
  "lock_init m \<longleftrightarrow> (\<forall>k. locks m k = spinlock_new) \<and> (\<forall>i. lpc m i = Run \<and> hheld m i = [] \<and> noff (harts m i) = 0)"

lemma init_inv: "lock_init m \<Longrightarrow> lock_inv m \<and> hart_inv m"
  by (auto simp: lock_init_def lock_inv_def hart_inv_def owns_def spinlock_new_def)

lemma upd_hart_sel [simp]:
  "harts (upd_hart i h pc m) = (harts m)(i := h)" "lpc (upd_hart i h pc m) = (lpc m)(i := pc)"
  "locks (upd_hart i h pc m) = locks m" "hheld (upd_hart i h pc m) = hheld m"
  by (simp_all add: upd_hart_def)

lemma lock_invD:
  assumes "lock_inv m"
  shows "\<And>k. s_locked (locks m k) \<longleftrightarrow> (\<exists>i. owns m i k)" "\<And>i j k. owns m i k \<Longrightarrow> owns m j k \<Longrightarrow> i = j"
    "\<And>i k. lpc m i = SetId k \<Longrightarrow> k \<notin> set (hheld m i)" "\<And>i k. lpc m i = ClearLocked k \<Longrightarrow> k \<notin> set (hheld m i)"
    "\<And>i k. cpu_id (locks m k) = int i \<longleftrightarrow> k \<in> set (hheld m i)"
  using assms unfolding lock_inv_def by blast+

lemma inv_holding: "lock_inv m \<Longrightarrow> holding i (locks m k) \<longleftrightarrow> k \<in> set (hheld m i)"
  using lock_invD(1,5) by (auto simp: holding_def owns_def)

lemma hart_inv_upd:
  assumes "hart_inv m" "\<And>j. j \<noteq> i \<Longrightarrow> harts m' j = harts m j \<and> lpc m' j = lpc m j \<and> hheld m' j = hheld m j"
    "distinct (hheld m' i)" "noff (harts m' i) = length (hheld m' i) + (if lpc m' i = Run then 0 else 1)"
    "0 < noff (harts m' i) \<Longrightarrow> \<not> intr_get (sstatus (harts m' i))"
  shows "hart_inv m'"
  using assms unfolding hart_inv_def by metis

lemma lock_invI:
  assumes "\<And>k. s_locked (locks m k) \<longleftrightarrow> (\<exists>i. owns m i k)" "\<And>i j k. owns m i k \<Longrightarrow> owns m j k \<Longrightarrow> i = j"
    "\<And>i k. lpc m i = SetId k \<or> lpc m i = ClearLocked k \<Longrightarrow> k \<notin> set (hheld m i)"
    "\<And>i k. cpu_id (locks m k) = int i \<longleftrightarrow> k \<in> set (hheld m i)"
  shows "lock_inv m"
  using assms unfolding lock_inv_def by blast

text \<open>A step that neither wins nor gives up a lock.\<close>

lemma lock_inv_quiet:
  assumes "lock_inv m" "locks m' = locks m" "hheld m' = hheld m"
    "\<And>j l. (lpc m' j = SetId l \<longleftrightarrow> lpc m j = SetId l) \<and> (lpc m' j = ClearLocked l \<longleftrightarrow> lpc m j = ClearLocked l)"
  shows "lock_inv m'"
  using assms unfolding lock_inv_def owns_def by simp

lemma lock_inv_swap:
  assumes "lock_inv m" "lpc m i = Spin k" "\<not> s_locked (locks m k)"
  shows "lock_inv (upd_hart i (harts m i) (SetId k) m\<lparr>locks := (locks m)(k := (locks m k)\<lparr>s_locked := True\<rparr>)\<rparr>)" (is "lock_inv ?m")
proof (rule lock_invI)
  note I = lock_invD [OF assms(1)]
  have free: "\<not> owns m j k" for j using I(1) assms(3) by blast
  have o: "owns ?m j l \<longleftrightarrow> owns m j l \<or> (j = i \<and> l = k)" for j l using assms(2) by (simp add: owns_def) blast
  show "s_locked (locks ?m l) \<longleftrightarrow> (\<exists>j. owns ?m j l)" for l using I(1) by (cases "l = k") (auto simp: o)
  show "owns ?m j l \<Longrightarrow> owns ?m j' l \<Longrightarrow> j = j'" for j j' l using I(2) free unfolding o by metis
  show "lpc ?m j = SetId l \<or> lpc ?m j = ClearLocked l \<Longrightarrow> l \<notin> set (hheld ?m j)" for j l
    using I(3,4) [of j l] free [of i] by (cases "j = i") (auto simp: owns_def)
  show "cpu_id (locks ?m l) = int j \<longleftrightarrow> l \<in> set (hheld ?m j)" for j l using I(5) by (cases "l = k") simp_all
qed

lemma lock_inv_set_id:
  assumes "lock_inv m" "lpc m i = SetId k"
  shows "lock_inv (upd_hart i (harts m i) Run m\<lparr>locks := (locks m)(k := (locks m k)\<lparr>cpu_id := int i\<rparr>),
      hheld := (hheld m)(i := k # hheld m i)\<rparr>)" (is "lock_inv ?m")
proof (rule lock_invI)
  note I = lock_invD [OF assms(1)]
  have k: "k \<notin> set (hheld m j)" for j using I(2) [of j k i] I(3) [OF assms(2)] assms(2) by (auto simp: owns_def)
  have o: "owns ?m j l \<longleftrightarrow> owns m j l" for j l using assms(2) by (simp add: owns_def) blast
  show "s_locked (locks ?m l) \<longleftrightarrow> (\<exists>j. owns ?m j l)" for l using I(1) by (cases "l = k") (auto simp: o)
  show "owns ?m j l \<Longrightarrow> owns ?m j' l \<Longrightarrow> j = j'" for j j' l using I(2) unfolding o by metis
  show "lpc ?m j = SetId l \<or> lpc ?m j = ClearLocked l \<Longrightarrow> l \<notin> set (hheld ?m j)" for j l
    using I(3,4) [of j l] by (cases "j = i") auto
  show "cpu_id (locks ?m l) = int j \<longleftrightarrow> l \<in> set (hheld ?m j)" for j l using I(5) [of l j] k [of j] by (cases "l = k"; cases "j = i") simp_all
qed

lemma lock_inv_release:
  assumes "lock_inv m" "lpc m i = Run" "k \<in> set (hheld m i)" "distinct (hheld m i)"
  shows "lock_inv (upd_hart i (harts m i) (ClearLocked k) m\<lparr>locks := (locks m)(k := (locks m k)\<lparr>cpu_id := -1\<rparr>),
      hheld := (hheld m)(i := remove1 k (hheld m i))\<rparr>)" (is "lock_inv ?m")
proof (rule lock_invI)
  note I = lock_invD [OF assms(1)]
  have only: "k \<in> set (hheld m j) \<Longrightarrow> j = i" for j using I(2) [of j k i] assms(3) by (auto simp: owns_def)
  have s: "set (remove1 k (hheld m i)) = set (hheld m i) - {k}" using assms(4) by (simp add: set_remove1_eq)
  have o: "owns ?m j l \<longleftrightarrow> owns m j l" for j l using assms(2,3) s by (simp add: owns_def) blast
  show "s_locked (locks ?m l) \<longleftrightarrow> (\<exists>j. owns ?m j l)" for l using I(1) by (cases "l = k") (auto simp: o)
  show "owns ?m j l \<Longrightarrow> owns ?m j' l \<Longrightarrow> j = j'" for j j' l using I(2) unfolding o by metis
  show "lpc ?m j = SetId l \<or> lpc ?m j = ClearLocked l \<Longrightarrow> l \<notin> set (hheld ?m j)" for j l
    using I(3,4) [of j l] s by (cases "j = i") auto
  have k: "k \<notin> set (hheld ?m j)" for j using only [of j] s by (cases "j = i") auto
  show "cpu_id (locks ?m l) = int j \<longleftrightarrow> l \<in> set (hheld ?m j)" for j l
    using I(5) [of l j] s k [of j] by (cases "l = k"; cases "j = i") simp_all
qed

lemma lock_inv_clear:
  assumes "lock_inv m" "lpc m i = ClearLocked k"
  shows "lock_inv (upd_hart i (harts m i) PopOff m\<lparr>locks := (locks m)(k := (locks m k)\<lparr>s_locked := False\<rparr>)\<rparr>)" (is "lock_inv ?m")
proof (rule lock_invI)
  note I = lock_invD [OF assms(1)]
  have only: "owns m j k \<Longrightarrow> j = i" for j using I(2) [of j k i] assms(2) by (auto simp: owns_def)
  have o: "owns ?m j l \<longleftrightarrow> owns m j l \<and> l \<noteq> k" for j l
    using assms(2) only [of j] I(4) [OF assms(2)] by (cases "j = i") (auto simp: owns_def)
  show "s_locked (locks ?m l) \<longleftrightarrow> (\<exists>j. owns ?m j l)" for l using I(1) by (cases "l = k") (auto simp: o)
  show "owns ?m j l \<Longrightarrow> owns ?m j' l \<Longrightarrow> j = j'" for j j' l using I(2) unfolding o by metis
  show "lpc ?m j = SetId l \<or> lpc ?m j = ClearLocked l \<Longrightarrow> l \<notin> set (hheld ?m j)" for j l
    using I(3,4) [of j l] by (cases "j = i") auto
  show "cpu_id (locks ?m l) = int j \<longleftrightarrow> l \<in> set (hheld ?m j)" for j l using I(5) by (cases "l = k") simp_all
qed

lemma lock_step_lock_inv:
  assumes "lock_step m m'" "lock_inv m" "hart_inv m"
  shows "lock_inv m'"
  using assms
proof (induction rule: lock_step.induct)
  case (release_begin m i k)
  then have "distinct (hheld m i)" by (simp add: hart_inv_def)
  then show ?case using release_begin lock_inv_release by blast
next
  case (swap m i k)
  then show ?case using lock_inv_swap by blast
next
  case (set_id m i k)
  then show ?case using lock_inv_set_id by blast
next
  case (clear_locked m i k)
  then show ?case using lock_inv_clear by blast
qed (auto elim!: lock_inv_quiet split: if_splits)

lemma lock_step_hart_inv:
  assumes "lock_step m m'" "lock_inv m" "hart_inv m"
  shows "hart_inv m'"
  using assms
proof (induction rule: lock_step.induct)
  case (acquire_begin m i h k)
  show ?case by (rule hart_inv_upd [OF acquire_begin(5), of i])
    (use acquire_begin push_off_Ret [OF acquire_begin(2)] in \<open>auto simp: hart_inv_def\<close>)
next
  case (set_id m i k)
  show ?case by (rule hart_inv_upd [OF set_id(3), of i]) (use set_id lock_invD(3) [OF set_id(2,1)] in \<open>auto simp: hart_inv_def\<close>)
next
  case (release_begin m i k)
  have "0 < length (hheld m i)" using release_begin(2) by auto
  then show ?case by (intro hart_inv_upd [OF release_begin(5), of i]) (use release_begin in \<open>auto simp: hart_inv_def length_remove1\<close>)
next
  case (pop m i h)
  show ?case by (rule hart_inv_upd [OF pop(4), of i]) (use pop pop_off_Ret [OF pop(2)] in \<open>auto simp: hart_inv_def split: if_splits\<close>)
next
  case (swap m i k)
  show ?case by (rule hart_inv_upd [OF swap(4), of i]) (use swap in \<open>auto simp: hart_inv_def\<close>)
next
  case (clear_locked m i k)
  show ?case by (rule hart_inv_upd [OF clear_locked(3), of i]) (use clear_locked in \<open>auto simp: hart_inv_def\<close>)
next
  case (switch_intr m i x)
  show ?case by (rule hart_inv_upd [OF switch_intr(5), of i]) (use switch_intr in \<open>auto simp: hart_inv_def\<close>)
qed

lemma reachable_inv:
  assumes "lock_step\<^sup>*\<^sup>* m0 m" "lock_init m0"
  shows "lock_inv m \<and> hart_inv m"
  using assms by (induction rule: rtranclp_induct) (auto simp: init_inv intro: lock_step_lock_inv lock_step_hart_inv)

text \<open>C4: Spin locks exclude each other. In every state that the harts can reach from the boot state by any
  interleaving of the steps of \<open>acquire\<close> and \<open>release\<close>: no two harts hold the same lock; a hart that
  holds a lock has its interrupts off; its counter \<open>noff\<close> is the number of locks it holds; \<open>holding\<close>
  answers exactly whether the hart holds the lock, so neither check of \<open>acquire\<close> or \<open>release\<close> panics on
  a correct client; and the \<open>pop_off\<close> at the end of a release does not panic.\<close>

theorem spinlock_mutual_exclusion:
  assumes "lock_init m0" and "lock_step\<^sup>*\<^sup>* m0 m"
  shows "(\<forall>i j k. k \<in> set (hheld m i) \<and> k \<in> set (hheld m j) \<longrightarrow> i = j) \<and>
    (\<forall>i. hheld m i \<noteq> [] \<longrightarrow> \<not> intr_get (sstatus (harts m i))) \<and>
    (\<forall>i. lpc m i = Run \<longrightarrow> noff (harts m i) = length (hheld m i)) \<and>
    (\<forall>i k. holding i (locks m k) \<longleftrightarrow> k \<in> set (hheld m i)) \<and>
    (\<forall>i. lpc m i = PopOff \<longrightarrow> (\<exists>h. pop_off (harts m i) = Ret h))"
proof (intro conjI allI impI)
  have L: "lock_inv m" and H: "hart_inv m" using reachable_inv [OF assms(2,1)] by auto
  note Hi = H [unfolded hart_inv_def, rule_format]
  show "k \<in> set (hheld m i) \<and> k \<in> set (hheld m j) \<Longrightarrow> i = j" for i j k using lock_invD(2) [OF L, of i k j] by (auto simp: owns_def)
  show "hheld m i \<noteq> [] \<Longrightarrow> \<not> intr_get (sstatus (harts m i))" for i using Hi [of i] by auto
  show "lpc m i = Run \<Longrightarrow> noff (harts m i) = length (hheld m i)" for i using Hi [of i] by simp
  show "holding i (locks m k) \<longleftrightarrow> k \<in> set (hheld m i)" for i k by (rule inv_holding [OF L])
  show "lpc m i = PopOff \<Longrightarrow> \<exists>h. pop_off (harts m i) = Ret h" for i using Hi [of i] by (intro pop_off_runs) auto
qed

definition demo_machine :: machine where
  "demo_machine = \<lparr>harts = (\<lambda>_. cpu_new SIE), locks = (\<lambda>_. spinlock_new), lpc = (\<lambda>_. Run), hheld = (\<lambda>_. [])\<rparr>"

text \<open>Hart 0 starts to acquire lock 7 and wins the swap.\<close>

definition demo_won :: machine where
  "demo_won = (let h = (cpu_new SIE)\<lparr>sstatus := intr_off SIE, intena := 1, noff := 1\<rparr>; m = upd_hart 0 h (Spin 7) demo_machine in
     upd_hart 0 (harts m 0) (SetId 7) m\<lparr>locks := (locks m)(7 := (locks m 7)\<lparr>s_locked := True\<rparr>)\<rparr>)"

definition demo_locked :: machine where
  "demo_locked = upd_hart 0 (harts demo_won 0) Run demo_won\<lparr>locks := (locks demo_won)(7 := (locks demo_won 7)\<lparr>cpu_id := int 0\<rparr>),
     hheld := (hheld demo_won)(0 := 7 # hheld demo_won 0)\<rparr>"

lemma demo_reach: "lock_step\<^sup>*\<^sup>* demo_machine demo_locked"
proof -
  let ?h = "(cpu_new SIE)\<lparr>sstatus := intr_off SIE, intena := 1, noff := 1\<rparr>"
  have "push_off (harts demo_machine 0) = Ret ?h"
    by (simp add: demo_machine_def push_off_def cpu_new_def Let_def uadd_def usize_lim_def intr_get_bit)
  then have "lock_step demo_machine (upd_hart 0 ?h (Spin 7) demo_machine)"
    by (intro lock_step.acquire_begin) (simp_all add: demo_machine_def holding_def spinlock_new_def)
  moreover have "lock_step (upd_hart 0 ?h (Spin 7) demo_machine) demo_won"
    unfolding demo_won_def Let_def by (rule lock_step.swap) (simp_all add: demo_machine_def spinlock_new_def)
  moreover have "lock_step demo_won demo_locked"
    unfolding demo_locked_def by (rule lock_step.set_id) (simp add: demo_won_def Let_def)
  ultimately show ?thesis by (meson rtranclp.rtrancl_refl rtranclp.rtrancl_into_rtrancl)
qed

theorem spinlock_mutual_exclusion_witness:
  "hheld demo_locked 0 = [7] \<and> \<not> intr_get (sstatus (harts demo_locked 0)) \<and> noff (harts demo_locked 0) = 1 \<and>
   holding 0 (locks demo_locked 7) \<and> \<not> holding 1 (locks demo_locked 7)"
proof -
  have i: "lock_init demo_machine" by (simp add: lock_init_def demo_machine_def cpu_new_def)
  have h: "hheld demo_locked 0 = [7]" "hheld demo_locked 1 = []" "lpc demo_locked 0 = Run"
    by (simp_all add: demo_locked_def demo_won_def demo_machine_def Let_def)
  show ?thesis using spinlock_mutual_exclusion [OF i demo_reach] h by auto
qed

subsection \<open>Nesting of \<open>push_off\<close> and \<open>pop_off\<close>\<close>

text \<open>A sequence of calls, \<open>True\<close> for \<open>push_off\<close>; \<open>balanced\<close> from depth \<open>d\<close> down to 0.\<close>

primrec off_ops :: "bool list \<Rightarrow> hart \<Rightarrow> hart outcome" where
  "off_ops [] h = Ret h"
| "off_ops (x # xs) h = bnd (if x then push_off h else pop_off h) (off_ops xs)"

primrec balanced :: "bool list \<Rightarrow> nat \<Rightarrow> bool" where
  "balanced [] d = (d = 0)"
| "balanced (x # xs) d = (if x then balanced xs (d + 1) else 0 < d \<and> balanced xs (d - 1))"

lemma off_ops_balanced:
  assumes "balanced xs d" "noff h = d" "0 < d \<Longrightarrow> \<not> intr_get (sstatus h)" "d + length xs < usize_lim"
  shows "\<exists>h'. off_ops xs h = Ret h' \<and> noff h' = 0 \<and> hproc h' = hproc h \<and>
    sstatus h' = (if 0 < d \<and> intena h \<noteq> 0 then intr_on (sstatus h) else sstatus h)"
  using assms
proof (induction xs arbitrary: d h)
  case (Cons x xs)
  show ?case
  proof (cases x)
    case True
    let ?h = "h\<lparr>sstatus := intr_off (sstatus h), intena := (if d = 0 then (if intr_get (sstatus h) then 1 else 0) else intena h), noff := d + 1\<rparr>"
    have p: "push_off h = Ret ?h" using Cons.prems(2,4) by (cases h) (simp add: push_off_def Let_def uadd_def)
    obtain h' where "off_ops xs ?h = Ret h'" "noff h' = 0" "hproc h' = hproc ?h"
      "sstatus h' = (if 0 < d + 1 \<and> intena ?h \<noteq> 0 then intr_on (sstatus ?h) else sstatus ?h)"
      using Cons.IH [of "d + 1" ?h] Cons.prems True by auto
    then show ?thesis using p True Cons.prems(3) intr_restore [of "sstatus h"] by (auto split: if_splits)
  next
    case False
    then have d: "0 < d" using Cons.prems(1) by simp
    obtain h1 where p: "pop_off h = Ret h1" using pop_off_runs [of h] d Cons.prems(2,3) by auto
    note r = pop_off_Ret [OF p]
    have l: "d - 1 + length xs < usize_lim" using Cons.prems(4) by simp
    obtain h' where "off_ops xs h1 = Ret h'" "noff h' = 0" "hproc h' = hproc h1"
      "sstatus h' = (if 0 < d - 1 \<and> intena h1 \<noteq> 0 then intr_on (sstatus h1) else sstatus h1)"
      using Cons.IH [OF _ _ _ l, of h1] Cons.prems(1,2) False r by auto
    then show ?thesis using p False r d Cons.prems(2) by auto
  qed
qed simp

text \<open>C29: \<open>push_off\<close> and \<open>pop_off\<close> nest. From a hart with no lock held, every sequence of the two calls
  in which no prefix pops more than it pushed and all pushes are popped returns, and the hart has
  the status register it had before, whether its interrupts were on or off.\<close>

theorem push_pop_off_restores:
  assumes "noff h = 0" and "balanced ops 0" and "length ops < usize_lim"
  shows "\<exists>h'. off_ops ops h = Ret h' \<and> sstatus h' = sstatus h \<and> noff h' = 0 \<and> hproc h' = hproc h"
  using off_ops_balanced [of ops 0 h] assms by auto

theorem push_pop_off_restores_witness:
  "\<exists>h'. off_ops [True, True, False, False] (cpu_new SIE) = Ret h' \<and> sstatus h' = SIE \<and> intr_get (sstatus h')"
  using push_pop_off_restores [of "cpu_new SIE" "[True, True, False, False]"] by (auto simp: cpu_new_def usize_lim_def intr_get_bit)

subsection \<open>Sleep locks\<close>




lemma set_state_sel [simp]:
  "pstate (pmeta (set_state st p)) = st" "channel (pmeta (set_state st p)) = channel (pmeta p)"
  by (simp_all add: set_state_def)









end
