(* ===== verification/Dinode.thy ===== *)
theory Dinode
  imports FsDev
begin

text \<open>
  Inodes on disk (\<open>fs/dinode.rs\<close>) and the bitmap of free blocks (\<open>fs/bitmap.rs\<close>). An inode takes
  \<open>sizeof_dinode\<close> bytes of its block. A type tag that is no \<open>InodeType\<close> is an invalid value: reading it
  is a panic of the model.
\<close>

datatype InodeType = Empty | Directory | File | Device

record dinode =
  itype :: InodeType
  d_major :: int
  d_minor :: int
  nlink :: int
  d_size :: nat
  addrs :: "nat list"

definition dinode_new :: dinode where
  "dinode_new = \<lparr>itype = Empty, d_major = 0, d_minor = 0, nlink = 0, d_size = 0, addrs = replicate (NDIRECT + 1) 0\<rparr>"

definition itype_num :: "InodeType \<Rightarrow> nat" where
  "itype_num t = (case t of Empty \<Rightarrow> 0 | Directory \<Rightarrow> 1 | File \<Rightarrow> 2 | Device \<Rightarrow> 3)"

definition itype_of :: "nat \<Rightarrow> InodeType outcome" where
  "itype_of n = (if n = 0 then Ret Empty else if n = 1 then Ret Directory else if n = 2 then Ret File
     else if n = 3 then Ret Device else Panic ''invalid value of InodeType'')"

text \<open>16-bit two's complement.\<close>

definition i16_of :: "nat \<Rightarrow> int" where
  "i16_of n = (if n < 2 ^ 15 then int n else int n - 2 ^ 16)"

definition i16_enc :: "int \<Rightarrow> nat" where
  "i16_enc i = nat (i mod 2 ^ 16)"

definition add_i16 :: "int \<Rightarrow> int \<Rightarrow> int outcome" where
  "add_i16 a b = (if - (2 ^ 15) \<le> a + b \<and> a + b < 2 ^ 15 then Ret (a + b) else Panic ''attempt to add with overflow'')"

definition read_dinode :: "block \<Rightarrow> nat \<Rightarrow> dinode outcome" where
  "read_dinode d off = bnd (itype_of (rd16 d off)) (\<lambda>t.
     Ret \<lparr>itype = t, d_major = i16_of (rd16 d (off + 2)), d_minor = i16_of (rd16 d (off + 4)), nlink = i16_of (rd16 d (off + 6)),
       d_size = rd32 d (off + 8), addrs = map (\<lambda>i. rd32 d (off + 12 + 4 * i)) [0..<NDIRECT + 1]\<rparr>)"

definition write_dinode :: "block \<Rightarrow> nat \<Rightarrow> dinode \<Rightarrow> block" where
  "write_dinode d off n =
     fold (\<lambda>i d. wr32 d (off + 12 + 4 * i) (addrs n ! i)) [0..<NDIRECT + 1]
       (wr32 (wr16 (wr16 (wr16 (wr16 d off (itype_num (itype n))) (off + 2) (i16_enc (d_major n)))
          (off + 4) (i16_enc (d_minor n))) (off + 6) (i16_enc (nlink n))) (off + 8) (d_size n))"

definition try_alloc :: "block \<Rightarrow> nat \<Rightarrow> InodeType \<Rightarrow> (bool \<times> block) outcome" where
  "try_alloc d off t = bnd (itype_of (rd16 d off)) (\<lambda>u.
     if u = Empty then Ret (True, wr16 (put_bytes d off (replicate sizeof_dinode 0)) off (itype_num t))
     else Ret (False, d))"

text \<open>A directory entry: the inode number and the name.\<close>

definition sizeof_dirent :: nat where "sizeof_dirent = 2 + DIRSIZ"

definition dirent_new :: "8 word list" where
  "dirent_new = replicate sizeof_dirent 0"

definition locate_inode_offset :: "nat \<Rightarrow> nat" where
  "locate_inode_offset inum = inum mod IPB"

definition bfree :: "8 word bitops \<Rightarrow> nat \<Rightarrow> nat \<Rightarrow> ('z fsdev_scheme, unit) prog" where
  "bfree bf dev blockno = bindp (bitmap_blockno blockno) (\<lambda>bm.
     let o1 = blockno mod BPB; index = o1 div 8; bit = o1 mod 8 in
     bindp (breadp dev bm) (\<lambda>b. bindp (raw_datap b) (\<lambda>d.
     if \<not> get_bit_op bf (d ! index) bit then panicp ''bitmap: double freeing a block''
     else thenp (raw_data_mutp b (d[index := set_bit_op bf (d ! index) bit False])) (log_write b))))"

text \<open>The search of \<open>balloc\<close> in one bitmap block.\<close>

function balloc_scan :: "block \<Rightarrow> nat \<Rightarrow> nat \<Rightarrow> nat \<Rightarrow> nat option outcome" where
  "balloc_scan d b sz bi =
     (if \<not> bi < BPB then Ret None
      else bnd (add32 b bi) (\<lambda>n.
        if \<not> n < sz then Ret None
        else if (bi + 1) div 8 \<ge> BSIZE then Panic ''read past the end of the block''
        else if d ! ((bi + 1) div 8) = 0 then Ret (Some (bi + 1))
        else balloc_scan d b sz (bi + 1)))"
  by pat_completeness auto
termination
  by (relation "measure (\<lambda>(d, b, sz, bi). BPB - bi)") auto

declare balloc_scan.simps [simp del]

definition balloc_round :: "nat \<Rightarrow> nat \<Rightarrow> nat \<Rightarrow> ('z fsdev_scheme, nat option) prog" where
  "balloc_round dev sz i = (let b = i * BPB in
     bindp (bitmap_blockno b) (\<lambda>bm. bindp (breadp dev bm) (\<lambda>buf. bindp (raw_datap buf) (\<lambda>d.
     bindp (liftp (balloc_scan d b sz 0)) (\<lambda>r.
     case r of
       Some bi \<Rightarrow> thenp (raw_data_mutp buf (d[bi div 8 := 2 ^ (bi mod 8)]))
         (thenp (log_write buf) (bindp (liftp (add32 b bi)) (\<lambda>n. retp (Some n))))
     | None \<Rightarrow> thenp (drop_bufp buf) (bindp (liftp (add32 b BPB)) (\<lambda>_. retp None)))))))"

definition balloc :: "nat \<Rightarrow> ('z fsdev_scheme, nat) prog" where
  "balloc dev = bindp sb_sizep (\<lambda>sz. bindp (forp 0 ((sz + BPB - 1) div BPB) (balloc_round dev sz)) (\<lambda>r.
     case r of Some n \<Rightarrow> retp n | None \<Rightarrow> panicp ''balloc: out of the block ranges.''))"

definition inode_alloc_round :: "nat \<Rightarrow> InodeType \<Rightarrow> nat \<Rightarrow> ('z fsdev_scheme, nat option) prog" where
  "inode_alloc_round dev t inum = bindp (locate_inode inum) (\<lambda>blockno.
     bindp (breadp dev blockno) (\<lambda>buf. bindp (raw_datap buf) (\<lambda>d.
     bindp (liftp (try_alloc d (locate_inode_offset inum * sizeof_dinode) t)) (\<lambda>(ok, d').
     if ok then thenp (raw_data_mutp buf d') (thenp (log_write buf) (retp (Some inum)))
     else thenp (drop_bufp buf) (retp None)))))"

definition inode_alloc :: "nat \<Rightarrow> InodeType \<Rightarrow> ('z fsdev_scheme, nat) prog" where
  "inode_alloc dev t = bindp ninodesp (\<lambda>sz. bindp (forp 1 (sz - 1) (inode_alloc_round dev t)) (\<lambda>r.
     case r of Some n \<Rightarrow> retp n | None \<Rightarrow> panicp ''not enough inode to alloc''))"

end
