(* ===== verification/InodeCache.thy ===== *)
theory InodeCache
  imports Dinode UserCopy
begin

text \<open>
  The inode cache (\<open>fs/inode.rs\<close>). A locked inode is the index of its entry in the cache; \<open>drop_guard\<close>
  releases it and \<open>iput\<close> is the drop of an \<open>Inode\<close>. Buffers and the local directory entry are kernel
  memory at link-time addresses, which are part of \<open>image\<close> together with the crate \<open>bit_field\<close>: a copy
  from or to a buffer sees its bytes there.
\<close>

record image =
  i_bf :: "8 word bitops"
  i_bf64 :: "64 word bitops"
  buf_addr :: "nat \<Rightarrow> nat"
  local_addr :: nat
  trampoline_pa :: nat
  fork_ret_pa :: nat
  user_trap_pa :: nat

record inode_meta =
  m_dev :: nat
  m_blockno :: nat
  m_inum :: nat
  refs :: nat

record inode_data =
  id_locked :: bool
  id_valid :: bool
  id_dev :: nat
  id_inum :: nat
  dnode :: dinode

record kern = fsdev +
  imeta :: "inode_meta list"
  idata :: "inode_data list"

definition inode_meta_new :: inode_meta where
  "inode_meta_new = \<lparr>m_dev = 0, m_blockno = 0, m_inum = 0, refs = 0\<rparr>"

definition inode_data_new :: inode_data where
  "inode_data_new = \<lparr>id_locked = False, id_valid = False, id_dev = 0, id_inum = 0, dnode = dinode_new\<rparr>"

definition icache_new :: "inode_meta list \<times> inode_data list" where
  "icache_new = (replicate NINODE inode_meta_new, replicate NINODE inode_data_new)"

definition imeta_at :: "nat \<Rightarrow> ('z kern_scheme, inode_meta) prog" where
  "imeta_at i = bindp (getp imeta) (\<lambda>ms. if i < length ms then retp (ms ! i) else panicp ''index out of bounds'')"

definition set_refs :: "nat \<Rightarrow> nat \<Rightarrow> ('z kern_scheme, unit) prog" where
  "set_refs i n = modp (\<lambda>s. s\<lparr>imeta := (imeta s)[i := (imeta s ! i)\<lparr>refs := n\<rparr>]\<rparr>)"

definition idata_at :: "nat \<Rightarrow> ('z kern_scheme, inode_data) prog" where
  "idata_at i = getp (\<lambda>s. idata s ! i)"

definition upd_idata :: "nat \<Rightarrow> (inode_data \<Rightarrow> inode_data) \<Rightarrow> ('z kern_scheme, unit) prog" where
  "upd_idata i f = modp (\<lambda>s. s\<lparr>idata := (idata s)[i := f (idata s ! i)]\<rparr>)"

definition upd_dinode :: "nat \<Rightarrow> (dinode \<Rightarrow> dinode) \<Rightarrow> ('z kern_scheme, unit) prog" where
  "upd_dinode i f = upd_idata i (\<lambda>x. x\<lparr>dnode := f (dnode x)\<rparr>)"

definition lock_idata :: "nat \<Rightarrow> ('z kern_scheme, unit) prog" where
  "lock_idata i = bindp (getp idata) (\<lambda>ds.
     if i \<ge> length ds then panicp ''index out of bounds''
     else if id_locked (ds ! i) then panicp ''sleep''
     else upd_idata i (\<lambda>x. x\<lparr>id_locked := True\<rparr>))"

definition drop_guard :: "nat \<Rightarrow> ('z kern_scheme, unit) prog" where
  "drop_guard i = upd_idata i (\<lambda>x. x\<lparr>id_locked := False\<rparr>)"

definition idup :: "inode \<Rightarrow> ('z kern_scheme, inode) prog" where
  "idup ino = bindp (imeta_at (i_index ino)) (\<lambda>m. bindp (liftp (uadd (refs m) 1)) (\<lambda>n.
     thenp (set_refs (i_index ino) n) (retp \<lparr>i_dev = i_dev ino, i_inum = i_inum ino, i_index = i_index ino\<rparr>)))"

text \<open>\<open>update\<close> writes the inode of a guard to disk, \<open>truncate\<close> frees its blocks.\<close>

definition iupdate :: "nat \<Rightarrow> ('z kern_scheme, unit) prog" where
  "iupdate g = bindp (idata_at g) (\<lambda>x. bindp (locate_inode (id_inum x)) (\<lambda>bn. bindp (breadp (id_dev x) bn) (\<lambda>b.
     bindp (raw_datap b) (\<lambda>d.
     thenp (raw_data_mutp b (write_dinode d (locate_inode_offset (id_inum x) * sizeof_dinode) (dnode x))) (log_write b)))))"

definition truncate_direct :: "image \<Rightarrow> nat \<Rightarrow> inode \<Rightarrow> nat \<Rightarrow> ('z kern_scheme, unit option) prog" where
  "truncate_direct im g ino i = bindp (idata_at g) (\<lambda>x. let a = addrs (dnode x) ! i in
     if a > 0 then thenp (bfree (i_bf im) (i_dev ino) a)
       (thenp (upd_dinode g (\<lambda>n. n\<lparr>addrs := (addrs n)[i := 0]\<rparr>)) (retp None))
     else retp None)"

definition truncate_indirect :: "image \<Rightarrow> inode \<Rightarrow> buf \<Rightarrow> nat \<Rightarrow> ('z kern_scheme, unit option) prog" where
  "truncate_indirect im ino b i = bindp (raw_datap b) (\<lambda>d. let bn = rd32 d (4 * i) in
     if bn > 0 then thenp (bfree (i_bf im) (i_dev ino) bn) (retp None) else retp None)"

definition itruncate :: "image \<Rightarrow> nat \<Rightarrow> inode \<Rightarrow> ('z kern_scheme, unit) prog" where
  "itruncate im g ino =
     thenp (forp 0 NDIRECT (truncate_direct im g ino))
     (bindp (idata_at g) (\<lambda>x. let a = addrs (dnode x) ! NDIRECT in
      thenp (if a > 0 then bindp (breadp (i_dev ino) a) (\<lambda>b.
          thenp (forp 0 NINDIRECT (truncate_indirect im ino b)) (thenp (drop_bufp b)
          (thenp (bfree (i_bf im) (i_dev ino) a) (upd_dinode g (\<lambda>n. n\<lparr>addrs := (addrs n)[NDIRECT := 0]\<rparr>)))))
        else retp ())
      (thenp (upd_dinode g (\<lambda>n. n\<lparr>d_size := 0\<rparr>)) (iupdate g))))"

definition iput :: "image \<Rightarrow> inode \<Rightarrow> ('z kern_scheme, unit) prog" where
  "iput im ino = (let i = i_index ino in bindp (imeta_at i) (\<lambda>m.
     if refs m = 1
     then thenp (lock_idata i) (bindp (idata_at i) (\<lambda>x.
       if \<not> id_valid x \<or> nlink (dnode x) > 0
       then thenp (upd_idata i (\<lambda>x. x\<lparr>id_valid := False\<rparr>)) (thenp (drop_guard i) (set_refs i 0))
       else thenp (upd_dinode i (\<lambda>n. n\<lparr>itype := Empty\<rparr>)) (thenp (itruncate im i ino)
         (thenp (upd_idata i (\<lambda>x. x\<lparr>id_valid := False\<rparr>)) (thenp (drop_guard i)
         (bindp (imeta_at i) (\<lambda>m. bindp (liftp (usub (refs m) 1)) (\<lambda>n.
          thenp (set_refs i n) (assertp (n = 0) ''assertion failed'')))))))))
     else bindp (liftp (usub (refs m) 1)) (set_refs i)))"

definition iget :: "nat \<Rightarrow> nat \<Rightarrow> ('z kern_scheme, inode) prog" where
  "iget dev inum = bindp (getp imeta) (\<lambda>ms.
     case find (\<lambda>i. m_inum (ms ! i) = inum \<and> refs (ms ! i) > 0 \<and> m_dev (ms ! i) = dev) [0..<NINODE] of
       Some i \<Rightarrow> bindp (liftp (uadd (refs (ms ! i)) 1)) (\<lambda>n. thenp (set_refs i n) (retp \<lparr>i_dev = dev, i_inum = inum, i_index = i\<rparr>))
     | None \<Rightarrow> (case find (\<lambda>i. refs (ms ! i) = 0) [0..<NINODE] of
         None \<Rightarrow> panicp ''inode: not enough''
       | Some i \<Rightarrow> thenp (modp (\<lambda>s. s\<lparr>imeta := (imeta s)[i := (imeta s ! i)\<lparr>m_dev := dev, m_inum := inum, refs := 1\<rparr>]\<rparr>))
           (thenp (lock_idata i) (bindp (idata_at i) (\<lambda>x.
            thenp (assertp (\<not> id_valid x) ''idata must be invalid'') (thenp (drop_guard i)
            (retp \<lparr>i_dev = dev, i_inum = inum, i_index = i\<rparr>)))))))"

text \<open>\<open>InodeCache::alloc\<close>; \<open>Some\<close> of the loop is the allocated inode.\<close>

definition ialloc_round :: "nat \<Rightarrow> InodeType \<Rightarrow> nat \<Rightarrow> ('z kern_scheme, inode option) prog" where
  "ialloc_round dev t inum = bindp (locate_inode inum) (\<lambda>bn. bindp (breadp dev bn) (\<lambda>b. bindp (raw_datap b) (\<lambda>d.
     bindp (liftp (try_alloc d (locate_inode_offset inum * sizeof_dinode) t)) (\<lambda>(ok, d').
     if ok then thenp (raw_data_mutp b d') (thenp (log_write b) (bindp (iget dev inum) (\<lambda>ino. retp (Some ino))))
     else thenp (drop_bufp b) (retp None)))))"

definition ialloc :: "nat \<Rightarrow> InodeType \<Rightarrow> ('z kern_scheme, inode option) prog" where
  "ialloc dev t = bindp ninodesp (\<lambda>n. forp 1 n (ialloc_round dev t))"

text \<open>\<open>Inode::lock\<close>: the result is the guard, the index in the cache.\<close>

definition ilock :: "inode \<Rightarrow> ('z kern_scheme, nat) prog" where
  "ilock ino = (let i = i_index ino in
     thenp (assertp (i < NINODE) ''index must less than NINODE'') (thenp (lock_idata i) (bindp (idata_at i) (\<lambda>x.
     if id_valid x then retp i
     else bindp (locate_inode (i_inum ino)) (\<lambda>bn. bindp (breadp (i_dev ino) bn) (\<lambda>b. bindp (raw_datap b) (\<lambda>d.
       bindp (liftp (read_dinode d (locate_inode_offset (i_inum ino) * sizeof_dinode))) (\<lambda>n.
       thenp (drop_bufp b)
       (thenp (upd_idata i (\<lambda>x. x\<lparr>dnode := n, id_valid := True, id_dev := i_dev ino, id_inum := i_inum ino\<rparr>))
       (if itype n = Empty then panicp ''inode lock: trying to lock an inode whose type is empty.''
        else retp i))))))))))"

text \<open>The block of a file; a missing block is allocated.\<close>

definition bmap :: "nat \<Rightarrow> nat \<Rightarrow> ('z kern_scheme, string + nat) prog" where
  "bmap g bn = bindp (idata_at g) (\<lambda>x.
     if bn < NDIRECT then
       if addrs (dnode x) ! bn = 0
       then bindp (balloc (id_dev x)) (\<lambda>a. thenp (upd_dinode g (\<lambda>n. n\<lparr>addrs := (addrs n)[bn := a]\<rparr>)) (retp (Inr a)))
       else retp (Inr (addrs (dnode x) ! bn))
     else if bn < NINDIRECT + NDIRECT then
       bindp (if addrs (dnode x) ! NDIRECT = 0
          then bindp (balloc (id_dev x)) (\<lambda>a. thenp (upd_dinode g (\<lambda>n. n\<lparr>addrs := (addrs n)[NDIRECT := a]\<rparr>)) (retp a))
          else retp (addrs (dnode x) ! NDIRECT)) (\<lambda>ind.
       bindp (breadp (id_dev x) ind) (\<lambda>b. bindp (raw_datap b) (\<lambda>d.
       let a = rd32 d (4 * (bn - NDIRECT)) in
       if a = 0
       then bindp (balloc (id_dev x)) (\<lambda>a. bindp (raw_datap b) (\<lambda>d.
         thenp (raw_data_mutp b (wr32 d (4 * (bn - NDIRECT)) a)) (thenp (log_write b) (retp (Inr a)))))
       else thenp (drop_bufp b) (retp (Inr a)))))
     else panicp ''inode bmap: out of range.'')"

text \<open>
  The current process as the copies of \<open>memory/mod.rs\<close> see it, and copies from and to a buffer.
\<close>

definition myproc_pgt :: "'z kproc_scheme \<Rightarrow> nat option option" where
  "myproc_pgt s = map_option (\<lambda>i. pagetable (pdata (procs s ! i))) (cur s)"

definition copy_buf_out :: "image \<Rightarrow> bool \<Rightarrow> nat \<Rightarrow> buf \<Rightarrow> nat \<Rightarrow> nat \<Rightarrow> ('z fsdev_scheme, string + unit) prog" where
  "copy_buf_out im user dst b off len s =
     (let a = buf_addr im (b_index b); st = (mem s)\<lparr>ram := write_bytes (ram (mem s)) a (raw_data (cache s) b)\<rparr> in
      bnd (copy_from_kernel (i_bf im) st (myproc_pgt s) user dst (a + off) len) (\<lambda>(r, st'). Ret (r, s\<lparr>mem := st'\<rparr>)))"

definition copy_buf_in :: "image \<Rightarrow> buf \<Rightarrow> nat \<Rightarrow> bool \<Rightarrow> nat \<Rightarrow> nat \<Rightarrow> ('z fsdev_scheme, string + unit) prog" where
  "copy_buf_in im b off user src len s =
     (let a = buf_addr im (b_index b); m = write_bytes (ram (mem s)) a (raw_data (cache s) b) in
      bnd (copy_to_kernel m (myproc_pgt s) (a + off) user src len) (\<lambda>(r, m').
        Ret (r, s\<lparr>mem := (mem s)\<lparr>ram := m'\<rparr>, cache := raw_data_mut (cache s) b (read_bytes m' a BSIZE)\<rparr>)))"

text \<open>
  The loops of \<open>read\<close> and \<open>write\<close>. Every round copies at least one byte, so that \<open>count\<close> rounds are
  enough.
\<close>

primrec iread_loop :: "nat \<Rightarrow> image \<Rightarrow> nat \<Rightarrow> bool \<Rightarrow> nat \<Rightarrow> nat \<Rightarrow> nat \<Rightarrow> nat \<Rightarrow> ('z kern_scheme, string + nat) prog" where
  "iread_loop 0 im g user dst off tot count =
     (if tot < count then panicp ''endless loop'' else retp (Inr tot))"
| "iread_loop (Suc fuel) im g user dst off tot count =
     (if tot < count then
        tryp (bmap g (off div BSIZE)) (\<lambda>bn. bindp (idata_at g) (\<lambda>x. bindp (breadp (id_dev x) bn) (\<lambda>b.
        let n = min (count - tot) (BSIZE - off mod BSIZE) in
        bindp (copy_buf_out im user dst b (off mod BSIZE) n) (\<lambda>r.
        case r of
          Inl e \<Rightarrow> thenp (drop_bufp b) (retp (Inl ''inode read: Fail to either copy out.''))
        | Inr _ \<Rightarrow> thenp (drop_bufp b) (bindp (liftp (uadd dst n)) (\<lambda>dst'.
            iread_loop fuel im g user dst' (off + n) (tot + n) count))))))
      else retp (Inr tot))"

definition iread :: "image \<Rightarrow> nat \<Rightarrow> bool \<Rightarrow> nat \<Rightarrow> nat \<Rightarrow> nat \<Rightarrow> ('z kern_scheme, string + nat) prog" where
  "iread im g user dst off count =
     (if off + count \<ge> u32_lim then retp (Inl ''Fail to add count.'')
      else bindp (idata_at g) (\<lambda>x.
        if off + count > d_size (dnode x) then retp (Inl ''inode read: end is more than diskinode's size.'')
        else iread_loop count im g user dst off 0 count))"

primrec iwrite_loop :: "nat \<Rightarrow> image \<Rightarrow> nat \<Rightarrow> bool \<Rightarrow> nat \<Rightarrow> nat \<Rightarrow> nat \<Rightarrow> nat \<Rightarrow> ('z kern_scheme, string + nat) prog" where
  "iwrite_loop 0 im g user src off tot count =
     (if tot < count then panicp ''endless loop'' else retp (Inr off))"
| "iwrite_loop (Suc fuel) im g user src off tot count =
     (if tot < count then
        tryp (bmap g (off div BSIZE)) (\<lambda>bn. bindp (idata_at g) (\<lambda>x. bindp (breadp (id_dev x) bn) (\<lambda>b.
        let n = min (count - tot) (BSIZE - off mod BSIZE) in
        bindp (copy_buf_in im b (off mod BSIZE) user src n) (\<lambda>r.
        case r of
          Inl e \<Rightarrow> thenp (drop_bufp b) (retp (Inl ''inode write: Fail to either copy in''))
        | Inr _ \<Rightarrow> bindp (liftp (uadd src n)) (\<lambda>src'. thenp (log_write b)
            (iwrite_loop fuel im g user src' (off + n) (tot + n) count))))))
      else retp (Inr off))"

definition iwrite :: "image \<Rightarrow> nat \<Rightarrow> bool \<Rightarrow> nat \<Rightarrow> nat \<Rightarrow> nat \<Rightarrow> ('z kern_scheme, string + nat) prog" where
  "iwrite im g user src off count =
     tryp (iwrite_loop count im g user src off 0 count) (\<lambda>e1.
     thenp (upd_dinode g (\<lambda>n. if d_size n < e1 mod u32_lim then n\<lparr>d_size := e1 mod u32_lim\<rparr> else n))
     (thenp (iupdate g) (retp (Inr count))))"

end
