(* ===== verification/Directory.thy ===== *)
theory Directory
  imports InodeCache
begin

text \<open>
  Directories and path names (\<open>fs/inode.rs\<close>): entries of \<open>sizeof_dirent\<close> bytes in the file of the
  directory, read one at a time into a local variable at \<open>local_addr\<close>.
\<close>

text \<open>The local \<open>DirEntry\<close>.\<close>

definition set_local :: "image \<Rightarrow> 8 word list \<Rightarrow> ('z fsdev_scheme, unit) prog" where
  "set_local im bs = modp (\<lambda>s. s\<lparr>mem := (mem s)\<lparr>ram := write_bytes (ram (mem s)) (local_addr im) bs\<rparr>\<rparr>)"

definition get_local :: "image \<Rightarrow> ('z fsdev_scheme, 8 word list) prog" where
  "get_local im = getp (\<lambda>s. read_bytes (ram (mem s)) (local_addr im) sizeof_dirent)"

text \<open>The comparison of an entry with a name: \<open>name[i]\<close> out of range is a panic.\<close>

primrec name_eq_from :: "nat \<Rightarrow> nat \<Rightarrow> 8 word list \<Rightarrow> 8 word list \<Rightarrow> bool outcome" where
  "name_eq_from 0 i de name = Ret False"
| "name_eq_from (Suc n) i de name =
     (if i \<ge> length name then Panic ''index out of bounds''
      else if de ! i \<noteq> name ! i then Ret False
      else if de ! i = 0 then Ret True
      else name_eq_from n (Suc i) de name)"

definition name_eq :: "8 word list \<Rightarrow> 8 word list \<Rightarrow> bool outcome" where
  "name_eq de name = name_eq_from DIRSIZ 0 de name"

definition dir_lookup_round :: "image \<Rightarrow> nat \<Rightarrow> 8 word list \<Rightarrow> nat \<Rightarrow> ('z kern_scheme, inode option) prog" where
  "dir_lookup_round im g name k =
     bindp (iread im g False (local_addr im) (k * sizeof_dirent) sizeof_dirent) (\<lambda>r.
     case r of Inl e \<Rightarrow> panicp ''Cannot read entry in this dir''
     | Inr _ \<Rightarrow> bindp (get_local im) (\<lambda>de.
         if rd16 de 0 = 0 then retp None
         else bindp (liftp (name_eq (drop 2 de) name)) (\<lambda>eq.
           if eq then bindp (idata_at g) (\<lambda>x. bindp (iget (id_dev x) (rd16 de 0)) (\<lambda>ino. retp (Some ino)))
           else retp None)))"

text \<open>\<open>(0..size).step_by(16)\<close> has \<open>ceil (size / 16)\<close> values.\<close>

definition entry_count :: "nat \<Rightarrow> nat" where
  "entry_count sz = (sz + sizeof_dirent - 1) div sizeof_dirent"

definition dir_lookup :: "image \<Rightarrow> nat \<Rightarrow> 8 word list \<Rightarrow> ('z kern_scheme, inode option) prog" where
  "dir_lookup im g name = bindp (idata_at g) (\<lambda>x.
     if itype (dnode x) \<noteq> Directory then panicp ''inode type is not directory''
     else thenp (set_local im dirent_new) (forp 0 (entry_count (d_size (dnode x))) (dir_lookup_round im g name)))"

text \<open>
  The search of \<open>dir_link\<close> for a free entry: the result is the error of \<open>read\<close> or the offset at which
  the entry is written.
\<close>

primrec free_entry :: "nat \<Rightarrow> image \<Rightarrow> nat \<Rightarrow> nat \<Rightarrow> ('z kern_scheme, string + nat) prog" where
  "free_entry 0 im g k = retp (Inr (k * sizeof_dirent))"
| "free_entry (Suc n) im g k =
     tryp (iread im g False (local_addr im) (k * sizeof_dirent) sizeof_dirent) (\<lambda>_.
     bindp (get_local im) (\<lambda>de.
     if rd16 de 0 = 0 then retp (Inr (Suc k * sizeof_dirent)) else free_entry n im g (Suc k)))"

definition dir_link :: "image \<Rightarrow> nat \<Rightarrow> 8 word list \<Rightarrow> nat \<Rightarrow> ('z kern_scheme, string + unit) prog" where
  "dir_link im g name inum = bindp (dir_lookup im g name) (\<lambda>r.
     case r of
       Some ino \<Rightarrow> thenp (iput im ino) (retp (Inl ''It's incorrect to find entry in disk''))
     | None \<Rightarrow> thenp (set_local im dirent_new) (bindp (idata_at g) (\<lambda>x.
         tryp (free_entry (entry_count (d_size (dnode x))) im g 0) (\<lambda>off.
         bindp (get_local im) (\<lambda>de.
         if length name > DIRSIZ then panicp ''write past the end of the name''
         else thenp (set_local im (wr16 (put_bytes de 2 name) 0 (inum mod 2 ^ 16)))
           (tryp (iwrite im g False (local_addr im) off sizeof_dirent) (\<lambda>_. retp (Inr ()))))))))"

definition dir_empty_round :: "image \<Rightarrow> nat \<Rightarrow> nat \<Rightarrow> ('z kern_scheme, bool option) prog" where
  "dir_empty_round im g k =
     bindp (iread im g False (local_addr im) (k * sizeof_dirent) sizeof_dirent) (\<lambda>r.
     case r of Inl e \<Rightarrow> panicp ''is_dir_empty(): Fail to read dir content''
     | Inr _ \<Rightarrow> bindp (get_local im) (\<lambda>de. retp (if rd16 de 0 \<noteq> 0 then Some True else None)))"

definition is_dir_empty :: "image \<Rightarrow> nat \<Rightarrow> ('z kern_scheme, bool) prog" where
  "is_dir_empty im g = thenp (set_local im dirent_new) (bindp (idata_at g) (\<lambda>x.
     bindp (forp 2 (entry_count (d_size (dnode x) - 2 * sizeof_dirent)) (dir_empty_round im g)) (\<lambda>r.
     retp (r = Some True))))"

text \<open>Path names: bytes that end with 0; every access of \<open>path[cur]\<close> is checked. 47 is \<open>/\<close>.\<close>

function skip_slashes :: "8 word list \<Rightarrow> nat \<Rightarrow> nat outcome" where
  "skip_slashes path pos = (if pos \<ge> length path then Panic ''index out of bounds''
     else if path ! pos = 47 then skip_slashes path (Suc pos) else Ret pos)"
  by pat_completeness auto
termination
  by (relation "measure (\<lambda>(path, pos). length path - pos)") auto

function skip_elem :: "8 word list \<Rightarrow> nat \<Rightarrow> nat outcome" where
  "skip_elem path pos = (if pos \<ge> length path then Panic ''index out of bounds''
     else if path ! pos \<noteq> 47 \<and> path ! pos \<noteq> 0 then skip_elem path (Suc pos) else Ret pos)"
  by pat_completeness auto
termination
  by (relation "measure (\<lambda>(path, pos). length path - pos)") auto

declare skip_slashes.simps [simp del] skip_elem.simps [simp del]

definition skip_path :: "8 word list \<Rightarrow> nat \<Rightarrow> 8 word list \<Rightarrow> (nat \<times> 8 word list) outcome" where
  "skip_path path pos name = bnd (skip_slashes path pos) (\<lambda>st.
     if path ! st = 0 then Ret (0, name)
     else bnd (skip_elem path st) (\<lambda>en.
       if en - st \<ge> length name then Panic ''assertion failed''
       else let name' = (put_bytes name 0 (get_bytes path st (en - st)))[en - st := 0] in
         bnd (skip_slashes path en) (\<lambda>c. Ret (c, name'))))"

text \<open>
  The walk of \<open>namex\<close>. Every round moves \<open>cur\<close> forward, so that \<open>length path\<close> rounds are enough. The
  result is the inode and the last path element.
\<close>

primrec namex_loop :: "nat \<Rightarrow> image \<Rightarrow> 8 word list \<Rightarrow> bool \<Rightarrow> inode \<Rightarrow> nat \<Rightarrow> 8 word list \<Rightarrow>
    ('z kern_scheme, inode option \<times> 8 word list) prog" where
  "namex_loop 0 im path is_parent ino pos name = panicp ''endless loop''"
| "namex_loop (Suc fuel) im path is_parent ino pos name =
     bindp (liftp (skip_path path pos name)) (\<lambda>(pos', name').
     if pos' = 0 then
       if is_parent then thenp (iput im ino) (retp (None, name')) else retp (Some ino, name')
     else bindp (ilock ino) (\<lambda>g. bindp (idata_at g) (\<lambda>x.
       if itype (dnode x) \<noteq> Directory
       then thenp (drop_guard g) (thenp (iput im ino) (retp (None, name')))
       else if is_parent \<and> pos' \<ge> length path then panicp ''index out of bounds''
       else if is_parent \<and> path ! pos' = 0
       then thenp (drop_guard g) (retp (Some ino, name'))
       else bindp (dir_lookup im g name') (\<lambda>r.
         case r of
           None \<Rightarrow> thenp (drop_guard g) (thenp (iput im ino) (retp (None, name')))
         | Some lst \<Rightarrow> thenp (drop_guard g) (thenp (iput im ino)
             (namex_loop fuel im path is_parent lst pos' name'))))))"

definition namex :: "image \<Rightarrow> 8 word list \<Rightarrow> 8 word list \<Rightarrow> bool \<Rightarrow> ('z kern_scheme, inode option \<times> 8 word list) prog" where
  "namex im path name is_parent =
     (if path = [] then panicp ''index out of bounds''
      else bindp (if path ! 0 = 47 then iget ROOTDEV ROOTINUM
        else bindp (getp (\<lambda>s. (cur s, procs s))) (\<lambda>(c, ps). bindp (unwrapp ''unwrap'' c) (\<lambda>i.
          bindp (unwrapp ''unwrap'' (cwd (pdata (ps ! i)))) idup)))
      (\<lambda>ino. namex_loop (Suc (length path)) im path is_parent ino 0 name))"

definition namei :: "image \<Rightarrow> 8 word list \<Rightarrow> ('z kern_scheme, inode option) prog" where
  "namei im path = bindp (namex im path (replicate DIRSIZ 0) False) (\<lambda>(r, _). retp r)"

definition namei_parent :: "image \<Rightarrow> 8 word list \<Rightarrow> 8 word list \<Rightarrow> ('z kern_scheme, inode option \<times> 8 word list) prog" where
  "namei_parent im path name = namex im path name True"

text \<open>
  \<open>create\<close>: a new inode, with the entries \<open>.\<close> and \<open>..\<close> if it is a directory, linked in its parent. On
  an early return the guards and inodes are dropped in the reverse order of their declaration.
\<close>

definition create_found :: "image \<Rightarrow> InodeType \<Rightarrow> inode \<Rightarrow> inode \<Rightarrow> nat \<Rightarrow> ('z kern_scheme, string + inode) prog" where
  "create_found im t dirino ino dg =
     thenp (drop_guard dg) (bindp (ilock ino) (\<lambda>g. bindp (idata_at g) (\<lambda>x.
     if (itype (dnode x) = Device \<or> itype (dnode x) = File) \<and> t = File
     then thenp (drop_guard g) (thenp (iput im dirino) (retp (Inr ino)))
     else thenp (drop_guard g) (thenp (iput im ino) (thenp (iput im dirino)
       (retp (Inl ''create: unmatched type.'')))))))"

definition create_fail :: "image \<Rightarrow> inode \<Rightarrow> inode \<Rightarrow> nat \<Rightarrow> nat \<Rightarrow> string \<Rightarrow> ('z kern_scheme, string + inode) prog" where
  "create_fail im dirino ino dg g e =
     thenp (drop_guard g) (thenp (iput im ino) (thenp (drop_guard dg) (thenp (iput im dirino) (retp (Inl e)))))"

definition create_dots :: "image \<Rightarrow> nat \<Rightarrow> nat \<Rightarrow> inode \<Rightarrow> ('z kern_scheme, string + unit) prog" where
  "create_dots im dg g ino =
     bindp (idata_at g) (\<lambda>x. bindp (liftp (add_i16 (nlink (dnode x)) 1)) (\<lambda>l.
     thenp (upd_dinode g (\<lambda>n. n\<lparr>nlink := l\<rparr>)) (thenp (iupdate g)
     (tryp (dir_link im g [46] (i_inum ino)) (\<lambda>_.
      bindp (idata_at dg) (\<lambda>dx. dir_link im g [46, 46] (id_inum dx)))))))"

definition create_new :: "image \<Rightarrow> InodeType \<Rightarrow> int \<Rightarrow> int \<Rightarrow> 8 word list \<Rightarrow> inode \<Rightarrow> nat \<Rightarrow> ('z kern_scheme, string + inode) prog" where
  "create_new im t mj mn name dirino dg =
     bindp (idata_at dg) (\<lambda>dx. bindp (inode_alloc (id_dev dx) t) (\<lambda>inum. bindp (iget (id_dev dx) inum) (\<lambda>ino.
     bindp (ilock ino) (\<lambda>g.
     thenp (upd_dinode g (\<lambda>n. n\<lparr>d_major := mj, d_minor := mn, nlink := 1\<rparr>)) (thenp (iupdate g)
     (bindp (idata_at g) (\<lambda>x. thenp (assertp (itype (dnode x) = t) ''assertion failed'')
     (bindp (if t = Directory then create_dots im dg g ino else retp (Inr ())) (\<lambda>r.
      case r of
        Inl e \<Rightarrow> create_fail im dirino ino dg g e
      | Inr _ \<Rightarrow> bindp (idata_at g) (\<lambda>x. bindp (dir_link im dg name (id_inum x)) (\<lambda>r.
          case r of
            Inl e \<Rightarrow> panicp ''Parent inode fail to link''
          | Inr _ \<Rightarrow> thenp (drop_guard g) (thenp (drop_guard dg) (thenp (iput im dirino) (retp (Inr ino)))))))))))))))"

definition create :: "image \<Rightarrow> 8 word list \<Rightarrow> InodeType \<Rightarrow> int \<Rightarrow> int \<Rightarrow> ('z kern_scheme, string + inode) prog" where
  "create im path t mj mn = bindp (namei_parent im path (replicate DIRSIZ 0)) (\<lambda>(p, name).
     bindp (unwrapp ''unwrap'' p) (\<lambda>dirino. bindp (ilock dirino) (\<lambda>dg. bindp (dir_lookup im dg name) (\<lambda>r.
     case r of Some ino \<Rightarrow> create_found im t dirino ino dg | None \<Rightarrow> create_new im t mj mn name dirino dg))))"

end
