(* ===== verification/Frames.thy ===== *)
theory Frames
  imports Directory
begin

text \<open>
  Two properties of programs that hold by their composition. \<open>quietp e m\<close>: \<open>m\<close> does not end with the
  panic \<open>e\<close>, from any state. \<open>keeps P m\<close>: whenever \<open>m\<close> returns from a state with \<open>P\<close>, the new state has \<open>P\<close>.
  The rules are collected in \<open>quiet\<close> and \<open>frame\<close>; the lemmas below go through the routines of the
  heap, the page tables, the buffer cache, the log and the inodes from the bottom up.
\<close>

named_theorems quiet
named_theorems frame

subsection \<open>Programs without a given panic\<close>

definition quiet_o :: "string \<Rightarrow> 'a outcome \<Rightarrow> bool" where
  "quiet_o e x \<longleftrightarrow> x \<noteq> Panic e"

definition quietp :: "string \<Rightarrow> ('s, 'a) prog \<Rightarrow> bool" where
  "quietp e m \<longleftrightarrow> (\<forall>s. quiet_o e (m s))"

lemma quiet_o_rules [quiet]:
  "quiet_o e (Ret x)" "e' \<noteq> e \<Longrightarrow> quiet_o e (Panic e')"
  "quiet_o e m \<Longrightarrow> (\<And>x. m = Ret x \<Longrightarrow> quiet_o e (f x)) \<Longrightarrow> quiet_o e (bnd m f)"
  "(b \<Longrightarrow> quiet_o e m) \<Longrightarrow> (\<not> b \<Longrightarrow> quiet_o e k) \<Longrightarrow> quiet_o e (if b then m else k)"
  "(\<And>a b. p = (a, b) \<Longrightarrow> quiet_o e (g a b)) \<Longrightarrow> quiet_o e (case p of (a, b) \<Rightarrow> g a b)"
  "(q = None \<Longrightarrow> quiet_o e n) \<Longrightarrow> (\<And>x. q = Some x \<Longrightarrow> quiet_o e (h x)) \<Longrightarrow> quiet_o e (case q of None \<Rightarrow> n | Some x \<Rightarrow> h x)"
  "(\<And>x. quiet_o e (u x)) \<Longrightarrow> (\<And>x. quiet_o e (w x)) \<Longrightarrow> quiet_o e (case r of Inl x \<Rightarrow> u x | Inr x \<Rightarrow> w x)"
  "quiet_o e (t v) \<Longrightarrow> quiet_o e (Let v t)"
  by (auto simp: quiet_o_def Let_def split: outcome.splits prod.splits option.splits sum.splits) (cases m; auto)

lemma quietp_rules [quiet]:
  "quietp e (retp x)" "e' \<noteq> e \<Longrightarrow> quietp e (panicp e')" "quietp e (getp f0)" "quietp e (modp g0)"
  "quiet_o e y \<Longrightarrow> quietp e (liftp y)"
  "quietp e m \<Longrightarrow> (\<And>x. quietp e (f x)) \<Longrightarrow> quietp e (bindp m f)" "quietp e m1 \<Longrightarrow> quietp e k1 \<Longrightarrow> quietp e (thenp m1 k1)"
  "(b \<Longrightarrow> quietp e m) \<Longrightarrow> (\<not> b \<Longrightarrow> quietp e k) \<Longrightarrow> quietp e (if b then m else k)"
  "(\<And>a b. quietp e (g a b)) \<Longrightarrow> quietp e (case p of (a, b) \<Rightarrow> g a b)"
  "quietp e n \<Longrightarrow> (\<And>x. quietp e (h x)) \<Longrightarrow> quietp e (case q of None \<Rightarrow> n | Some x \<Rightarrow> h x)"
  "(\<And>x. quietp e (u x)) \<Longrightarrow> (\<And>x. quietp e (w x)) \<Longrightarrow> quietp e (case r of Inl x \<Rightarrow> u x | Inr x \<Rightarrow> w x)"
  "quietp e (t v) \<Longrightarrow> quietp e (Let v t)"
  by (auto simp: quietp_def prog_run split: prod.splits option.splits sum.splits intro!: quiet)

lemma quietp_more [quiet]:
  "quietp e m' \<Longrightarrow> (\<And>x. quietp e (f' x)) \<Longrightarrow> quietp e (tryp m' f')"
  "e' \<noteq> e \<Longrightarrow> quietp e (assertp b e')" "e' \<noteq> e \<Longrightarrow> quietp e (unwrapp e' q)"
  by (auto simp: tryp_def assertp_def unwrapp_def intro!: quiet)

lemma quietp_for [quiet]: "(\<And>i. quietp e (body i)) \<Longrightarrow> quietp e (forp i n body)"
  by (induction n arbitrary: i) (auto intro!: quiet)

abbreviation ENDLESS :: string where
  "ENDLESS \<equiv> ''endless loop''"

text \<open>Checked arithmetic, and the heap.\<close>

lemma quiet_arith [quiet]:
  "quiet_o ENDLESS (usub a b)" "quiet_o ENDLESS (uadd a b)" "quiet_o ENDLESS (umul a b)" "quiet_o ENDLESS (udiv a b)"
  "quiet_o ENDLESS (umod a b)" "quiet_o ENDLESS (ushl1 a)" "quiet_o ENDLESS (add32 a b)"
  by (simp_all add: quiet_o_def usub_def uadd_def umul_def udiv_def umod_def ushl1_def add32_def)

lemma quiet_blocks [quiet]:
  "quiet_o ENDLESS (get_info_mut s k)" "quiet_o ENDLESS (blk_size s k)" "quiet_o ENDLESS (max_size s)"
  "quiet_o ENDLESS (alloc_set bf info i v)" "quiet_o ENDLESS (split_set bf info i v)"
  "quiet_o ENDLESS (is_alloc_set bf info i)" "quiet_o ENDLESS (is_split_set bf info i)"
  "quiet_o ENDLESS (list_push m a b)" "quiet_o ENDLESS (list_pop m a)"
  by (auto simp: get_info_mut_def blk_size_def max_size_def alloc_set_def split_set_def is_alloc_set_def is_split_set_def
      list_push_def list_pop_def intro!: quiet)

lemma quiet_index [quiet]:
  "quiet_o ENDLESS (blk_index s k a)" "quiet_o ENDLESS (blk_addr s k a)" "quiet_o ENDLESS (push_free s k a)" "quiet_o ENDLESS (small_size s n)"
  by (auto simp: blk_index_def blk_addr_def push_free_def small_size_def intro!: quiet)

lemma quiet_upd_info [quiet]: "(\<And>x. quiet_o ENDLESS (f x)) \<Longrightarrow> quiet_o ENDLESS (upd_info s k f)"
  by (auto simp: upd_info_def intro!: quiet)

lemma quiet_find_free [quiet]: "quiet_o ENDLESS (find_free s i)"
  by (induction s i rule: find_free.induct) (subst find_free.simps, auto intro!: quiet)

lemma quiet_split_down [quiet]: "quiet_o ENDLESS (split_down bf s a i j)"
proof (induction bf s a i j rule: split_down.induct)
  case (1 bf s a i j)
  have "quiet_o ENDLESS (split_level bf s a i)" by (auto simp: split_level_def intro!: quiet)
  with 1 show ?case by (subst split_down.simps) (auto intro!: quiet)
qed

lemma quiet_find_split [quiet]: "quiet_o ENDLESS (find_split bf s a n i)"
  by (induction bf s a n i rule: find_split.induct) (subst find_split.simps, auto intro!: quiet)

lemma quiet_coalesce [quiet]: "quiet_o ENDLESS (coalesce bf s a n i)"
proof (induction bf s a n i rule: coalesce.induct)
  case (1 bf s a n i)
  have "quiet_o ENDLESS (coalesce_level bf s a i)" by (auto simp: coalesce_level_def intro!: quiet)
  with 1 show ?case by (subst coalesce.simps) (auto intro!: quiet)
qed

lemma quiet_heap [quiet]: "quiet_o ENDLESS (box_alloc bf s l)" "quiet_o ENDLESS (heap_dealloc bf s a l)"
  by (auto simp: box_alloc_def heap_alloc_def bs_alloc_def heap_dealloc_def bs_dealloc_def intro!: quiet)

text \<open>The copies, the buffer cache and the log.\<close>

lemma quiet_unwrap [quiet]: "quiet_o ENDLESS (unwrap x)" "quiet_o ENDLESS (add_page va)"
  by (auto simp: unwrap_def add_page_def intro!: quiet)

lemma quiet_copy_out_loop [quiet]: "quiet_o ENDLESS (copy_out_loop m root src va count off dst len)"
  by (induction m root src va count off dst len rule: copy_out_loop.induct) (subst copy_out_loop.simps, auto intro!: quiet)

lemma quiet_copy_in_loop [quiet]: "quiet_o ENDLESS (copy_in_loop m root dst src va len)"
  by (induction m root dst src va len rule: copy_in_loop.induct) (subst copy_in_loop.simps, auto intro!: quiet)

lemma quiet_copies [quiet]:
  "quiet_o ENDLESS (copy_from_kernel bf st p user dst src len)" "quiet_o ENDLESS (copy_to_kernel m p dst user src len)"
  by (auto simp: copy_from_kernel_def copy_out_def temp_buffer_def copy_to_kernel_def copy_in_def intro!: quiet)

lemma quiet_ctrl [quiet]: "quiet_o ENDLESS (ctrl_at l i)"
  by (auto simp: ctrl_at_def intro!: quiet)

lemma quiet_find_cached [quiet]: "quiet_o ENDLESS (find_cached_loop n l d b p)"
  by (induction n l d b p rule: find_cached_loop.induct) (auto intro!: quiet)

lemma quiet_recycle [quiet]: "quiet_o ENDLESS (recycle_loop n l d b p)"
  by (induction n l d b p rule: recycle_loop.induct) (auto intro!: quiet)

lemma quiet_buf [quiet]: "quiet_o ENDLESS (lock_buf c i)" "quiet_o ENDLESS (set_valid c i v)" "quiet_o ENDLESS (move_if_no_ref l i)"
  by (auto simp: lock_buf_def set_valid_def move_if_no_ref_def intro!: quiet)

lemma quiet_bget [quiet]: "quiet_o ENDLESS (bget c d b)"
  by (auto simp: bget_def find_cached_def recycle_def intro!: quiet)

lemma quiet_cache [quiet]:
  "quietp ENDLESS (breadp d b)" "quietp ENDLESS (raw_datap h)" "quietp ENDLESS (raw_data_mutp h x)"
  "quietp ENDLESS (drop_bufp h)" "quietp ENDLESS (pinp h)"
  by (auto simp: quietp_def breadp_def bread_def raw_datap_def raw_data_mutp_def drop_bufp_def drop_buf_def brelse_def
      pinp_def pin_def getp_def modp_def intro!: quiet)

lemma quiet_copy_buf [quiet]: "quietp ENDLESS (copy_buf_out im user dst b off len)" "quietp ENDLESS (copy_buf_in im b off user src len)"
  by (auto simp: quietp_def copy_buf_out_def copy_buf_in_def intro!: quiet)

lemma quiet_log [quiet]: "quietp ENDLESS (log_write b)" "quietp ENDLESS sb_read"
  by (auto simp: log_write_def sb_read_def set_lh_def Let_def intro!: quiet)

lemma quiet_sb [quiet]: "quietp ENDLESS (locate_inode i)" "quietp ENDLESS (bitmap_blockno i)" "quietp ENDLESS sb_sizep"
  by (auto simp: locate_inode_def bitmap_blockno_def sb_sizep_def intro!: quiet)

text \<open>Blocks and inodes.\<close>

lemma quiet_scan [quiet]: "quiet_o ENDLESS (balloc_scan d b sz i)"
  by (induction d b sz i rule: balloc_scan.induct) (subst balloc_scan.simps, auto intro!: quiet)

lemma quiet_balloc [quiet]: "quietp ENDLESS (balloc dev)" "quietp ENDLESS (bfree bf dev b)"
  by (auto simp: balloc_def balloc_round_def bfree_def Let_def intro!: quiet)

lemma quiet_idata [quiet]:
  "quietp ENDLESS (imeta_at i)" "quietp ENDLESS (set_refs i n)" "quietp ENDLESS (idata_at i)" "quietp ENDLESS (upd_idata i f)"
  "quietp ENDLESS (upd_dinode i g)" "quietp ENDLESS (lock_idata i)" "quietp ENDLESS (drop_guard i)"
  by (auto simp: imeta_at_def set_refs_def idata_at_def upd_idata_def upd_dinode_def lock_idata_def drop_guard_def intro!: quiet)

lemma quiet_iupdate [quiet]: "quietp ENDLESS (iupdate g)" "quietp ENDLESS (bmap g bn)" "quietp ENDLESS (itruncate im g ino)"
  by (auto simp: iupdate_def bmap_def itruncate_def truncate_direct_def truncate_indirect_def Let_def intro!: quiet)

lemma quiet_inode [quiet]: "quietp ENDLESS (iput im ino)" "quietp ENDLESS (idup ino)" "quietp ENDLESS (iget dev inum)"
  by (auto simp: iput_def idup_def iget_def Let_def intro!: quiet)

lemma quiet_ilock [quiet]: "quietp ENDLESS (ilock ino)"
  by (auto simp: ilock_def read_dinode_def itype_of_def Let_def intro!: quiet)

text \<open>Every round of \<open>read\<close> copies at least one byte, so that the bound of the loop is enough.\<close>

lemma quiet_iread_loop: "count \<le> tot + n \<Longrightarrow> quietp ENDLESS (iread_loop n im g user dst off tot count)"
proof (induction n arbitrary: dst off tot)
  case (Suc n)
  have "count \<le> tot + min (count - tot) (BSIZE - off mod BSIZE) + n" if "tot < count"
  proof -
    have "off mod BSIZE < BSIZE" by (simp add: BSIZE_def)
    then show ?thesis using Suc.prems that by linarith
  qed
  then show ?case using Suc.IH by (auto simp: Let_def intro!: quiet)
qed (auto intro!: quiet)

lemma quiet_iread [quiet]: "quietp ENDLESS (iread im g user dst off count)"
  by (auto simp: iread_def intro!: quiet quiet_iread_loop)

lemma quiet_name [quiet]: "quiet_o ENDLESS (name_eq_from n i de name)" "quiet_o ENDLESS (name_eq de name)"
proof -
  show "quiet_o ENDLESS (name_eq_from n i de name)" for n i by (induction n arbitrary: i) (auto intro!: quiet)
  then show "quiet_o ENDLESS (name_eq de name)" by (simp add: name_eq_def)
qed

lemma quiet_lookup [quiet]: "quietp ENDLESS (dir_lookup im g name)"
  by (auto simp: dir_lookup_def dir_lookup_round_def set_local_def get_local_def intro!: quiet)

subsection \<open>Programs that keep an invariant\<close>

definition keeps :: "('s \<Rightarrow> bool) \<Rightarrow> ('s, 'a) prog \<Rightarrow> bool" where
  "keeps P m \<longleftrightarrow> (\<forall>s x s'. P s \<longrightarrow> m s = Ret (x, s') \<longrightarrow> P s')"

lemma keepsD: "keeps P m \<Longrightarrow> P s \<Longrightarrow> m s = Ret (x, s') \<Longrightarrow> P s'"
  by (auto simp: keeps_def)

lemma keeps_bind [frame]: "keeps P m \<Longrightarrow> (\<And>x. keeps P (f x)) \<Longrightarrow> keeps P (bindp m f)"
  unfolding keeps_def bindp_Ret by blast

lemma keeps_then [frame]: "keeps P m \<Longrightarrow> keeps P k \<Longrightarrow> keeps P (thenp m k)"
  by (simp add: thenp_def keeps_bind)

lemma keeps_basic [frame]:
  "keeps P (retp x)" "keeps P (panicp e)" "keeps P (getp f0)" "(\<And>s. P s \<Longrightarrow> P (g0 s)) \<Longrightarrow> keeps P (modp g0)"
  by (simp_all add: keeps_def retp_def panicp_def getp_def modp_def)

lemma keeps_lift [frame]: "keeps P (liftp y)"
  by (cases y) (simp_all add: keeps_def liftp_def)

lemma keeps_cases [frame]:
  "(b \<Longrightarrow> keeps P m) \<Longrightarrow> (\<not> b \<Longrightarrow> keeps P k) \<Longrightarrow> keeps P (if b then m else k)"
  "(\<And>a b. keeps P (g a b)) \<Longrightarrow> keeps P (case p of (a, b) \<Rightarrow> g a b)"
  "keeps P n \<Longrightarrow> (\<And>x. keeps P (h x)) \<Longrightarrow> keeps P (case q of None \<Rightarrow> n | Some x \<Rightarrow> h x)"
  "(\<And>x. keeps P (u x)) \<Longrightarrow> (\<And>x. keeps P (w x)) \<Longrightarrow> keeps P (case r of Inl x \<Rightarrow> u x | Inr x \<Rightarrow> w x)"
  "keeps P (t v) \<Longrightarrow> keeps P (Let v t)"
  by (simp_all split: prod.splits option.splits sum.splits)

lemma keeps_more [frame]:
  "keeps P m' \<Longrightarrow> (\<And>x. keeps P (f' x)) \<Longrightarrow> keeps P (tryp m' f')" "keeps P (assertp b e')" "keeps P (unwrapp e' q)"
  by (auto simp: tryp_def assertp_def unwrapp_def intro!: frame)

lemma keeps_for [frame]: "(\<And>i. keeps P (body i)) \<Longrightarrow> keeps P (forp i n body)"
  by (induction n arbitrary: i) (auto intro!: frame)

text \<open>The buffers, the log and the inode data leave the table of inodes alone.\<close>

lemma keeps_cache [frame]:
  "keeps (\<lambda>s. Q (imeta s)) (breadp d b)" "keeps (\<lambda>s. Q (imeta s)) (raw_datap h)" "keeps (\<lambda>s. Q (imeta s)) (raw_data_mutp h x)"
  "keeps (\<lambda>s. Q (imeta s)) (drop_bufp h)" "keeps (\<lambda>s. Q (imeta s)) (pinp h)"
  by (auto simp: keeps_def breadp_def raw_datap_def raw_data_mutp_def drop_bufp_def pinp_def getp_def modp_def bnd_eq_Ret split: prod.splits)

lemma keeps_log [frame]: "keeps (\<lambda>s. Q (imeta s)) (log_write b)" "keeps (\<lambda>s. Q (imeta s)) sb_read"
  by (auto simp: log_write_def sb_read_def set_lh_def Let_def intro!: frame)

lemma keeps_sb [frame]: "keeps (\<lambda>s. Q (imeta s)) (locate_inode i)" "keeps (\<lambda>s. Q (imeta s)) (bitmap_blockno i)"
  by (auto simp: locate_inode_def bitmap_blockno_def intro!: frame)

lemma keeps_idata [frame]:
  "keeps (\<lambda>s. Q (imeta s)) (imeta_at i)" "keeps (\<lambda>s. Q (imeta s)) (idata_at i)" "keeps (\<lambda>s. Q (imeta s)) (upd_idata i f)"
  "keeps (\<lambda>s. Q (imeta s)) (upd_dinode i g)" "keeps (\<lambda>s. Q (imeta s)) (lock_idata i)" "keeps (\<lambda>s. Q (imeta s)) (drop_guard i)"
  by (auto simp: imeta_at_def idata_at_def upd_idata_def upd_dinode_def lock_idata_def drop_guard_def intro!: frame)

lemma keeps_itruncate [frame]: "keeps (\<lambda>s. Q (imeta s)) (bfree bf dev bn)" "keeps (\<lambda>s. Q (imeta s)) (iupdate k)"
  "keeps (\<lambda>s. Q (imeta s)) (itruncate im k ino)"
  by (auto simp: bfree_def iupdate_def itruncate_def truncate_direct_def truncate_indirect_def Let_def intro!: frame)

end
