(* ===== verification/FsProps.thy ===== *)
theory FsProps
  imports Frames BlockWords
begin

text \<open>
  The properties of inodes, directories and path names (\<open>fs/dinode.rs\<close>, \<open>fs/inode.rs\<close>).
\<close>

subsection \<open>Path names\<close>

lemma skip_slashes_Ret:
  "skip_slashes path pos = Ret p \<Longrightarrow> pos \<le> p \<and> p < length path \<and> path ! p \<noteq> 47"
proof (induction path pos rule: skip_slashes.induct)
  case (1 path pos)
  from 1(2) show ?case using 1(1) by (subst (asm) skip_slashes.simps) (auto split: if_splits)
qed

lemma skip_elem_Ret: "skip_elem path pos = Ret p \<Longrightarrow> pos \<le> p \<and> p < length path \<and> (path ! p = 47 \<or> path ! p = 0)"
proof (induction path pos rule: skip_elem.induct)
  case (1 path pos)
  from 1(2) show ?case using 1(1) by (subst (asm) skip_elem.simps) (auto split: if_splits)
qed

lemma skip_path_forward:
  assumes "skip_path path pos name = Ret (c, name')"
  shows "c = 0 \<or> pos < c \<and> c < length path"
proof -
  obtain st where st: "skip_slashes path pos = Ret st" using assms by (cases "skip_slashes path pos") (auto simp: skip_path_def)
  show ?thesis
  proof (cases "path ! st = 0")
    case False
    with assms st obtain en where en: "skip_elem path st = Ret en" and c: "skip_slashes path en = Ret c"
      by (cases "skip_elem path st") (auto simp: skip_path_def Let_def bnd_eq_Ret split: if_splits)
    have "en \<noteq> st" using skip_elem_Ret [OF en] skip_slashes_Ret [OF st] False by auto
    then show ?thesis using skip_slashes_Ret [OF st] skip_elem_Ret [OF en] skip_slashes_Ret [OF c] by auto
  qed (use assms st in \<open>simp add: skip_path_def\<close>)
qed

lemma skip_slashes_run: "x \<noteq> 47 \<Longrightarrow> skip_slashes (pre @ replicate a 47 @ x # r) (length pre) = Ret (length pre + a)"
proof (induction a arbitrary: pre)
  case 0
  then show ?case by (subst skip_slashes.simps) simp
next
  case (Suc a)
  then show ?case using Suc.IH [of "pre @ [47]"] by (subst skip_slashes.simps) simp
qed

lemma skip_elem_run:
  "\<forall>c \<in> set el. c \<noteq> 47 \<and> c \<noteq> 0 \<Longrightarrow> x = 47 \<or> x = 0 \<Longrightarrow> skip_elem (pre @ el @ x # r) (length pre) = Ret (length pre + length el)"
proof (induction el arbitrary: pre)
  case Nil
  then show ?case by (subst skip_elem.simps) auto
next
  case (Cons c el)
  then show ?case using Cons.IH [of "pre @ [c]"] by (subst skip_elem.simps) simp
qed

text \<open>C31: \<open>skip_path\<close> splits off the next element of a path. From a position before \<open>a\<close> slashes, an element
  \<open>el\<close> and \<open>b\<close> slashes, it returns the position behind them and the element, ended by 0, in the name; at
  the end of the path it returns 0 and leaves the name; an element that does not fit the name together
  with its 0 is a panic.\<close>

theorem skip_path_splits:
  assumes "path = pre @ replicate a 47 @ el @ replicate b 47 @ x # r" and "x \<noteq> 47" and "b = 0 \<longrightarrow> x = 0"
    and "el = [] \<longrightarrow> b = 0"
    and "\<forall>c \<in> set el. c \<noteq> 47 \<and> c \<noteq> 0"
  shows "skip_path path (length pre) name =
    (if el = [] then Ret (0, name)
     else if length el < length name then Ret (length pre + a + length el + b, el @ 0 # drop (Suc (length el)) name)
     else Panic ''assertion failed'')"
proof -
  have fin: ?thesis if e: "el = []" using skip_slashes_run [of x pre a r] assms(1-4) e by (auto simp: skip_path_def nth_append)
  show ?thesis
  proof (cases "el = []")
    case False
    obtain c cs where el: "el = c # cs" using False by (cases el) auto
    let ?st = "length pre + a" and ?rest = "replicate b 47 @ x # r"
    have s: "skip_slashes path (length pre) = Ret ?st"
      using skip_slashes_run [of c pre a "cs @ ?rest"] assms(1,5) el by simp
    have n: "path ! ?st \<noteq> 0" using assms(1,5) el by (simp add: nth_append)
    obtain y ys where y: "?rest = y # ys" "y = 47 \<or> y = 0" using assms(3) by (cases b) auto
    have e: "skip_elem path ?st = Ret (?st + length el)"
      using skip_elem_run [OF assms(5) y(2), of "pre @ replicate a 47" ys] assms(1) y(1) by simp
    have z: "skip_slashes path (?st + length el) = Ret (?st + length el + b)"
      using skip_slashes_run [OF assms(2), of "pre @ replicate a 47 @ el" b r] assms(1) by (simp add: add.assoc)
    have g: "get_bytes path ?st (length el) = el" using assms(1) by (simp add: get_bytes_def)
    have "(put_bytes name 0 el)[length el := 0] = el @ 0 # drop (Suc (length el)) name" if "length el < length name"
      using that by (simp add: put_bytes_def list_update_append Cons_nth_drop_Suc [symmetric])
    then show ?thesis using False s n e z g by (simp add: skip_path_def Let_def)
  qed (use fin in simp)
qed

theorem skip_path_splits_witness:
  "skip_path [47, 47, 98, 105, 110, 47, 108, 115, 0] 0 (replicate 14 0) = Ret (6, [98, 105, 110] @ 0 # replicate 10 0) \<and>
   skip_path [47, 0] 0 (replicate 14 0) = Ret (0, replicate 14 0)"
  using skip_path_splits [of "[47, 47, 98, 105, 110, 47, 108, 115, 0]" "[]" "Suc (Suc 0)" "[98, 105, 110]" "Suc 0" 108 "[115, 0]" "replicate 14 0"]
    skip_path_splits [of "[47, 0]" "[]" "Suc 0" "[]" 0 0 "[]" "replicate 14 0"]
  by simp

text \<open>The walk along a path.\<close>

lemma quiet_skip [quiet]: "quiet_o ENDLESS (skip_path path pos name)"
proof -
  have "quiet_o ENDLESS (skip_slashes path pos)" for pos
    by (induction path pos rule: skip_slashes.induct) (subst skip_slashes.simps, auto intro!: quiet)
  moreover have "quiet_o ENDLESS (skip_elem path pos)" for pos
    by (induction path pos rule: skip_elem.induct) (subst skip_elem.simps, auto intro!: quiet)
  ultimately show ?thesis by (auto simp: skip_path_def Let_def intro!: quiet)
qed

lemma quietp_lift: "quiet_o e x \<Longrightarrow> (\<And>y. x = Ret y \<Longrightarrow> quietp e (f y)) \<Longrightarrow> quietp e (bindp (liftp x) f)"
  by (cases x) (auto simp: quietp_def quiet_o_def prog_run)

lemma quiet_namex_loop:
  "pos \<le> length path \<Longrightarrow> length path < pos + n \<Longrightarrow> quietp ENDLESS (namex_loop n im path par ino pos name :: ('z kern_scheme, inode option \<times> 8 word list) prog)"
proof (induction n arbitrary: ino pos name)
  case (Suc n)
  have IH: "quietp ENDLESS (namex_loop n im path par lst c name' :: ('z kern_scheme, inode option \<times> 8 word list) prog)" if "skip_path path pos name = Ret (c, name')" "c \<noteq> 0" for c name' lst
    by (rule Suc.IH) (use skip_path_forward [OF that(1)] that(2) Suc.prems in auto)
  show ?case unfolding namex_loop.simps
    by (rule quietp_lift [OF quiet_skip]) (auto intro!: quiet IH)
qed simp

lemma quiet_iwrite_loop: "count \<le> tot + n \<Longrightarrow> quietp ENDLESS (iwrite_loop n im g user src off tot count)"
proof (induction n arbitrary: src off tot)
  case (Suc n)
  have "count \<le> tot + min (count - tot) (BSIZE - off mod BSIZE) + n" if "tot < count"
  proof -
    have "off mod BSIZE < BSIZE" by (simp add: BSIZE_def)
    then show ?thesis using Suc.prems that by linarith
  qed
  then show ?case using Suc.IH by (auto simp: Let_def intro!: quiet)
qed (auto intro!: quiet)

text \<open>C30: The loops of the file system end. The walk of \<open>namex\<close> along a path and the loops of \<open>read\<close> and \<open>write\<close>
  of an inode never run out of the bounds the model gives them (the length of the path and the number of
  bytes), from any state and for any input: every round moves forward.\<close>

theorem fs_loops_end:
  "namex im path name par s \<noteq> Panic ''endless loop'' \<and> iread im g user dst off count s \<noteq> Panic ''endless loop'' \<and>
   iwrite im g user src off count s \<noteq> Panic ''endless loop''"
proof -
  have "quiet_o ENDLESS (namex im path name par s)"
    by (rule quietp_def [THEN iffD1, rule_format]) (auto simp: namex_def simp del: namex_loop.simps intro!: quiet quiet_namex_loop)
  moreover have "quiet_o ENDLESS (iwrite im g user src off count s)"
    by (rule quietp_def [THEN iffD1, rule_format]) (auto simp: iwrite_def intro!: quiet quiet_iwrite_loop)
  moreover have "quiet_o ENDLESS (iread im g user dst off count s)"
    by (rule quietp_def [THEN iffD1, rule_format]) (rule quiet_iread)
  ultimately show ?thesis by (simp add: quiet_o_def)
qed

subsection \<open>Comparing names\<close>

definition cstr :: "8 word list \<Rightarrow> 8 word list" where
  "cstr xs = takeWhile (\<lambda>c. c \<noteq> 0) xs"

lemma name_eq_from_cstr:
  assumes "i + n \<le> length de" "i + n \<le> length name"
  shows "name_eq_from n i de name = Ret (cstr (drop i de) = cstr (drop i name) \<and> length (cstr (drop i de)) < n)"
  using assms
proof (induction n arbitrary: i)
  case (Suc n)
  have d: "drop i de = de ! i # drop (Suc i) de" "drop i name = name ! i # drop (Suc i) name"
    using Suc.prems by (simp_all add: Cons_nth_drop_Suc)
  show ?case using Suc.IH [of "Suc i"] Suc.prems by (auto simp: d cstr_def)
qed simp

text \<open>C32: The byte loop that compares a directory entry with a name decides equality of C strings: it
  answers whether both hold the same string, where a string that fills all \<open>DIRSIZ\<close> bytes of the entry
  without a 0 matches nothing.\<close>

theorem name_eq_is_string_equality:
  assumes "length de = DIRSIZ" and "DIRSIZ \<le> length name"
  shows "name_eq de name = Ret (cstr de = cstr name \<and> length (cstr de) < DIRSIZ)"
  using name_eq_from_cstr [of 0 DIRSIZ de name] assms by (simp add: name_eq_def)

theorem name_eq_is_string_equality_witness:
  "name_eq ([97, 98] @ replicate 12 0) ([97, 98, 0] @ replicate 11 7) = Ret True \<and>
   name_eq (replicate 14 97) (replicate 14 97) = Ret False"
  using name_eq_is_string_equality [of "[97, 98] @ replicate 12 0" "[97, 98, 0] @ replicate 11 7"]
    name_eq_is_string_equality [of "replicate 14 97" "replicate 14 97"]
  by (simp add: DIRSIZ_def cstr_def takeWhile_replicate)

subsection \<open>Inodes on disk\<close>

definition wf_dinode :: "dinode \<Rightarrow> bool" where
  "wf_dinode n \<longleftrightarrow> d_major n \<in> {- (2 ^ 15)..<2 ^ 15} \<and> d_minor n \<in> {- (2 ^ 15)..<2 ^ 15} \<and> nlink n \<in> {- (2 ^ 15)..<2 ^ 15} \<and>
     d_size n < u32_lim \<and> length (addrs n) = NDIRECT + 1 \<and> (\<forall>a \<in> set (addrs n). a < u32_lim)"

lemma i16_round: "i \<in> {- (2 ^ 15)..<2 ^ 15} \<Longrightarrow> i16_of (i16_enc i) = i \<and> i16_enc i < 2 ^ 16"
proof -
  assume a: "i \<in> {- (2 ^ 15)..<2 ^ 15}"
  show ?thesis
  proof (cases "0 \<le> i")
    case True
    then have "i mod 2 ^ 16 = i" using a by (intro mod_pos_pos_trivial) auto
    then show ?thesis using a True by (auto simp: i16_of_def i16_enc_def nat_less_iff)
  next
    case False
    then have "i mod 2 ^ 16 = i + 2 ^ 16" using a by (intro int_mod_pos_eq [of _ _ "-1"]) auto
    then show ?thesis using a False by (auto simp: i16_of_def i16_enc_def nat_less_iff)
  qed
qed

lemma i16_range: "k < 2 ^ 16 \<Longrightarrow> i16_of k \<in> {- (2 ^ 15)..<2 ^ 15}"
  by (auto simp: i16_of_def)

lemma rd16_bound: "rd16 b off < 2 ^ 16"
proof -
  have "le_dec (get_bytes b off 2) < 256 ^ length (get_bytes b off 2)" by (rule le_dec_bound)
  also have "\<dots> \<le> 256 ^ 2" by (rule power_increasing) (auto simp: get_bytes_def)
  finally show ?thesis by (simp add: rd16_def)
qed

lemma itype_round [simp]: "itype_of (itype_num t) = Ret t" "itype_num t < 2 ^ 16"
  by (cases t; simp add: itype_of_def itype_num_def)+

text \<open>The fields before the block addresses.\<close>

definition put_fields :: "block \<Rightarrow> nat \<Rightarrow> dinode \<Rightarrow> block" where
  "put_fields d off n = wr32 (wr16 (wr16 (wr16 (wr16 d off (itype_num (itype n))) (off + 2) (i16_enc (d_major n)))
     (off + 4) (i16_enc (d_minor n))) (off + 6) (i16_enc (nlink n))) (off + 8) (d_size n)"

lemma write_dinode_eq: "write_dinode d off n = put_words (off + 12) (addrs n) (NDIRECT + 1) (put_fields d off n)"
  by (simp add: write_dinode_def put_words_def put_fields_def)

lemma put_fields_length: "off + 12 \<le> length d \<Longrightarrow> length (put_fields d off n) = length d"
  by (simp add: put_fields_def)

lemma put_fields_read:
  assumes "off + 12 \<le> length d" "wf_dinode n"
  shows "rd16 (put_fields d off n) off = itype_num (itype n)" "rd16 (put_fields d off n) (off + 2) = i16_enc (d_major n)"
    "rd16 (put_fields d off n) (off + 4) = i16_enc (d_minor n)" "rd16 (put_fields d off n) (off + 6) = i16_enc (nlink n)"
    "rd32 (put_fields d off n) (off + 8) = d_size n"
proof -
  have b: "i16_enc (d_major n) < 2 ^ 16" "i16_enc (d_minor n) < 2 ^ 16" "i16_enc (nlink n) < 2 ^ 16" "d_size n < u32_lim"
    using assms(2) i16_round by (auto simp: wf_dinode_def)
  show "rd16 (put_fields d off n) off = itype_num (itype n)" "rd16 (put_fields d off n) (off + 2) = i16_enc (d_major n)"
    "rd16 (put_fields d off n) (off + 4) = i16_enc (d_minor n)" "rd16 (put_fields d off n) (off + 6) = i16_enc (nlink n)"
    using assms(1) b itype_round(2) [of "itype n"] by (simp_all add: put_fields_def rd_other(2) [OF wr_other(1)] rd16_wr16)
  show "rd32 (put_fields d off n) (off + 8) = d_size n" using assms(1) b(4) by (simp add: put_fields_def rd32_wr32)
qed

lemma dinode_frame:
  assumes "off + sizeof_dinode \<le> length d" "o2 + k \<le> length d" "o2 + k \<le> off \<or> off + sizeof_dinode \<le> o2"
  shows "get_bytes (write_dinode d off n) o2 k = get_bytes d o2 k"
proof -
  have l: "off + 12 + 4 * (NDIRECT + 1) \<le> length (put_fields d off n)" using assms(1) by (simp add: put_fields_length fs_defs)
  have "get_bytes (put_fields d off n) o2 k = get_bytes d o2 k"
    using assms(3) by (elim disjE) (use assms(1,2) in \<open>simp_all add: put_fields_def wr_other fs_defs\<close>)
  moreover have "o2 + k \<le> off + 12 \<or> off + 12 + 4 * (NDIRECT + 1) \<le> o2" "off + 12 \<le> length d" using assms(1,3) by (auto simp: fs_defs)
  ultimately show ?thesis using put_words_other [OF l, of o2 k] assms(2) by (simp add: write_dinode_eq put_fields_length)
qed

lemma dinode_round:
  assumes "off + sizeof_dinode \<le> length d" "wf_dinode n"
  shows "read_dinode (write_dinode d off n) off = Ret n" "length (write_dinode d off n) = length d"
proof -
  have o12: "off + 12 \<le> length d" using assms(1) by (simp add: fs_defs)
  let ?e = "put_fields d off n"
  have l: "off + 12 + 4 * (NDIRECT + 1) \<le> length ?e" using assms(1) by (simp add: put_fields_length fs_defs)
  note f = put_fields_read [OF o12 assms(2)]
  have h16: "rd16 (write_dinode d off n) (off + k) = rd16 ?e (off + k)" if "k + 2 \<le> 12" for k
    using rd_other(2) [OF put_words_other [OF l, of "off + k" 2]] that l by (simp add: write_dinode_eq)
  have h32: "rd32 (write_dinode d off n) (off + 8) = rd32 ?e (off + 8)"
    using rd_other(1) [OF put_words_other [OF l, of "off + 8" 4]] l by (simp add: write_dinode_eq)
  have len: "length (addrs n) = NDIRECT + 1" and b: "\<forall>j < NDIRECT + 1. addrs n ! j < u32_lim"
    using assms(2) by (auto simp: wf_dinode_def)
  have a: "map (\<lambda>i. rd32 (write_dinode d off n) (off + 12 + 4 * i)) [0..<NDIRECT + 1] = addrs n"
    by (rule nth_equalityI) (use len put_words_read [OF l _ b] in \<open>auto simp: write_dinode_eq simp del: upt_Suc\<close>)
  show "length (write_dinode d off n) = length d" using put_words_length [OF l] o12 by (simp add: write_dinode_eq put_fields_length)
  show "read_dinode (write_dinode d off n) off = Ret n"
    using h16 [of 0] h16 [of 2] h16 [of 4] h16 [of 6] h32 f a assms(2) i16_round
    by (auto simp: read_dinode_def wf_dinode_def)
qed


lemma wf_new: "wf_dinode (dinode_new\<lparr>itype := t\<rparr>)"
  by (simp add: wf_dinode_def dinode_new_def u32_lim_def)


text \<open>A block of inodes: every place holds a value of type \<open>DiskInode\<close>.\<close>

definition inode_block :: "block \<Rightarrow> bool" where
  "inode_block d \<longleftrightarrow> length d = BSIZE \<and> (\<forall>k < IPB. \<exists>n. read_dinode d (k * sizeof_dinode) = Ret n)"

lemma sub_bytes: "j + n \<le> m \<Longrightarrow> get_bytes d (off + j) n = take n (drop j (get_bytes d off m))"
  by (simp add: get_bytes_def drop_take min_def add.commute)

lemma read_dinode_cong:
  assumes "get_bytes d off sizeof_dinode = get_bytes e off sizeof_dinode"
  shows "read_dinode d off = read_dinode e off"
proof -
  have s: "get_bytes d (off + j) n = get_bytes e (off + j) n" if "j + n \<le> sizeof_dinode" for j n
    using sub_bytes [OF that] assms by metis
  have "rd16 d (off + j) = rd16 e (off + j)" if "j \<le> 62" for j using s [of j 2] that by (simp add: rd16_def fs_defs)
  note h = this [of 0] this [of 2] this [of 4] this [of 6]
  have "rd32 d (off + j) = rd32 e (off + j)" if "j \<le> 60" for j using s [of j 4] that by (simp add: rd32_def fs_defs)
  note w = this
  have "rd32 d (off + 12 + 4 * i) = rd32 e (off + 12 + 4 * i)" if "i < NDIRECT + 1" for i
    using w [of "12 + 4 * i"] that by (simp add: NDIRECT_def add.assoc)
  then have m: "map (\<lambda>i. rd32 d (off + 12 + 4 * i)) [0..<NDIRECT + 1] = map (\<lambda>i. rd32 e (off + 12 + 4 * i)) [0..<NDIRECT + 1]"
    by (auto simp del: upt_Suc)
  show ?thesis unfolding read_dinode_def m using h w [of 8] by (simp del: upt_Suc)
qed

lemma read_dinode_wf: "read_dinode d off = Ret n \<Longrightarrow> wf_dinode n"
  using i16_range [OF rd16_bound] rd32_bound by (auto simp: read_dinode_def wf_dinode_def bnd_eq_Ret)

lemma read_dinode_tag: "read_dinode d off = Ret n \<Longrightarrow> itype_of (rd16 d off) = Ret (itype n)"
  by (auto simp: read_dinode_def bnd_eq_Ret)

lemma inode_block_upd:
  assumes "inode_block d" "k < IPB" "length e = BSIZE" "\<exists>n. read_dinode e (k * sizeof_dinode) = Ret n"
    "\<And>o2 m. o2 + m \<le> BSIZE \<Longrightarrow> o2 + m \<le> k * sizeof_dinode \<or> k * sizeof_dinode + sizeof_dinode \<le> o2 \<Longrightarrow> get_bytes e o2 m = get_bytes d o2 m"
  shows "inode_block e"
  unfolding inode_block_def
proof (intro conjI allI impI)
  fix j assume j: "j < IPB"
  show "\<exists>n. read_dinode e (j * sizeof_dinode) = Ret n"
  proof (cases "j = k")
    case False
    have "j * sizeof_dinode + sizeof_dinode \<le> k * sizeof_dinode \<or> k * sizeof_dinode + sizeof_dinode \<le> j * sizeof_dinode"
      using False by (auto simp: fs_defs)
    then have "get_bytes e (j * sizeof_dinode) sizeof_dinode = get_bytes d (j * sizeof_dinode) sizeof_dinode"
      using j by (intro assms(5)) (simp_all add: fs_defs)
    then show ?thesis using read_dinode_cong assms(1) j by (metis inode_block_def)
  qed (use assms(4) in simp)
qed (rule assms(3))

lemma le_dec_zero: "le_dec (replicate n 0) = 0"
  by (induction n) simp_all

lemma zero_read:
  assumes "get_bytes z off sizeof_dinode = replicate sizeof_dinode 0"
  shows "j + 2 \<le> sizeof_dinode \<Longrightarrow> rd16 z (off + j) = 0" "j + 4 \<le> sizeof_dinode \<Longrightarrow> rd32 z (off + j) = 0"
  using sub_bytes [of j 2 sizeof_dinode z off] sub_bytes [of j 4 sizeof_dinode z off]
  by (simp_all add: rd16_def rd32_def assms le_dec_zero min_def)

lemma fresh_read:
  assumes fit: "off + sizeof_dinode \<le> length d"
  shows "read_dinode (wr16 (put_bytes d off (replicate sizeof_dinode 0)) off (itype_num t)) off = Ret (dinode_new\<lparr>itype := t\<rparr>)"
proof -
  let ?z = "put_bytes d off (replicate sizeof_dinode 0)"
  have l: "length ?z = length d" using fit by simp
  have gz: "get_bytes ?z off sizeof_dinode = replicate sizeof_dinode 0" using get_put_same [of off "replicate sizeof_dinode 0" d] fit by simp
  have r16: "rd16 (wr16 ?z off (itype_num t)) (off + j) = 0" if "j \<in> {2, 4, 6}" for j
    using that zero_read(1) [OF gz, of j] rd16_wr16 [of off ?z "off + j" "itype_num t"] itype_round(2) [of t] fit l by (auto simp: fs_defs)
  have r32: "rd32 (wr16 ?z off (itype_num t)) (off + j) = 0" if "8 \<le> j" "j + 4 \<le> 64" for j
  proof -
    have "get_bytes (wr16 ?z off (itype_num t)) (off + j) 4 = get_bytes ?z (off + j) 4"
      using that fit l by (intro wr_other(2)) (auto simp: fs_defs)
    from rd_other(1) [OF this] show ?thesis using zero_read(2) [OF gz, of j] that by (simp add: fs_defs)
  qed
  have "rd32 (wr16 ?z off (itype_num t)) (off + 12 + 4 * i) = 0" if "i < NDIRECT + 1" for i
    using r32 [of "12 + 4 * i"] that by (simp add: NDIRECT_def add.assoc)
  then have "map (\<lambda>i. rd32 (wr16 ?z off (itype_num t)) (off + 12 + 4 * i)) [0..<NDIRECT + 1] = replicate (NDIRECT + 1) 0"
    by (intro nth_equalityI) (simp_all del: upt_Suc replicate_Suc)
  moreover have "rd16 (wr16 ?z off (itype_num t)) off = itype_num t"
    using rd16_wr16 [of off ?z off "itype_num t"] itype_round(2) [of t] fit l by (simp add: fs_defs)
  ultimately show ?thesis using r16 [of 2] r16 [of 4] r16 [of 6] r32 [of 8] by (simp add: read_dinode_def dinode_new_def i16_of_def del: upt_Suc replicate_Suc)
qed

text \<open>C34: Inode blocks keep their type. In a block where every place holds an inode, reading any place
  returns a well-typed inode (no invalid type tag can be met), writing back a well-typed inode and
  \<open>try_alloc\<close> give such a block again, and a place that \<open>try_alloc\<close> takes holds a fresh inode of the
  requested type.\<close>

theorem inode_blocks_typed:
  assumes "inode_block d" and "k < IPB"
  shows "(\<exists>n. read_dinode d (k * sizeof_dinode) = Ret n \<and> wf_dinode n) \<and>
    (\<forall>n. wf_dinode n \<longrightarrow> inode_block (write_dinode d (k * sizeof_dinode) n)) \<and>
    (\<exists>ok d'. try_alloc d (k * sizeof_dinode) t = Ret (ok, d') \<and> inode_block d' \<and>
      (if ok then read_dinode d' (k * sizeof_dinode) = Ret (dinode_new\<lparr>itype := t\<rparr>) else d' = d))"
proof (intro conjI allI impI)
  let ?o = "k * sizeof_dinode"
  have len: "length d = BSIZE" and fit: "?o + sizeof_dinode \<le> length d" using assms by (auto simp: inode_block_def fs_defs)
  obtain n where n: "read_dinode d ?o = Ret n" using assms by (auto simp: inode_block_def)
  then show "\<exists>n. read_dinode d ?o = Ret n \<and> wf_dinode n" using read_dinode_wf by blast
  show "inode_block (write_dinode d ?o n)" if "wf_dinode n" for n
    by (rule inode_block_upd [OF assms]) (use dinode_round [OF fit that] dinode_frame [OF fit] len in auto)
  show "\<exists>ok d'. try_alloc d ?o t = Ret (ok, d') \<and> inode_block d' \<and>
      (if ok then read_dinode d' ?o = Ret (dinode_new\<lparr>itype := t\<rparr>) else d' = d)"
  proof (cases "itype n = Empty")
    case True
    let ?z = "wr16 (put_bytes d ?o (replicate sizeof_dinode 0)) ?o (itype_num t)"
    have a: "try_alloc d ?o t = Ret (True, ?z)" using read_dinode_tag [OF n] True by (simp add: try_alloc_def)
    have r: "read_dinode ?z ?o = Ret (dinode_new\<lparr>itype := t\<rparr>)" by (rule fresh_read [OF fit])
    have "inode_block ?z"
      by (rule inode_block_upd [OF assms]) (use r fit len in \<open>auto simp: wr_other(2) get_put_other fs_defs\<close>)
    then show ?thesis using a r by auto
  next
    case False
    then have "try_alloc d ?o t = Ret (False, d)" using read_dinode_tag [OF n] by (simp add: try_alloc_def)
    then show ?thesis using assms(1) by auto
  qed
qed

theorem inode_blocks_typed_witness:
  "\<exists>d'. try_alloc (replicate BSIZE 0) (3 * sizeof_dinode) File = Ret (True, d') \<and> inode_block d' \<and>
     read_dinode d' (3 * sizeof_dinode) = Ret (dinode_new\<lparr>itype := File\<rparr>)"
proof -
  have z: "rd16 (replicate BSIZE 0) (k * sizeof_dinode) = 0" if "k < IPB" for k
    using that by (simp add: rd16_def get_bytes_def le_dec_zero)
  then have b: "inode_block (replicate BSIZE 0)" by (simp add: inode_block_def read_dinode_def itype_of_def)
  have i: "(3::nat) < IPB" by (simp add: fs_defs)
  obtain ok d' where t: "try_alloc (replicate BSIZE 0) (3 * sizeof_dinode) File = Ret (ok, d')" "inode_block d'"
    "if ok then read_dinode d' (3 * sizeof_dinode) = Ret (dinode_new\<lparr>itype := File\<rparr>) else d' = replicate BSIZE 0"
    using inode_blocks_typed [OF b i, of File] by blast
  have "ok" using t(1) z [OF i] by (auto simp: try_alloc_def itype_of_def)
  then show ?thesis using t by auto
qed

subsection \<open>The inode cache\<close>

text \<open>The table of inodes: no two entries in use stand for the same inode.\<close>

definition same_inode :: "inode_meta \<Rightarrow> nat \<Rightarrow> nat \<Rightarrow> bool" where
  "same_inode m dev inum \<longleftrightarrow> 0 < refs m \<and> m_dev m = dev \<and> m_inum m = inum"

definition imeta_inv :: "inode_meta list \<Rightarrow> bool" where
  "imeta_inv ms \<longleftrightarrow> length ms = NINODE \<and>
     (\<forall>i < NINODE. \<forall>j < NINODE. \<forall>dev inum. same_inode (ms ! i) dev inum \<and> same_inode (ms ! j) dev inum \<longrightarrow> i = j)"

lemma imeta_upd_refs:
  assumes "imeta_inv ms" "0 < n \<Longrightarrow> i < NINODE \<Longrightarrow> 0 < refs (ms ! i)"
  shows "imeta_inv (ms[i := (ms ! i)\<lparr>refs := n\<rparr>])"
proof -
  have l: "length ms = NINODE" using assms(1) by (simp add: imeta_inv_def)
  have "same_inode (ms ! j) dev inum" if "same_inode (ms[i := (ms ! i)\<lparr>refs := n\<rparr>] ! j) dev inum" "j < NINODE" for j dev inum
    using that assms(2) l by (cases "i = j") (auto simp: same_inode_def)
  then show ?thesis using assms(1) unfolding imeta_inv_def by (auto simp: l) blast
qed

lemma imeta_new:
  assumes "imeta_inv ms" "i < NINODE" "\<forall>j < NINODE. \<not> same_inode (ms ! j) dev inum"
  shows "imeta_inv (ms[i := (ms ! i)\<lparr>m_dev := dev, m_inum := inum, refs := n\<rparr>])" (is "imeta_inv ?ms")
proof -
  have l: "length ms = NINODE" using assms(1) by (simp add: imeta_inv_def)
  have c: "(j = i \<and> d = dev \<and> k = inum) \<or> (j \<noteq> i \<and> same_inode (ms ! j) d k)" if "same_inode (?ms ! j) d k" "j < NINODE" for j d k
    using that l by (cases "i = j") (auto simp: same_inode_def)
  show ?thesis unfolding imeta_inv_def
  proof (intro conjI allI impI)
    fix j1 j2 d k assume "j1 < NINODE" "j2 < NINODE" "same_inode (?ms ! j1) d k \<and> same_inode (?ms ! j2) d k"
    then show "j1 = j2" using c [of j1 d k] c [of j2 d k] assms(1,3) unfolding imeta_inv_def by blast
  qed (simp add: l)
qed

lemma find_upt: "find P [0..<n] = Some i \<Longrightarrow> i < n \<and> P i" "find P [0..<n] = None \<Longrightarrow> i < n \<Longrightarrow> \<not> P i"
  by (auto simp: find_Some_iff find_None_iff)

lemma iget_cached:
  assumes "find (\<lambda>i. m_inum (imeta s ! i) = inum \<and> refs (imeta s ! i) > 0 \<and> m_dev (imeta s ! i) = dev) [0..<NINODE] = Some i"
    and "iget dev inum s = Ret (ino, s')"
  shows "ino = \<lparr>i_dev = dev, i_inum = inum, i_index = i\<rparr> \<and> imeta s' = (imeta s)[i := (imeta s ! i)\<lparr>refs := refs (imeta s ! i) + 1\<rparr>]"
  using assms by (auto simp: iget_def prog_run set_refs_def uadd_def split: if_splits)

lemma iget_fresh:
  assumes "find (\<lambda>i. m_inum (imeta s ! i) = inum \<and> refs (imeta s ! i) > 0 \<and> m_dev (imeta s ! i) = dev) [0..<NINODE] = None"
    and "iget dev inum s = Ret (ino, s')"
  shows "\<exists>i < NINODE. refs (imeta s ! i) = 0 \<and> ino = \<lparr>i_dev = dev, i_inum = inum, i_index = i\<rparr> \<and>
    imeta s' = (imeta s)[i := (imeta s ! i)\<lparr>m_dev := dev, m_inum := inum, refs := 1\<rparr>]"
proof (cases "find (\<lambda>i. refs (imeta s ! i) = 0) [0..<NINODE]")
  case None
  then show ?thesis using assms by (simp add: iget_def prog_run)
next
  case (Some i)
  then show ?thesis using assms find_upt(1) [OF Some]
    by (auto simp: iget_def prog_run lock_idata_def upd_idata_def idata_at_def drop_guard_def split: if_splits)
qed

lemma imeta_at_Ret: "imeta_at i s = Ret (m, s') \<longleftrightarrow> i < length (imeta s) \<and> m = imeta s ! i \<and> s' = s"
  by (auto simp: imeta_at_def prog_run)

lemma set_refs_inv: "imeta_inv (imeta s) \<Longrightarrow> n = 0 \<or> 0 < refs (imeta s ! i) \<Longrightarrow> imeta_inv (imeta (s\<lparr>imeta := (imeta s)[i := (imeta s ! i)\<lparr>refs := n\<rparr>]\<rparr>))"
  using imeta_upd_refs by auto

lemma keeps_dec:
  assumes "\<And>n. keeps (\<lambda>s. imeta_inv (imeta s)) (k n)"
  shows "keeps (\<lambda>s. imeta_inv (imeta s)) (bindp (imeta_at i) (\<lambda>m. bindp (liftp (usub (refs m) 1)) (\<lambda>n. thenp (set_refs i n) (k n))))"
  unfolding keeps_def
proof (intro allI impI)
  fix s x s' assume a: "imeta_inv (imeta s)"
    "bindp (imeta_at i) (\<lambda>m. bindp (liftp (usub (refs m) 1)) (\<lambda>n. thenp (set_refs i n) (k n))) s = Ret (x, s')"
  let ?n = "refs (imeta s ! i) - 1"
  have "0 < refs (imeta s ! i)" "k ?n (s\<lparr>imeta := (imeta s)[i := (imeta s ! i)\<lparr>refs := ?n\<rparr>]\<rparr>) = Ret (x, s')"
    using a(2) by (auto simp: imeta_at_def prog_run usub_def set_refs_def split: if_splits)
  then show "imeta_inv (imeta s')" using keepsD [OF assms] set_refs_inv [OF a(1)] by blast
qed

lemma iput_keeps: "keeps (\<lambda>s :: 'z kern_scheme. imeta_inv (imeta s)) (iput im ino)"
proof -
  let ?P = "\<lambda>s :: 'z kern_scheme. imeta_inv (imeta s)" and ?i = "i_index ino"
  have zero: "keeps ?P (set_refs ?i 0)"
    unfolding set_refs_def by (rule keeps_basic(4), rule set_refs_inv) simp_all
  define A :: "('z kern_scheme, unit) prog" where "A = thenp (lock_idata ?i) (bindp (idata_at ?i) (\<lambda>x.
       if \<not> id_valid x \<or> nlink (dnode x) > 0
       then thenp (upd_idata ?i (\<lambda>x. x\<lparr>id_valid := False\<rparr>)) (thenp (drop_guard ?i) (set_refs ?i 0))
       else thenp (upd_dinode ?i (\<lambda>n. n\<lparr>itype := Empty\<rparr>)) (thenp (itruncate im ?i ino)
         (thenp (upd_idata ?i (\<lambda>x. x\<lparr>id_valid := False\<rparr>)) (thenp (drop_guard ?i)
         (bindp (imeta_at ?i) (\<lambda>m. bindp (liftp (usub (refs m) 1)) (\<lambda>n.
          thenp (set_refs ?i n) (assertp (n = 0) ''assertion failed'')))))))))"
  have A: "keeps ?P A" unfolding A_def by (intro frame keeps_dec zero)
  have e: "thenp (set_refs ?i n) (retp ()) = set_refs ?i n" for n
    by (auto simp: fun_eq_iff thenp_def set_refs_def modp_def bindp_def retp_def)
  have B: "keeps ?P (bindp (imeta_at ?i) (\<lambda>m. bindp (liftp (usub (refs m) 1)) (set_refs ?i)))"
    using keeps_dec [of "\<lambda>_. retp ()" ?i] by (simp add: keeps_basic e)
  have eq: "iput im ino = bindp (imeta_at ?i) (\<lambda>m. if refs m = 1 then A else bindp (liftp (usub (refs m) 1)) (set_refs ?i))"
    by (simp only: iput_def A_def Let_def)
  show ?thesis unfolding keeps_def
  proof (intro allI impI)
    fix s x and s' :: "'z kern_scheme" assume a: "?P s" "iput im ino s = Ret (x, s')"
    then have r: "imeta_at ?i s = Ret (imeta s ! ?i, s)" unfolding eq bindp_Ret imeta_at_Ret by (auto simp: imeta_at_Ret)
    show "?P s'"
    proof (cases "refs (imeta s ! ?i) = 1")
      case True
      then have "A s = Ret (x, s')" using a(2) unfolding eq bindp_run(1) [of "imeta_at (i_index ino)", OF r] by simp
      then show ?thesis using keepsD [OF A a(1)] by blast
    next
      case False
      then have "bindp (imeta_at ?i) (\<lambda>m. bindp (liftp (usub (refs m) 1)) (set_refs ?i)) s = Ret (x, s')"
        using a(2) unfolding eq bindp_run(1) [of "imeta_at (i_index ino)", OF r] by simp
      then show ?thesis using keepsD [OF B a(1)] by blast
    qed
  qed
qed

text \<open>C16: Inodes are shared through one entry of the cache. In a cache where no two entries in use stand for
  the same inode, \<open>iget\<close> keeps it so and returns the entry of the inode: the one that was in use for it,
  with one more reference, or else a free entry with one reference; no other entry changes. \<open>iput\<close>
  keeps the cache that way, too, also when it truncates and frees the inode.\<close>

theorem iget_iput_unique:
  assumes "imeta_inv (imeta s)"
  shows "(\<forall>dev inum ino s'. iget dev inum s = Ret (ino, s') \<longrightarrow> imeta_inv (imeta s') \<and>
      (\<exists>i < NINODE. ino = \<lparr>i_dev = dev, i_inum = inum, i_index = i\<rparr> \<and> same_inode (imeta s' ! i) dev inum \<and>
        (if \<exists>j < NINODE. same_inode (imeta s ! j) dev inum
         then same_inode (imeta s ! i) dev inum \<and> refs (imeta s' ! i) = refs (imeta s ! i) + 1
         else refs (imeta s ! i) = 0 \<and> refs (imeta s' ! i) = 1) \<and>
        (\<forall>j. j \<noteq> i \<longrightarrow> imeta s' ! j = imeta s ! j))) \<and>
    (\<forall>im ino u s'. iput im ino s = Ret (u, s') \<longrightarrow> imeta_inv (imeta s'))"
proof (intro conjI allI impI)
  show "iput im ino s = Ret (u, s') \<Longrightarrow> imeta_inv (imeta s')" for im ino u s' using keepsD [OF iput_keeps assms] .
next
  fix dev inum ino s' assume g: "iget dev inum s = Ret (ino, s')"
  let ?find = "find (\<lambda>i. m_inum (imeta s ! i) = inum \<and> refs (imeta s ! i) > 0 \<and> m_dev (imeta s ! i) = dev) [0..<NINODE]"
  have l: "length (imeta s) = NINODE" using assms by (simp add: imeta_inv_def)
  have "imeta_inv (imeta s') \<and> (\<exists>i < NINODE. ino = \<lparr>i_dev = dev, i_inum = inum, i_index = i\<rparr> \<and> same_inode (imeta s' ! i) dev inum \<and>
        (if \<exists>j < NINODE. same_inode (imeta s ! j) dev inum
         then same_inode (imeta s ! i) dev inum \<and> refs (imeta s' ! i) = refs (imeta s ! i) + 1
         else refs (imeta s ! i) = 0 \<and> refs (imeta s' ! i) = 1) \<and> (\<forall>j. j \<noteq> i \<longrightarrow> imeta s' ! j = imeta s ! j))"
  proof (cases ?find)
    case (Some i)
    note i = find_upt(1) [OF Some] and r = iget_cached [OF Some g]
    have "imeta_inv (imeta s')" using r i imeta_upd_refs [OF assms] by simp
    moreover have "same_inode (imeta s ! i) dev inum" using i by (simp add: same_inode_def)
    ultimately show ?thesis using r i l by (intro conjI exI [of _ i]) (auto simp: same_inode_def)
  next
    case None
    obtain i where i: "i < NINODE" "refs (imeta s ! i) = 0" "ino = \<lparr>i_dev = dev, i_inum = inum, i_index = i\<rparr>"
      "imeta s' = (imeta s)[i := (imeta s ! i)\<lparr>m_dev := dev, m_inum := inum, refs := 1\<rparr>]"
      using iget_fresh [OF None g] by blast
    have n: "\<forall>j < NINODE. \<not> same_inode (imeta s ! j) dev inum" using find_upt(2) [OF None] by (metis same_inode_def)
    then have "imeta_inv (imeta s')" using imeta_new [OF assms i(1)] i(4) by simp
    then show ?thesis using i n l by (intro conjI exI [of _ i]) (auto simp: same_inode_def)
  qed
  then show "imeta_inv (imeta s')" "\<exists>i < NINODE. ino = \<lparr>i_dev = dev, i_inum = inum, i_index = i\<rparr> \<and> same_inode (imeta s' ! i) dev inum \<and>
        (if \<exists>j < NINODE. same_inode (imeta s ! j) dev inum
         then same_inode (imeta s ! i) dev inum \<and> refs (imeta s' ! i) = refs (imeta s ! i) + 1
         else refs (imeta s ! i) = 0 \<and> refs (imeta s' ! i) = 1) \<and> (\<forall>j. j \<noteq> i \<longrightarrow> imeta s' ! j = imeta s ! j)" by auto
qed

definition demo_kern :: kern where
  "demo_kern = \<lparr>procs = [], init_proc = None, pids = 0, cur = None, mem = \<lparr>ram = (\<lambda>_. 0), heap = bs_uninit demo_mem\<rparr>,
     cache = bcache_new (\<lambda>_. replicate BSIZE 0), sb = superblock_uninit, wal = log_uninit,
     imeta = fst icache_new, idata = snd icache_new\<rparr>"

theorem iget_iput_unique_witness:
  "\<exists>ino s'. iget 1 5 demo_kern = Ret (ino, s') \<and> imeta_inv (imeta s') \<and> refs (imeta s' ! i_index ino) = 1"
proof -
  have m: "imeta demo_kern = replicate NINODE inode_meta_new" "idata demo_kern = replicate NINODE inode_data_new"
    by (simp_all add: demo_kern_def icache_new_def)
  have r: "refs inode_meta_new = 0" "\<not> id_locked inode_data_new" "\<not> id_valid inode_data_new"
    by (simp_all add: inode_meta_new_def inode_data_new_def)
  have inv: "imeta_inv (imeta demo_kern)" by (simp add: m imeta_inv_def same_inode_def r)
  have n: "find (\<lambda>i. m_inum (imeta demo_kern ! i) = 5 \<and> refs (imeta demo_kern ! i) > 0 \<and> m_dev (imeta demo_kern ! i) = 1) [0..<NINODE] = None"
    by (simp add: find_None_iff m r)
  have f: "find (\<lambda>i. refs (imeta demo_kern ! i) = 0) [0..<NINODE] = Some 0"
    by (simp add: m r NINODE_def upt_conv_Cons)
  have p: "0 < NINODE" by (simp add: NINODE_def)
  obtain ino s' where g: "iget 1 5 demo_kern = Ret (ino, s')"
    using n f p r by (auto simp: iget_def prog_run lock_idata_def upd_idata_def idata_at_def drop_guard_def m)
  have "\<not> (\<exists>j < NINODE. same_inode (imeta demo_kern ! j) 1 5)" by (simp add: m same_inode_def r)
  then show ?thesis using iget_iput_unique [OF inv, THEN conjunct1, rule_format, OF g] g by auto
qed

end
