(* ===== verification/Console.thy ===== *)
theory Console
  imports Directory
begin

text \<open>
  The serial port (\<open>driver/uart.rs\<close>) and the console (\<open>driver/console.rs\<close>). The indices are
  \<open>Wrapping<usize>\<close>: words of 64 bits. The device is \<open>rx\<close>, the bytes that have arrived and not been
  read, \<open>tx\<close>, the bytes written to the transmit register, and \<open>tx_room\<close>, how many more bytes the
  transmitter takes before its status register says that it is busy. A busy wait for an idle
  transmitter ends when the device is idle. Printing for debugging is left out.
\<close>

definition UART_BUF_SIZE :: nat where "UART_BUF_SIZE = 32"

definition INPUT_BUF :: nat where "INPUT_BUF = 128"

definition CTRL_EOT :: "8 word" where "CTRL_EOT = 0x04"

definition CTRL_BS :: "8 word" where "CTRL_BS = 0x08"

definition CTRL_LF :: "8 word" where "CTRL_LF = 0x0A"

definition CTRL_CR :: "8 word" where "CTRL_CR = 0x0D"

definition CTRL_DEL :: "8 word" where "CTRL_DEL = 0x7f"

definition CTRL_PRINT_PROCESS :: "8 word" where "CTRL_PRINT_PROCESS = 0x10"

definition CTRL_BS_LINE :: "8 word" where "CTRL_BS_LINE = 0x15"

record uart =
  u_buf :: "8 word list"
  u_write :: "64 word"
  u_read :: "64 word"

record console =
  c_buf :: "8 word list"
  c_read :: "64 word"
  c_write :: "64 word"
  c_edit :: "64 word"

record kdev = kern +
  uart_st :: uart
  console_st :: console
  rx :: "8 word list"
  tx :: "8 word list"
  tx_room :: nat
  panicked :: bool

definition uart_new :: uart where
  "uart_new = \<lparr>u_buf = replicate UART_BUF_SIZE 0, u_write = 0, u_read = 0\<rparr>"

definition console_new :: console where
  "console_new = \<lparr>c_buf = replicate INPUT_BUF 0, c_read = 0, c_write = 0, c_edit = 0\<rparr>"

text \<open>The registers. Writing the transmit register takes one place of the transmitter.\<close>

definition idle :: "('z kdev_scheme, bool) prog" where
  "idle = getp (\<lambda>s. tx_room s > 0)"

definition write_thr :: "8 word \<Rightarrow> ('z kdev_scheme, unit) prog" where
  "write_thr c = modp (\<lambda>s. s\<lparr>tx := tx s @ [c], tx_room := tx_room s - 1\<rparr>)"

text \<open>The waits of \<open>Uart::put\<close> and \<open>putc_sync\<close> end with an idle transmitter.\<close>

definition uart_send :: "8 word \<Rightarrow> ('z kdev_scheme, unit) prog" where
  "uart_send c = thenp (modp (\<lambda>s. s\<lparr>tx_room := max 1 (tx_room s)\<rparr>)) (write_thr c)"

definition uart_put :: "8 word \<Rightarrow> ('z kdev_scheme, unit) prog" where
  "uart_put c = uart_send c"

definition uart_get :: "('z kdev_scheme, 8 word option) prog" where
  "uart_get = bindp (getp rx) (\<lambda>q. case q of [] \<Rightarrow> retp None | c # cs \<Rightarrow> thenp (modp (\<lambda>s. s\<lparr>rx := cs\<rparr>)) (retp (Some c)))"

definition uart_write_str :: "8 word list \<Rightarrow> ('z kdev_scheme, unit) prog" where
  "uart_write_str out = foldr (\<lambda>c k. thenp (uart_put c) k) out (retp ())"

definition putc_sync :: "8 word \<Rightarrow> ('z kdev_scheme, unit) prog" where
  "putc_sync c = bindp (getp panicked) (\<lambda>p. if p then panicp ''sleep'' else uart_send c)"

text \<open>\<open>transmit\<close>: every round takes a place of the transmitter, which bounds the loop.\<close>

primrec transmit_loop :: "nat \<Rightarrow> ('z kdev_scheme, unit) prog" where
  "transmit_loop 0 = retp ()"
| "transmit_loop (Suc n) = bindp (getp uart_st) (\<lambda>u.
     if u_write u \<noteq> u_read u
     then thenp (modp (\<lambda>s. s\<lparr>uart_st := u\<lparr>u_read := u_read u + 1\<rparr>\<rparr>)) (thenp (wake_upp ChUart)
       (thenp (write_thr (u_buf u ! (unat (u_read u) mod UART_BUF_SIZE))) (transmit_loop n)))
     else retp ())"

definition transmit :: "('z kdev_scheme, unit) prog" where
  "transmit = bindp (getp tx_room) transmit_loop"

definition uart_putc :: "8 word \<Rightarrow> ('z kdev_scheme, unit) prog" where
  "uart_putc c = bindp (getp panicked) (\<lambda>p. if p then panicp ''sleep''
     else bindp (getp uart_st) (\<lambda>u.
       if u_write u = u_read u + of_nat UART_BUF_SIZE then panicp ''sleep''
       else thenp (modp (\<lambda>s. s\<lparr>uart_st := u\<lparr>u_buf := (u_buf u)[unat (u_write u) mod UART_BUF_SIZE := c],
           u_write := u_write u + 1\<rparr>\<rparr>)) transmit))"

text \<open>The console.\<close>

definition console_putc :: "8 word \<Rightarrow> ('z kdev_scheme, unit) prog" where
  "console_putc c = (if c = CTRL_BS then thenp (putc_sync CTRL_BS) (thenp (putc_sync 32) (putc_sync CTRL_BS))
     else putc_sync c)"

definition myproc :: "('z kproc_scheme, nat) prog" where
  "myproc = bindp (getp cur) (\<lambda>c. unwrapp ''called `Option::unwrap()` on a `None` value'' c)"

definition killedp :: "nat \<Rightarrow> ('z kproc_scheme, bool) prog" where
  "killedp i = getp (\<lambda>s. killed (pmeta (procs s ! i)))"

text \<open>A copy of one byte from and to a local variable.\<close>

definition copy_byte_out :: "image \<Rightarrow> bool \<Rightarrow> nat \<Rightarrow> 8 word \<Rightarrow> ('z kproc_scheme, string + unit) prog" where
  "copy_byte_out im user dst c s =
     (let st = (mem s)\<lparr>ram := write_bytes (ram (mem s)) (local_addr im) [c]\<rparr> in
      bnd (copy_from_kernel (i_bf im) st (myproc_pgt s) user dst (local_addr im) 1) (\<lambda>(r, st'). Ret (r, s\<lparr>mem := st'\<rparr>)))"

definition copy_byte_in :: "image \<Rightarrow> bool \<Rightarrow> nat \<Rightarrow> ('z kproc_scheme, string + 8 word) prog" where
  "copy_byte_in im user src s =
     (let m = write_bytes (ram (mem s)) (local_addr im) [0] in
      bnd (copy_to_kernel m (myproc_pgt s) (local_addr im) user src 1) (\<lambda>(r, m').
        Ret ((case r of Inl e \<Rightarrow> Inl e | Inr _ \<Rightarrow> Inr (read8 m' (local_addr im))), s\<lparr>mem := (mem s)\<lparr>ram := m'\<rparr>\<rparr>)))"

primrec console_read_loop :: "nat \<Rightarrow> image \<Rightarrow> bool \<Rightarrow> nat \<Rightarrow> nat \<Rightarrow> ('z kdev_scheme, nat option) prog" where
  "console_read_loop 0 im user dst sz = retp (Some sz)"
| "console_read_loop (Suc left) im user dst sz = bindp (getp console_st) (\<lambda>con.
     if c_read con = c_write con
     then bindp myproc (\<lambda>p. bindp (killedp p) (\<lambda>k. if k then retp None else panicp ''sleep''))
     else let c = c_buf con ! (unat (c_read con) mod INPUT_BUF) in
       thenp (modp (\<lambda>s. s\<lparr>console_st := con\<lparr>c_read := c_read con + 1\<rparr>\<rparr>))
       (if c = CTRL_EOT
        then thenp (modp (\<lambda>s. if Suc left < sz then s\<lparr>console_st := con\<rparr> else s)) (retp (Some (sz - Suc left)))
        else bindp (copy_byte_out im user dst c) (\<lambda>r.
          case r of
            Inl e \<Rightarrow> retp (Some (sz - Suc left))
          | Inr _ \<Rightarrow> bindp (liftp (uadd dst 1)) (\<lambda>dst'.
              if c = CTRL_LF then retp (Some (sz - left)) else console_read_loop left im user dst' sz))))"

definition console_read :: "image \<Rightarrow> bool \<Rightarrow> nat \<Rightarrow> nat \<Rightarrow> ('z kdev_scheme, nat option) prog" where
  "console_read im user dst sz = console_read_loop sz im user dst sz"

definition console_write_round :: "image \<Rightarrow> bool \<Rightarrow> nat \<Rightarrow> nat \<Rightarrow> ('z kdev_scheme, nat option) prog" where
  "console_write_round im user src i = bindp (liftp (uadd src i)) (\<lambda>a. bindp (copy_byte_in im user a) (\<lambda>r.
     case r of Inl e \<Rightarrow> retp (Some i) | Inr c \<Rightarrow> thenp (uart_putc c) (retp None)))"

definition console_write :: "image \<Rightarrow> bool \<Rightarrow> nat \<Rightarrow> nat \<Rightarrow> ('z kdev_scheme, nat option) prog" where
  "console_write im user src sz = bindp (forp 0 sz (console_write_round im user src)) (\<lambda>r.
     retp (Some (case r of None \<Rightarrow> sz | Some i \<Rightarrow> i)))"

text \<open>\<open>^U\<close> erases back to the last line; the distance of \<open>edit_index\<close> from \<open>write_index\<close> bounds the loop.\<close>

primrec erase_line :: "nat \<Rightarrow> ('z kdev_scheme, unit) prog" where
  "erase_line 0 = retp ()"
| "erase_line (Suc n) = bindp (getp console_st) (\<lambda>con.
     if c_edit con \<noteq> c_write con \<and> c_buf con ! (unat (c_edit con - 1) mod INPUT_BUF) \<noteq> CTRL_LF
     then thenp (modp (\<lambda>s. s\<lparr>console_st := con\<lparr>c_edit := c_edit con - 1\<rparr>\<rparr>)) (thenp (console_putc CTRL_BS) (erase_line n))
     else retp ())"

definition console_input :: "8 word \<Rightarrow> ('z kdev_scheme, unit) prog" where
  "console_input c0 = bindp (getp console_st) (\<lambda>con.
     if c0 \<noteq> 0 \<and> unat (c_edit con - c_read con) < INPUT_BUF
     then let c = (if c0 = CTRL_CR then CTRL_LF else c0);
           con' = con\<lparr>c_buf := (c_buf con)[unat (c_edit con) mod INPUT_BUF := c], c_edit := c_edit con + 1\<rparr> in
       thenp (console_putc c)
       (if c = CTRL_LF \<or> c = CTRL_EOT \<or> unat (c_edit con' - c_read con') = INPUT_BUF
        then thenp (modp (\<lambda>s. s\<lparr>console_st := con'\<lparr>c_write := c_edit con'\<rparr>\<rparr>)) (wake_upp ChConsole)
        else modp (\<lambda>s. s\<lparr>console_st := con'\<rparr>))
     else retp ())"

definition console_intr :: "8 word \<Rightarrow> ('z kdev_scheme, unit) prog" where
  "console_intr c =
     (if c = CTRL_PRINT_PROCESS then retp ()
      else if c = CTRL_BS_LINE then bindp (getp console_st) (\<lambda>con. erase_line (unat (c_edit con - c_write con)))
      else if c = CTRL_BS \<or> c = CTRL_DEL then bindp (getp console_st) (\<lambda>con.
        if c_edit con \<noteq> c_write con
        then thenp (modp (\<lambda>s. s\<lparr>console_st := con\<lparr>c_edit := c_edit con - 1\<rparr>\<rparr>)) (console_putc CTRL_BS)
        else retp ())
      else console_input c)"

text \<open>The interrupt handler reads all bytes that have arrived, then transmits.\<close>

primrec uart_intr_loop :: "nat \<Rightarrow> ('z kdev_scheme, unit) prog" where
  "uart_intr_loop 0 = retp ()"
| "uart_intr_loop (Suc n) = bindp uart_get (\<lambda>r. case r of None \<Rightarrow> retp ()
     | Some c \<Rightarrow> thenp (console_intr c) (uart_intr_loop n))"

definition uart_intr :: "('z kdev_scheme, unit) prog" where
  "uart_intr = bindp (getp rx) (\<lambda>q. thenp (uart_intr_loop (length q)) transmit)"

end
