(* ===== verification/Files.thy ===== *)
theory Files
  imports Console
begin

text \<open>
  Open files (\<open>fs/file.rs\<close>), pipes (\<open>fs/pipe.rs\<close>), the device table (\<open>fs/devices.rs\<close>) and \<open>Stat\<close>
  (\<open>fs/stat.rs\<close>). \<open>arcs\<close> are the shared open files with their counts: the last reference that goes away
  drops the file and the inode in it. \<open>pipes\<close> are the pipes by address; a file whose pipe is not there
  has a dangling pointer.
\<close>

definition PIPE_SIZE :: nat where "PIPE_SIZE = 512"

record pipe_guard =
  p_data :: "8 word list"
  read_number :: nat
  write_number :: nat
  read_open :: bool
  write_open :: bool

datatype fn_ptr = FnNull | FnConsoleRead | FnConsoleWrite

record device =
  dev_read :: fn_ptr
  dev_write :: fn_ptr

record kfile = kdev +
  arcs :: "nat \<Rightarrow> (nat \<times> vfile) option"
  next_arc :: nat
  pipes :: "nat \<Rightarrow> pipe_guard option"
  dev_table :: "device list"
  ticks :: nat

definition device_new :: device where
  "device_new = \<lparr>dev_read = FnNull, dev_write = FnNull\<rparr>"

definition device_list_uninit :: "device list" where
  "device_list_uninit = replicate NDEV device_new"

definition CONSOLE :: nat where "CONSOLE = 1"

definition console_init :: "('z kfile_scheme, unit) prog" where
  "console_init = modp (\<lambda>s. s\<lparr>dev_table := (dev_table s)[CONSOLE := \<lparr>dev_read = FnConsoleRead, dev_write = FnConsoleWrite\<rparr>]\<rparr>)"

definition dev_call :: "image \<Rightarrow> fn_ptr \<Rightarrow> nat \<Rightarrow> nat \<Rightarrow> ('z kfile_scheme, nat option) prog" where
  "dev_call im f addr len = (case f of FnNull \<Rightarrow> panicp ''call of a null function''
     | FnConsoleRead \<Rightarrow> console_read im True addr len | FnConsoleWrite \<Rightarrow> console_write im True addr len)"

text \<open>The current process.\<close>

definition proc_at :: "nat \<Rightarrow> ('z kproc_scheme, process) prog" where
  "proc_at p = getp (\<lambda>s. procs s ! p)"

definition upd_proc :: "nat \<Rightarrow> (process \<Rightarrow> process) \<Rightarrow> ('z kproc_scheme, unit) prog" where
  "upd_proc p f = modp (\<lambda>s. s\<lparr>procs := (procs s)[p := f (procs s ! p)]\<rparr>)"

definition upd_pdata :: "nat \<Rightarrow> (proc_data \<Rightarrow> proc_data) \<Rightarrow> ('z kproc_scheme, unit) prog" where
  "upd_pdata p f = upd_proc p (\<lambda>x. x\<lparr>pdata := f (pdata x)\<rparr>)"

definition page_tablep :: "nat \<Rightarrow> ('z kproc_scheme, nat) prog" where
  "page_tablep p = bindp (proc_at p) (\<lambda>x. unwrapp ''Fail to get page table'' (pagetable (pdata x)))"

text \<open>\<open>copy_out\<close> and \<open>copy_in\<close> of a page table with kernel memory at \<open>a\<close>.\<close>

definition copy_outp :: "nat \<Rightarrow> nat \<Rightarrow> nat \<Rightarrow> nat \<Rightarrow> ('z kproc_scheme, string + unit) prog" where
  "copy_outp root dst a len s = bnd (copy_out (ram (mem s)) root dst a len) (\<lambda>(r, m). Ret (r, s\<lparr>mem := (mem s)\<lparr>ram := m\<rparr>\<rparr>))"

definition copy_inp :: "nat \<Rightarrow> nat \<Rightarrow> nat \<Rightarrow> nat \<Rightarrow> ('z kproc_scheme, string + unit) prog" where
  "copy_inp root a src len s = bnd (copy_in (ram (mem s)) root a src len) (\<lambda>(r, m). Ret (r, s\<lparr>mem := (mem s)\<lparr>ram := m\<rparr>\<rparr>))"

definition poke :: "nat \<Rightarrow> 8 word list \<Rightarrow> ('z kproc_scheme, unit) prog" where
  "poke a bs = modp (\<lambda>s. s\<lparr>mem := (mem s)\<lparr>ram := write_bytes (ram (mem s)) a bs\<rparr>\<rparr>)"

definition peek :: "nat \<Rightarrow> nat \<Rightarrow> ('z kproc_scheme, 8 word list) prog" where
  "peek a n = getp (\<lambda>s. read_bytes (ram (mem s)) a n)"

text \<open>Shared files.\<close>

definition vfile_clone :: "vfile \<Rightarrow> ('z kern_scheme, vfile) prog" where
  "vfile_clone f = (case f_inode f of None \<Rightarrow> retp f
     | Some ino \<Rightarrow> bindp (idup ino) (\<lambda>ino'. retp (f\<lparr>f_inode := Some ino'\<rparr>)))"

definition vfile_drop :: "image \<Rightarrow> vfile \<Rightarrow> ('z kern_scheme, unit) prog" where
  "vfile_drop im f = (case f_inode f of None \<Rightarrow> retp () | Some ino \<Rightarrow> iput im ino)"

definition arc_new :: "vfile \<Rightarrow> ('z kfile_scheme, nat) prog" where
  "arc_new f = bindp (getp next_arc) (\<lambda>a.
     thenp (modp (\<lambda>s. s\<lparr>arcs := (arcs s)(a := Some (1, f)), next_arc := Suc a\<rparr>)) (retp a))"

definition arc_get :: "nat \<Rightarrow> ('z kfile_scheme, vfile) prog" where
  "arc_get a = bindp (getp arcs) (\<lambda>m. bindp (unwrapp ''dangling pointer'' (m a)) (\<lambda>(n, f). retp f))"

definition arc_clone :: "nat \<Rightarrow> ('z kfile_scheme, nat) prog" where
  "arc_clone a = bindp (getp arcs) (\<lambda>m. bindp (unwrapp ''dangling pointer'' (m a)) (\<lambda>(n, f).
     thenp (modp (\<lambda>s. s\<lparr>arcs := (arcs s)(a := Some (Suc n, f))\<rparr>)) (retp a)))"

definition arc_drop :: "image \<Rightarrow> nat \<Rightarrow> ('z kfile_scheme, unit) prog" where
  "arc_drop im a = bindp (getp arcs) (\<lambda>m. bindp (unwrapp ''dangling pointer'' (m a)) (\<lambda>(n, f).
     if n \<le> 1 then thenp (modp (\<lambda>s. s\<lparr>arcs := (arcs s)(a := None)\<rparr>)) (vfile_drop im f)
     else modp (\<lambda>s. s\<lparr>arcs := (arcs s)(a := Some (n - 1, f))\<rparr>)))"

definition open_file :: "nat \<Rightarrow> nat \<Rightarrow> ('z kfile_scheme, nat option) prog" where
  "open_file p fd = bindp (proc_at p) (\<lambda>x. let fs = open_files (pdata x) in
     if fd < length fs then retp (fs ! fd) else panicp ''index out of bounds'')"

definition set_open_file :: "image \<Rightarrow> nat \<Rightarrow> nat \<Rightarrow> nat option \<Rightarrow> ('z kfile_scheme, unit) prog" where
  "set_open_file im p fd v = bindp (open_file p fd) (\<lambda>old.
     thenp (upd_pdata p (\<lambda>d. d\<lparr>open_files := (open_files d)[fd := v]\<rparr>))
     (case old of None \<Rightarrow> retp () | Some a \<Rightarrow> arc_drop im a))"

definition fd_alloc :: "image \<Rightarrow> nat \<Rightarrow> vfile \<Rightarrow> ('z kfile_scheme, string + nat) prog" where
  "fd_alloc im p f = bindp (proc_at p) (\<lambda>x.
     case find_unallocated_fd (pdata x) of
       Inl e \<Rightarrow> retp (Inl e)
     | Inr fd \<Rightarrow> bindp (vfile_clone f) (\<lambda>f'. bindp (arc_new f') (\<lambda>a.
         thenp (set_open_file im p fd (Some a)) (retp (Inr fd)))))"

definition cpu_alloc_fd :: "image \<Rightarrow> vfile \<Rightarrow> ('z kfile_scheme, string + nat) prog" where
  "cpu_alloc_fd im f = bindp myproc (\<lambda>p. fd_alloc im p f)"

definition cpu_fd_close :: "image \<Rightarrow> nat \<Rightarrow> ('z kfile_scheme, unit) prog" where
  "cpu_fd_close im fd = bindp myproc (\<lambda>p. set_open_file im p fd None)"

text \<open>Pipes.\<close>

definition pipe_guard_alloc :: "image \<Rightarrow> ('z kproc_scheme, pipe_guard) prog" where
  "pipe_guard_alloc im s = bnd (new_zeroed (i_bf im) (mem s)) (\<lambda>(a, st).
     Ret (\<lparr>p_data = replicate PIPE_SIZE 0, read_number = 0, write_number = 0, read_open = True, write_open = True\<rparr>, s\<lparr>mem := st\<rparr>))"

definition pipe_alloc :: "image \<Rightarrow> nat \<Rightarrow> ('z kproc_scheme, pipe_guard \<times> vfile \<times> vfile) prog" where
  "pipe_alloc im a = bindp (pipe_guard_alloc im) (\<lambda>g. retp (g,
     vfile_init\<lparr>ftype := FT_Pipe, readable := True, writeable := False, pipe := Some a\<rparr>,
     vfile_init\<lparr>ftype := FT_Pipe, readable := False, writeable := True, pipe := Some a\<rparr>))"

definition upd_pipe :: "nat \<Rightarrow> (pipe_guard \<Rightarrow> pipe_guard) \<Rightarrow> ('z kfile_scheme, unit) prog" where
  "upd_pipe a f = modp (\<lambda>s. s\<lparr>pipes := (pipes s)(a := map_option f (pipes s a))\<rparr>)"

definition pipe_at :: "nat \<Rightarrow> ('z kfile_scheme, pipe_guard) prog" where
  "pipe_at a = bindp (getp pipes) (\<lambda>m. unwrapp ''dangling pointer'' (m a))"

primrec pipe_read_loop :: "nat \<Rightarrow> image \<Rightarrow> nat \<Rightarrow> nat \<Rightarrow> nat \<Rightarrow> nat \<Rightarrow> nat \<Rightarrow> ('z kfile_scheme, nat) prog" where
  "pipe_read_loop 0 im a p addr index i = retp i"
| "pipe_read_loop (Suc n) im a p addr index i = bindp (pipe_at a) (\<lambda>g.
     if read_number g = write_number g then retp i
     else let ch = p_data g ! (read_number g mod PIPE_SIZE) in
       bindp (liftp (uadd (read_number g) 1)) (\<lambda>r. thenp (upd_pipe a (\<lambda>g. g\<lparr>read_number := r\<rparr>))
       (bindp (page_tablep p) (\<lambda>root. bindp (liftp (uadd addr index)) (\<lambda>dst.
        thenp (poke (local_addr im) [ch]) (bindp (copy_outp root dst (local_addr im) 1) (\<lambda>res.
        case res of Inl e \<Rightarrow> retp i | Inr _ \<Rightarrow> pipe_read_loop n im a p addr (Suc index) index)))))))"

definition pipe_read :: "image \<Rightarrow> nat \<Rightarrow> nat \<Rightarrow> nat \<Rightarrow> ('z kfile_scheme, string + nat) prog" where
  "pipe_read im a addr len = bindp myproc (\<lambda>p. bindp (pipe_at a) (\<lambda>g.
     if read_number g = write_number g \<and> write_open g
     then bindp (killedp p) (\<lambda>k. if k then retp (Inl ''pipe read: current process has been killed'') else panicp ''sleep'')
     else bindp (pipe_read_loop len im a p addr 0 0) (\<lambda>i. thenp (wake_upp (ChPipeWrite a)) (retp (Inr i)))))"

primrec pipe_write_loop :: "nat \<Rightarrow> image \<Rightarrow> nat \<Rightarrow> nat \<Rightarrow> nat \<Rightarrow> nat \<Rightarrow> ('z kfile_scheme, string + nat) prog" where
  "pipe_write_loop 0 im a p addr i = retp (Inr i)"
| "pipe_write_loop (Suc n) im a p addr i = bindp (pipe_at a) (\<lambda>g. bindp (killedp p) (\<lambda>k.
     if \<not> read_open g \<or> k then retp (Inl ''pipe write: pipe read close or current process has been killed'')
     else bindp (liftp (uadd (read_number g) PIPE_SIZE)) (\<lambda>full.
       if write_number g = full then thenp (wake_upp (ChPipeRead a)) (panicp ''sleep'')
       else bindp (page_tablep p) (\<lambda>root. bindp (liftp (uadd addr i)) (\<lambda>src.
         thenp (poke (local_addr im) [0]) (bindp (copy_inp root (local_addr im) src 1) (\<lambda>res.
         case res of
           Inl e \<Rightarrow> retp (Inr i)
         | Inr _ \<Rightarrow> bindp (peek (local_addr im) 1) (\<lambda>ch.
             thenp (upd_pipe a (\<lambda>g. g\<lparr>p_data := (p_data g)[write_number g mod PIPE_SIZE := hd ch]\<rparr>))
             (pipe_write_loop n im a p addr (Suc i))))))))))"

definition pipe_write :: "image \<Rightarrow> nat \<Rightarrow> nat \<Rightarrow> nat \<Rightarrow> ('z kfile_scheme, string + nat) prog" where
  "pipe_write im a addr len = bindp myproc (\<lambda>p. tryp (pipe_write_loop len im a p addr 0) (\<lambda>i.
     thenp (wake_upp (ChPipeRead a)) (retp (Inr i))))"

definition pipe_close :: "nat \<Rightarrow> bool \<Rightarrow> ('z kfile_scheme, unit) prog" where
  "pipe_close a w = thenp (pipe_at a)
     (if w then thenp (upd_pipe a (\<lambda>g. g\<lparr>write_open := False\<rparr>)) (wake_upp (ChPipeRead a))
      else thenp (upd_pipe a (\<lambda>g. g\<lparr>read_open := False\<rparr>)) (wake_upp (ChPipeWrite a)))"

text \<open>
  \<open>VFile\<close>. Its routines take the number in \<open>offset\<close> for the address of a counter and add to the four
  bytes there; outside the memory that the kernel maps this access faults.
\<close>

definition add_at_offset :: "nat \<Rightarrow> nat \<Rightarrow> ('z kproc_scheme, unit) prog" where
  "add_at_offset a v = (if a < KERNEL_BASE \<or> a + 4 > PHYSTOP then panicp ''page fault in the kernel''
     else bindp (peek a 4) (\<lambda>bs. bindp (liftp (add32 (le_dec bs) v)) (\<lambda>n. poke a (le_enc 4 n))))"

definition vfile_read :: "image \<Rightarrow> vfile \<Rightarrow> nat \<Rightarrow> nat \<Rightarrow> ('z kfile_scheme, string + nat) prog" where
  "vfile_read im f addr len =
     (if \<not> readable f then panicp ''File can't be read!''
      else case ftype f of
        FT_Pipe \<Rightarrow> bindp (unwrapp ''unwrap'' (pipe f)) (\<lambda>a. pipe_read im a addr len)
      | FT_Device \<Rightarrow> bindp (getp dev_table) (\<lambda>t.
          if major f < 0 \<or> nat (major f) \<ge> NDEV \<or> dev_read (t ! nat (major f)) = FnNull
          then retp (Inl ''[Error] vfs: Fail to read device'')
          else bindp (dev_call im (dev_read (t ! nat (major f))) addr len) (\<lambda>r.
            retp (case r of None \<Rightarrow> Inl ''Fail to read device'' | Some n \<Rightarrow> Inr n)))
      | FT_Inode \<Rightarrow> bindp (unwrapp ''unwrap'' (f_inode f)) (\<lambda>ino. bindp (ilock ino) (\<lambda>g.
          bindp (iread im g True addr (offset f) (len mod u32_lim)) (\<lambda>r.
          case r of
            Inr n \<Rightarrow> thenp (add_at_offset (offset f) n) (thenp (drop_guard g) (retp (Inr n)))
          | Inl e \<Rightarrow> thenp (drop_guard g) (retp (Inl e)))))
      | _ \<Rightarrow> panicp ''Invalid file!'')"

definition vfile_max :: nat where
  "vfile_max = ((MAXOPBLOCKS - 1 - 1 - 2) div 2) * BSIZE"

primrec vfile_write_loop :: "nat \<Rightarrow> image \<Rightarrow> vfile \<Rightarrow> nat \<Rightarrow> nat \<Rightarrow> nat \<Rightarrow> ('z kfile_scheme, string + nat) prog" where
  "vfile_write_loop 0 im f addr count len = (if count < len then panicp ''endless loop'' else retp (Inr count))"
| "vfile_write_loop (Suc fuel) im f addr count len =
     (if count < len then let n = min (len - count) vfile_max in
        thenp begin_op (bindp (unwrapp ''unwrap'' (f_inode f)) (\<lambda>ino. bindp (ilock ino) (\<lambda>g.
        bindp (liftp (uadd addr count)) (\<lambda>a. bindp (iwrite im g True a (offset f) (n mod u32_lim)) (\<lambda>r.
        case r of
          Inl e \<Rightarrow> thenp (drop_guard g) (retp (Inl e))
        | Inr _ \<Rightarrow> thenp (drop_guard g) (thenp end_op (thenp (add_at_offset (offset f) (n mod u32_lim))
            (vfile_write_loop fuel im f addr (count + n) len))))))))
      else retp (Inr count))"

definition vfile_write :: "image \<Rightarrow> vfile \<Rightarrow> nat \<Rightarrow> nat \<Rightarrow> ('z kfile_scheme, string + nat) prog" where
  "vfile_write im f addr len =
     (if \<not> writeable f then panicp ''file can't be written''
      else case ftype f of
        FT_Pipe \<Rightarrow> bindp (unwrapp ''unwrap'' (pipe f)) (\<lambda>a. pipe_write im a addr len)
      | FT_Device \<Rightarrow> bindp (getp dev_table) (\<lambda>t.
          if major f < 0 \<or> nat (major f) \<ge> NDEV \<or> dev_write (t ! nat (major f)) = FnNull
          then retp (Inl ''Fail to write to device'')
          else bindp (dev_call im (dev_write (t ! nat (major f))) addr len) (\<lambda>r.
            retp (case r of None \<Rightarrow> Inl ''Fail to write device'' | Some n \<Rightarrow> Inr n)))
      | FT_Inode \<Rightarrow> vfile_write_loop len im f addr 0 len
      | _ \<Rightarrow> panicp ''Invalid File Type!'')"

text \<open>\<open>Stat\<close> takes 24 bytes; the four bytes of padding keep what the memory held.\<close>

record stat =
  st_dev :: nat
  st_inum :: nat
  st_itype :: InodeType
  st_nlink :: int
  st_size :: nat

definition stat_new :: stat where
  "stat_new = \<lparr>st_dev = 0, st_inum = 0, st_itype = Empty, st_nlink = 0, st_size = 0\<rparr>"

definition inode_stat :: "inode_data \<Rightarrow> stat \<Rightarrow> stat" where
  "inode_stat x st = st\<lparr>st_dev := id_dev x, st_inum := id_inum x, st_itype := itype (dnode x),
     st_nlink := nlink (dnode x), st_size := d_size (dnode x)\<rparr>"

definition stat_head :: "stat \<Rightarrow> 8 word list" where
  "stat_head st = le_enc 4 (st_dev st) @ le_enc 4 (st_inum st) @ le_enc 2 (itype_num (st_itype st)) @ le_enc 2 (i16_enc (st_nlink st))"

definition vfile_stat :: "image \<Rightarrow> vfile \<Rightarrow> nat \<Rightarrow> ('z kfile_scheme, string + unit) prog" where
  "vfile_stat im f addr = bindp myproc (\<lambda>p.
     if ftype f = FT_Device \<or> ftype f = FT_Inode
     then bindp (unwrapp ''unwrap'' (f_inode f)) (\<lambda>ino. bindp (ilock ino) (\<lambda>g. bindp (idata_at g) (\<lambda>x.
       let st = inode_stat x stat_new in
       thenp (drop_guard g) (bindp (page_tablep p) (\<lambda>root.
       thenp (poke (local_addr im) (stat_head st)) (thenp (poke (local_addr im + 16) (le_enc 8 (st_size st)))
       (copy_outp root addr (local_addr im) 24)))))))
     else retp (Inl ''''))"

end
