(* ===== verification/FilesProps.thy ===== *)
theory FilesProps
  imports Frames Files
begin

text \<open>
  A property of pipes (\<open>fs/pipe.rs\<close>): the effect of a \<open>write\<close> that does not advance \<open>write_number\<close>.
\<close>

definition pipe_empty :: "nat \<Rightarrow> 'z kfile_scheme \<Rightarrow> bool" where
  "pipe_empty a s \<longleftrightarrow> (\<exists>g. pipes s a = Some g \<and> read_number g = write_number g)"

lemma keeps_pipe [frame]:
  "keeps (pipe_empty a) (wake_upp ch)" "keeps (pipe_empty a) (copy_inp root b src len)" "keeps (pipe_empty a) (poke b bs)"
  by (auto simp: keeps_def pipe_empty_def wake_upp_def copy_inp_def poke_def modp_def bnd_eq_Ret)

lemma keeps_pipe_get [frame]:
  "keeps (pipe_empty a) (pipe_at b)" "keeps (pipe_empty a) (killedp p)" "keeps (pipe_empty a) (page_tablep p)"
  "keeps (pipe_empty a) (peek c n)" "keeps (pipe_empty a) myproc"
  by (auto simp: pipe_at_def killedp_def page_tablep_def proc_at_def peek_def myproc_def intro!: frame)

lemma keeps_store [frame]: "keeps (pipe_empty a) (upd_pipe a (\<lambda>g. g\<lparr>p_data := f g\<rparr>))"
  by (auto simp: upd_pipe_def pipe_empty_def intro!: frame)

lemma keeps_pipe_write: "keeps (pipe_empty a) (pipe_write_loop n im a p addr i)"
  by (induction n arbitrary: i) (auto intro!: frame)

lemma keeps_pipe_all: "keeps (pipe_empty a) (pipe_write im a addr len)"
  by (auto simp: pipe_write_def intro!: frame keeps_pipe_write)

text \<open>C35: Nothing that is written to a pipe can be read from it. Starting from an empty pipe, as \<open>Pipe::alloc\<close>
  makes it, every \<open>write\<close> that returns leaves the pipe empty, whatever it has stored; and \<open>read\<close> on an empty
  pipe returns 0 bytes or the error for a killed process and writes nothing to memory, or waits.\<close>

theorem pipe_delivers_nothing:
  fixes s :: "'z kfile_scheme"
  assumes "pipe_empty a s"
  shows "(\<forall>im addr len r s'. pipe_write im a addr len s = Ret (r, s') \<longrightarrow> pipe_empty a s') \<and>
    (\<forall>im addr len r s'. pipe_read im a addr len s = Ret (r, s') \<longrightarrow>
      (r = Inr 0 \<or> r = Inl ''pipe read: current process has been killed'') \<and> mem s' = mem s \<and> pipes s' = pipes s)"
proof (intro conjI allI impI)
  show "pipe_write im a addr len s = Ret (r, s') \<Longrightarrow> pipe_empty a s'" for im addr len r s'
    using keepsD [OF keeps_pipe_all assms] .
next
  fix im addr len r s' assume rd: "pipe_read im a addr len s = Ret (r, s')"
  obtain g where g: "pipes s a = Some g" "read_number g = write_number g" using assms by (auto simp: pipe_empty_def)
  have at: "pipe_at a t = Ret (g, t)" if "pipes t = pipes s" for t using that g by (simp add: pipe_at_def prog_run)
  have loop: "pipe_read_loop len im a p addr 0 0 t = Ret (0, t)" if "pipes t = pipes s" for p and t :: "'z kfile_scheme"
    using at [OF that] g(2) by (cases len) (simp_all add: prog_run)
  obtain p where p: "myproc s = Ret (p, s)"
    using rd by (cases "cur s") (auto simp: pipe_read_def myproc_def prog_run)
  have "(if write_open g then bindp (killedp p) (\<lambda>k. if k then retp (Inl ''pipe read: current process has been killed'') else panicp ''sleep'')
     else bindp (pipe_read_loop len im a p addr 0 0) (\<lambda>i. thenp (wake_upp (ChPipeWrite a)) (retp (Inr i)))) s = Ret (r, s')"
    using rd g(2) unfolding pipe_read_def bindp_run(1) [of myproc, OF p] bindp_run(1) [of "pipe_at a", OF at [OF refl]] by simp
  then show "r = Inr 0 \<or> r = Inl ''pipe read: current process has been killed''" "mem s' = mem s" "pipes s' = pipes s"
    using loop [OF refl] by (auto simp: killedp_def prog_run wake_upp_def split: if_splits)
qed

text \<open>A fresh pipe and a killed process.\<close>

definition demo_pipe :: kfile where
  "demo_pipe = \<lparr>procs = [set_killed True process_new], init_proc = None, pids = 0, cur = Some 0, mem = \<lparr>ram = (\<lambda>_. 0), heap = bs_uninit demo_mem\<rparr>,
     cache = bcache_new (\<lambda>_. replicate BSIZE 0), sb = superblock_uninit, wal = log_uninit,
     imeta = fst icache_new, idata = snd icache_new, uart_st = uart_new, console_st = console_new, rx = [], tx = [], tx_room = 0,
     panicked = False, arcs = (\<lambda>_. None), next_arc = 0,
     pipes = [7 \<mapsto> \<lparr>p_data = replicate PIPE_SIZE 0, read_number = 0, write_number = 0, read_open = True, write_open = False\<rparr>],
     dev_table = device_list_uninit, ticks = 0\<rparr>"

theorem pipe_delivers_nothing_witness:
  "\<forall>im addr. (\<exists>s'. pipe_write im 7 addr 0 demo_pipe = Ret (Inr 0, s') \<and> pipe_empty 7 s') \<and>
     (\<exists>t. pipe_read im 7 addr 3 demo_pipe = Ret (Inr 0, t) \<and> mem t = mem demo_pipe)"
proof (intro allI conjI)
  fix im addr
  have e: "pipe_empty 7 demo_pipe" by (simp add: pipe_empty_def demo_pipe_def)
  note n = pipe_delivers_nothing [OF e]
  have c: "cur demo_pipe = Some 0" "pipes demo_pipe 7 = Some \<lparr>p_data = replicate PIPE_SIZE 0, read_number = 0, write_number = 0, read_open = True, write_open = False\<rparr>"
    by (simp_all add: demo_pipe_def)
  obtain s' where w: "pipe_write im 7 addr 0 demo_pipe = Ret (Inr 0, s')"
    by (simp add: pipe_write_def myproc_def wake_upp_def prog_run c)
  then show "\<exists>s'. pipe_write im 7 addr 0 demo_pipe = Ret (Inr 0, s') \<and> pipe_empty 7 s'" using n [THEN conjunct1, rule_format, OF w] by blast
  obtain t where t: "pipe_read im 7 addr 3 demo_pipe = Ret (Inr 0, t)"
    by (simp add: pipe_read_def myproc_def pipe_at_def wake_upp_def prog_run c numeral_3_eq_3)
  then show "\<exists>t. pipe_read im 7 addr 3 demo_pipe = Ret (Inr 0, t) \<and> mem t = mem demo_pipe" using n [THEN conjunct2, rule_format, OF t] by blast
qed

end
