(* ===== verification/ConsoleProps.thy ===== *)
theory ConsoleProps
  imports Frames Console
begin

text \<open>
  The rings of the serial port and the console (\<open>driver/uart.rs\<close>, \<open>driver/console.rs\<close>). Their indices
  wrap around at 64 bits; the sizes of the rings divide the range of the indices, so that the place of an
  index in the ring is not disturbed by the wrap-around.
\<close>

subsection \<open>Indices that wrap around\<close>

lemma unat_ring: "k dvd 2 ^ 64 \<Longrightarrow> unat ((x :: 64 word) + of_nat i) mod k = (unat x + i) mod k"
proof -
  assume k: "k dvd 2 ^ 64"
  have "unat (x + of_nat i) = (unat x + i) mod 2 ^ 64" by (simp add: unat_word_ariths unat_of_nat mod_simps)
  then show ?thesis using k by (simp add: mod_mod_cancel)
qed

lemma unat_up: "unat (d :: 64 word) < 2 ^ 64 - 1 \<Longrightarrow> unat (d + 1) = unat d + 1"
proof -
  assume "unat d < 2 ^ 64 - 1"
  moreover have "unat (d + 1) = (unat d + 1) mod 2 ^ 64" by (simp add: unat_word_ariths)
  ultimately show ?thesis by simp
qed

lemma unat_down: "(d :: 64 word) \<noteq> 0 \<Longrightarrow> unat (d - 1) = unat d - 1"
  by (metis unat_minus_one)

subsection \<open>The transmit ring is a bounded queue\<close>

definition uart_inv :: "uart \<Rightarrow> bool" where
  "uart_inv u \<longleftrightarrow> length (u_buf u) = UART_BUF_SIZE \<and> unat (u_write u - u_read u) \<le> UART_BUF_SIZE"

definition uart_q :: "uart \<Rightarrow> 8 word list" where
  "uart_q u = map (\<lambda>i. u_buf u ! ((unat (u_read u) + i) mod UART_BUF_SIZE)) [0..<unat (u_write u - u_read u)]"

lemma uart_q_length [simp]: "length (uart_q u) = unat (u_write u - u_read u)"
  by (simp add: uart_q_def)

lemma ring_dvd: "UART_BUF_SIZE dvd 2 ^ 64"
  by (simp add: UART_BUF_SIZE_def)

lemma write_place: "unat (u_write u) mod UART_BUF_SIZE = (unat (u_read u) + unat (u_write u - u_read u)) mod UART_BUF_SIZE"
  using unat_ring [OF ring_dvd, of "u_read u" "unat (u_write u - u_read u)"] by simp

lemma ring_full: "u_write u = u_read u + of_nat UART_BUF_SIZE \<longleftrightarrow> unat (u_write u - u_read u) = UART_BUF_SIZE"
proof -
  have "u_write u = u_read u + of_nat UART_BUF_SIZE \<longleftrightarrow> u_write u - u_read u = of_nat UART_BUF_SIZE" by (auto simp: algebra_simps)
  also have "\<dots> \<longleftrightarrow> unat (u_write u - u_read u) = unat (of_nat UART_BUF_SIZE :: 64 word)" by (rule word_unat_eq_iff)
  also have "unat (of_nat UART_BUF_SIZE :: 64 word) = UART_BUF_SIZE" by (simp add: UART_BUF_SIZE_def)
  finally show ?thesis .
qed

lemma mod_neq: "j < n \<Longrightarrow> n < (k :: nat) \<Longrightarrow> (r + j) mod k \<noteq> (r + n) mod k"
proof
  assume a: "j < n" "n < k" "(r + j) mod k = (r + n) mod k"
  then have "k dvd (r + n) - (r + j)" by (intro mod_eq_dvd_iff_nat [THEN iffD1]) auto
  then show False using a by (auto dest: dvd_imp_le)
qed

lemma uart_enq:
  assumes "uart_inv u" "unat (u_write u - u_read u) < UART_BUF_SIZE"
  shows "uart_inv (u\<lparr>u_buf := (u_buf u)[unat (u_write u) mod UART_BUF_SIZE := c], u_write := u_write u + 1\<rparr>)" (is "uart_inv ?u")
    "uart_q (u\<lparr>u_buf := (u_buf u)[unat (u_write u) mod UART_BUF_SIZE := c], u_write := u_write u + 1\<rparr>) = uart_q u @ [c]"
proof -
  let ?n = "unat (u_write u - u_read u)"
  have n: "unat (u_write u + 1 - u_read u) = ?n + 1"
  proof -
    have "u_write u + 1 - u_read u = (u_write u - u_read u) + 1" by simp
    moreover have "?n < 2 ^ 64 - 1" using assms(2) by (simp add: UART_BUF_SIZE_def)
    ultimately show ?thesis using unat_up by metis
  qed
  show "uart_inv ?u" using assms n by (simp add: uart_inv_def)
  have p: "unat (u_write u) mod UART_BUF_SIZE = (unat (u_read u) + ?n) mod UART_BUF_SIZE" by (rule write_place)
  have l: "(unat (u_read u) + ?n) mod UART_BUF_SIZE < length (u_buf u)" using assms(1) by (simp add: uart_inv_def UART_BUF_SIZE_def)
  have "(u_buf u)[(unat (u_read u) + ?n) mod UART_BUF_SIZE := c] ! ((unat (u_read u) + j) mod UART_BUF_SIZE)
    = u_buf u ! ((unat (u_read u) + j) mod UART_BUF_SIZE)" if "j < ?n" for j
    using mod_neq [OF that assms(2), of "unat (u_read u)"] by (metis nth_list_update_neq)
  then show "uart_q (u\<lparr>u_buf := (u_buf u)[unat (u_write u) mod UART_BUF_SIZE := c], u_write := u_write u + 1\<rparr>) = uart_q u @ [c]" using n l by (simp add: uart_q_def p)
qed

lemma uart_deq:
  assumes "uart_inv u" "u_write u \<noteq> u_read u"
  shows "uart_inv (u\<lparr>u_read := u_read u + 1\<rparr>)" (is "uart_inv ?u")
    "uart_q u = u_buf u ! (unat (u_read u) mod UART_BUF_SIZE) # uart_q (u\<lparr>u_read := u_read u + 1\<rparr>)"
proof -
  let ?d = "u_write u - u_read u"
  have d: "?d \<noteq> 0" using assms(2) by simp
  have "u_write u - (u_read u + 1) = ?d - 1" by (simp add: diff_diff_eq)
  then have n: "unat (u_write u - (u_read u + 1)) = unat ?d - 1" using unat_down [OF d] by (simp only:)
  have pos: "0 < unat ?d" using d by (simp add: word_neq_0_conv unat_gt_0)
  show "uart_inv ?u" using assms(1) n by (auto simp: uart_inv_def)
  have s: "(unat (u_read u + 1) + i) mod UART_BUF_SIZE = (unat (u_read u) + Suc i) mod UART_BUF_SIZE" for i
  proof -
    have e: "unat (u_read u + 1) mod UART_BUF_SIZE = (unat (u_read u) + 1) mod UART_BUF_SIZE"
      using unat_ring [OF ring_dvd, of "u_read u" 1] by simp
    show ?thesis by (subst mod_add_left_eq [symmetric], subst e) (simp add: mod_add_left_eq)
  qed
  obtain m where m: "unat ?d = Suc m" using pos by (cases "unat ?d") auto
  show "uart_q u = u_buf u ! (unat (u_read u) mod UART_BUF_SIZE) # uart_q (u\<lparr>u_read := u_read u + 1\<rparr>)"
    using n m by (simp add: uart_q_def s map_upt_Suc del: upt_Suc)
qed

lemma transmit_loop_run:
  "uart_inv (uart_st s) \<Longrightarrow> \<exists>s'. transmit_loop n s = Ret ((), s') \<and> uart_inv (uart_st s') \<and> tx s' = tx s @ take n (uart_q (uart_st s)) \<and>
     uart_q (uart_st s') = drop n (uart_q (uart_st s)) \<and> panicked s' = panicked s \<and> rx s' = rx s"
proof (induction n arbitrary: s)
  case 0
  then show ?case by (simp add: retp_def)
next
  case (Suc n)
  let ?u = "uart_st s"
  show ?case
  proof (cases "u_write ?u = u_read ?u")
    case True
    then have "uart_q ?u = []" by (simp add: uart_q_def)
    then show ?thesis using Suc.prems True by (simp add: prog_run)
  next
    case False
    note d = uart_deq [OF Suc.prems False]
    let ?c = "u_buf ?u ! (unat (u_read ?u) mod UART_BUF_SIZE)" and ?v = "?u\<lparr>u_read := u_read ?u + 1\<rparr>"
    let ?s = "s\<lparr>uart_st := ?v, procs := wake_up ChUart (procs s), tx := tx s @ [?c], tx_room := tx_room s - 1\<rparr>"
    have "transmit_loop (Suc n) s = transmit_loop n ?s" using False by (simp add: prog_run wake_upp_def write_thr_def)
    moreover obtain s' where "transmit_loop n ?s = Ret ((), s')" "uart_inv (uart_st s')" "tx s' = tx ?s @ take n (uart_q ?v)"
      "uart_q (uart_st s') = drop n (uart_q ?v)" "panicked s' = panicked s" "rx s' = rx s"
      using Suc.IH [of ?s] d(1) by auto
    ultimately show ?thesis using d(2) by auto
  qed
qed

text \<open>C36: The serial port transmits in order. The ring buffer with its wrapping indices is a queue of at most
  \<open>UART_BUF_SIZE\<close> bytes: \<open>putc\<close> returns when the queue is not full; the bytes transmitted so far followed
  by the bytes in the queue are then what they were, with the new byte at the end. The transmitter takes
  bytes from the front of the queue as long as it has room.\<close>

theorem uart_is_fifo:
  assumes "uart_inv (uart_st s)" and "\<not> panicked s"
  shows "(length (uart_q (uart_st s)) < UART_BUF_SIZE \<longrightarrow> (\<exists>s'. uart_putc c s = Ret ((), s') \<and> uart_inv (uart_st s') \<and>
      tx s' = tx s @ take (tx_room s) (uart_q (uart_st s) @ [c]) \<and> uart_q (uart_st s') = drop (tx_room s) (uart_q (uart_st s) @ [c]))) \<and>
    (length (uart_q (uart_st s)) = UART_BUF_SIZE \<longrightarrow> uart_putc c s = Panic ''sleep'') \<and>
    (\<exists>s'. transmit s = Ret ((), s') \<and> uart_inv (uart_st s') \<and> tx s' @ uart_q (uart_st s') = tx s @ uart_q (uart_st s))"
proof (intro conjI impI)
  let ?u = "uart_st s"
  assume "length (uart_q ?u) < UART_BUF_SIZE"
  then have n: "unat (u_write ?u - u_read ?u) < UART_BUF_SIZE" by simp
  let ?s = "s\<lparr>uart_st := ?u\<lparr>u_buf := (u_buf ?u)[unat (u_write ?u) mod UART_BUF_SIZE := c], u_write := u_write ?u + 1\<rparr>\<rparr>"
  have "uart_putc c s = transmit_loop (tx_room s) ?s"
    using assms(2) n ring_full [of ?u] by (simp add: uart_putc_def prog_run transmit_def)
  then show "\<exists>s'. uart_putc c s = Ret ((), s') \<and> uart_inv (uart_st s') \<and>
      tx s' = tx s @ take (tx_room s) (uart_q ?u @ [c]) \<and> uart_q (uart_st s') = drop (tx_room s) (uart_q ?u @ [c])"
    using transmit_loop_run [of ?s "tx_room s"] uart_enq [OF assms(1) n, of c] by auto
next
  assume "length (uart_q (uart_st s)) = UART_BUF_SIZE"
  then show "uart_putc c s = Panic ''sleep''" using assms(2) ring_full [of "uart_st s"] by (simp add: uart_putc_def prog_run)
next
  show "\<exists>s'. transmit s = Ret ((), s') \<and> uart_inv (uart_st s') \<and> tx s' @ uart_q (uart_st s') = tx s @ uart_q (uart_st s)"
    using transmit_loop_run [OF assms(1), of "tx_room s"] by (auto simp: transmit_def prog_run)
qed

definition demo_dev :: "64 word \<Rightarrow> nat \<Rightarrow> kdev" where
  "demo_dev i room1 = \<lparr>procs = [], init_proc = None, pids = 0, cur = None, mem = \<lparr>ram = (\<lambda>_. 0), heap = bs_uninit demo_mem\<rparr>,
     cache = bcache_new (\<lambda>_. replicate BSIZE 0), sb = superblock_uninit, wal = log_uninit,
     imeta = fst icache_new, idata = snd icache_new, uart_st = uart_new\<lparr>u_write := i, u_read := i\<rparr>,
     console_st = console_new\<lparr>c_read := i, c_write := i, c_edit := i\<rparr>, rx = [], tx = [], tx_room = room1, panicked = False\<rparr>"

text \<open>The indices stand right before the wrap-around.\<close>

theorem uart_is_fifo_witness:
  "\<exists>s'. uart_putc 65 (demo_dev (- 1) 0) = Ret ((), s') \<and> tx s' = [] \<and> uart_q (uart_st s') = [65]"
proof -
  have "uart_inv (uart_st (demo_dev (- 1) 0))" "\<not> panicked (demo_dev (- 1) 0)" "uart_q (uart_st (demo_dev (- 1) 0)) = []"
    "tx (demo_dev (- 1) 0) = []" "tx_room (demo_dev (- 1) 0) = 0"
    by (simp_all add: demo_dev_def uart_inv_def uart_new_def uart_q_def)
  then show ?thesis using uart_is_fifo [of "demo_dev (- 1) 0" 65] by (auto simp: UART_BUF_SIZE_def)
qed

subsection \<open>The console\<close>

text \<open>
  The bytes of the ring from \<open>c_read\<close> on: first whole lines up to \<open>c_write\<close>, which a reader may take, then
  the line that is being edited, up to \<open>c_edit\<close>.
\<close>

definition con_inv :: "console \<Rightarrow> bool" where
  "con_inv con \<longleftrightarrow> length (c_buf con) = INPUT_BUF \<and> unat (c_write con - c_read con) \<le> unat (c_edit con - c_read con) \<and>
     unat (c_edit con - c_read con) \<le> INPUT_BUF"

lemma diff_shift: "(a + 1) - b = (a - b) + (1 :: 64 word)" "(a - 1) - b = (a - b) - (1 :: 64 word)" "a - (b + 1) = (a - b) - (1 :: 64 word)"
  by (simp_all add: algebra_simps)

lemma con_type:
  assumes "con_inv con" "unat (c_edit con - c_read con) < INPUT_BUF"
  shows "con_inv (con\<lparr>c_buf := (c_buf con)[i := c], c_edit := c_edit con + 1\<rparr>)"
proof -
  have "unat (c_edit con - c_read con + 1) = unat (c_edit con - c_read con) + 1"
    using assms(2) by (intro unat_up) (simp add: INPUT_BUF_def)
  then show ?thesis using assms by (auto simp: con_inv_def diff_shift(1))
qed

lemma con_commit: "con_inv con \<Longrightarrow> con_inv (con\<lparr>c_write := c_edit con\<rparr>)"
  by (simp add: con_inv_def)

lemma con_erase:
  assumes "con_inv con" "c_edit con \<noteq> c_write con"
  shows "con_inv (con\<lparr>c_edit := c_edit con - 1\<rparr>)"
proof -
  have "unat (c_edit con - c_read con) \<noteq> unat (c_write con - c_read con)" using assms(2) by (simp add: word_unat_eq_iff [symmetric])
  then have l: "unat (c_write con - c_read con) < unat (c_edit con - c_read con)" using assms(1) by (auto simp: con_inv_def)
  then have "c_edit con - c_read con \<noteq> 0" by (metis not_less_zero unat_0)
  from unat_down [OF this] show ?thesis using assms(1) l by (auto simp: con_inv_def diff_shift(2))
qed

lemma con_take:
  assumes "con_inv con" "c_read con \<noteq> c_write con"
  shows "con_inv (con\<lparr>c_read := c_read con + 1\<rparr>)"
proof -
  have w: "c_write con - c_read con \<noteq> 0" using assms(2) by simp
  then have "unat (c_write con - c_read con) \<noteq> 0" by (metis unat_eq_zero)
  then have e: "c_edit con - c_read con \<noteq> 0" using assms(1) by (auto simp: con_inv_def)
  show ?thesis using unat_down [OF w] unat_down [OF e] assms(1) by (auto simp: con_inv_def diff_shift(3))
qed

text \<open>Echoing a byte leaves the console alone.\<close>

lemma putc_sync_run:
  "\<not> panicked s \<Longrightarrow> \<exists>s'. putc_sync c s = Ret ((), s') \<and> console_st s' = console_st s \<and> \<not> panicked s'"
  by (simp add: putc_sync_def uart_send_def write_thr_def prog_run)

lemma console_putc_run:
  assumes "\<not> panicked s"
  shows "\<exists>s'. console_putc c s = Ret ((), s') \<and> console_st s' = console_st s \<and> \<not> panicked s'"
proof (cases "c = CTRL_BS")
  case True
  obtain s1 where s1: "putc_sync CTRL_BS s = Ret ((), s1)" "console_st s1 = console_st s" "\<not> panicked s1" using putc_sync_run [OF assms] by blast
  obtain s2 where s2: "putc_sync 32 s1 = Ret ((), s2)" "console_st s2 = console_st s1" "\<not> panicked s2" using putc_sync_run [OF s1(3)] by blast
  obtain s3 where s3: "putc_sync CTRL_BS s2 = Ret ((), s3)" "console_st s3 = console_st s2" "\<not> panicked s3" using putc_sync_run [OF s2(3)] by blast
  show ?thesis using True s1 s2 s3 by (simp add: console_putc_def thenp_def bindp_def)
qed (use putc_sync_run [OF assms] in \<open>simp add: console_putc_def\<close>)

lemma erase_line_run:
  assumes "\<not> panicked s" "con_inv (console_st s)" "n = unat (c_edit (console_st s) - c_write (console_st s))"
  shows "\<exists>s'. erase_line n s = Ret ((), s') \<and> con_inv (console_st s') \<and> \<not> panicked s' \<and>
    c_read (console_st s') = c_read (console_st s) \<and> c_write (console_st s') = c_write (console_st s) \<and>
    (c_edit (console_st s') = c_write (console_st s') \<or> c_buf (console_st s') ! (unat (c_edit (console_st s') - 1) mod INPUT_BUF) = CTRL_LF)"
  using assms
proof (induction n arbitrary: s)
  case 0
  then have "c_edit (console_st s) - c_write (console_st s) = 0" by (metis unat_eq_zero)
  then show ?case using 0 by (simp add: retp_def)
next
  case (Suc n)
  let ?con = "console_st s"
  have ne: "c_edit ?con - c_write ?con \<noteq> 0" using Suc.prems(3) by (metis nat.simps(3) unat_0)
  show ?case
  proof (cases "c_buf ?con ! (unat (c_edit ?con - 1) mod INPUT_BUF) = CTRL_LF")
    case True
    then show ?thesis using Suc.prems(1,2) by (simp add: prog_run)
  next
    case False
    let ?v = "?con\<lparr>c_edit := c_edit ?con - 1\<rparr>"
    have w: "c_edit ?con \<noteq> c_write ?con" using ne by simp
    obtain s1 where s1: "console_putc CTRL_BS (s\<lparr>console_st := ?v\<rparr>) = Ret ((), s1)" "console_st s1 = ?v" "\<not> panicked s1"
      using console_putc_run [of "s\<lparr>console_st := ?v\<rparr>"] Suc.prems(1) by auto
    have "unat (c_edit ?v - c_write ?v) = n" using unat_down [OF ne] Suc.prems(3) by (simp add: diff_shift(2))
    then have "\<exists>s'. erase_line n s1 = Ret ((), s') \<and> con_inv (console_st s') \<and> \<not> panicked s' \<and>
      c_read (console_st s') = c_read (console_st s1) \<and> c_write (console_st s') = c_write (console_st s1) \<and>
      (c_edit (console_st s') = c_write (console_st s') \<or> c_buf (console_st s') ! (unat (c_edit (console_st s') - 1) mod INPUT_BUF) = CTRL_LF)"
      using Suc.IH [OF s1(3)] con_erase [OF Suc.prems(2) w] s1(2) by simp
    then show ?thesis using False w s1(1,2) by (simp add: getp_def modp_def thenp_def bindp_def)
  qed
qed

lemma console_input_run:
  assumes "\<not> panicked s" "con_inv (console_st s)"
  shows "\<exists>s'. console_input c s = Ret ((), s') \<and> con_inv (console_st s') \<and> \<not> panicked s'"
proof (cases "c \<noteq> 0 \<and> unat (c_edit (console_st s) - c_read (console_st s)) < INPUT_BUF")
  case True
  let ?con = "console_st s" and ?c = "if c = CTRL_CR then CTRL_LF else c"
  let ?v = "?con\<lparr>c_buf := (c_buf ?con)[unat (c_edit ?con) mod INPUT_BUF := ?c], c_edit := c_edit ?con + 1\<rparr>"
  obtain s1 where s1: "console_putc ?c s = Ret ((), s1)" "\<not> panicked s1" using console_putc_run [OF assms(1)] by blast
  have v: "con_inv ?v" using con_type [OF assms(2)] True by blast
  define b where "b \<longleftrightarrow> ?c = CTRL_LF \<or> ?c = CTRL_EOT \<or> unat (c_edit ?v - c_read ?v) = INPUT_BUF"
  have "console_input c s = (if b then thenp (modp (\<lambda>s. s\<lparr>console_st := ?v\<lparr>c_write := c_edit ?v\<rparr>\<rparr>)) (wake_upp ChConsole)
      else modp (\<lambda>s. s\<lparr>console_st := ?v\<rparr>)) s1"
    unfolding console_input_def b_def using True s1(1) by (simp only: getp_def bindp_def thenp_def Let_def if_True bnd.simps prod.case simp_thms)
  then show ?thesis using v con_commit [OF v] s1(2) by (auto simp: prog_run wake_upp_def)
qed (use assms in \<open>auto simp: console_input_def prog_run\<close>)

lemma copy_byte_console: "copy_byte_out im user dst c s = Ret (r, s') \<Longrightarrow> console_st s' = console_st s"
  by (auto simp: copy_byte_out_def Let_def bnd_eq_Ret)

lemma console_read_keeps: "con_inv (console_st s) \<Longrightarrow> console_read_loop n im user dst sz s = Ret (r, s') \<Longrightarrow> con_inv (console_st s')"
proof (induction n arbitrary: s dst)
  case 0
  then show ?case by (simp add: retp_def)
next
  case (Suc n)
  let ?con = "console_st s"
  show ?case
  proof (cases "c_read ?con = c_write ?con")
    case True
    then have "bindp myproc (\<lambda>p. bindp (killedp p) (\<lambda>k. if k then retp None else panicp ''sleep'')) s = Ret (r, s')"
      using Suc.prems(2) by (simp add: getp_def bindp_def)
    then have "console_st s' = ?con" by (cases "cur s") (auto simp: myproc_def killedp_def prog_run split: if_splits)
    then show ?thesis using Suc.prems(1) by simp
  next
    case False
    let ?c = "c_buf ?con ! (unat (c_read ?con) mod INPUT_BUF)" and ?s = "s\<lparr>console_st := ?con\<lparr>c_read := c_read ?con + 1\<rparr>\<rparr>"
    have v: "con_inv (console_st ?s)" using con_take [OF Suc.prems(1) False] by simp
    have run: "(if ?c = CTRL_EOT
        then thenp (modp (\<lambda>s. if Suc n < sz then s\<lparr>console_st := ?con\<rparr> else s)) (retp (Some (sz - Suc n)))
        else bindp (copy_byte_out im user dst ?c) (\<lambda>r.
          case r of
            Inl e \<Rightarrow> retp (Some (sz - Suc n))
          | Inr _ \<Rightarrow> bindp (liftp (uadd dst 1)) (\<lambda>dst'.
              if ?c = CTRL_LF then retp (Some (sz - n)) else console_read_loop n im user dst' sz))) ?s = Ret (r, s')"
      using Suc.prems(2) False by (simp add: getp_def modp_def bindp_def thenp_def Let_def)
    show ?thesis
    proof (cases "?c = CTRL_EOT")
      case True
      then show ?thesis using run v Suc.prems(1) by (auto simp: prog_run split: if_splits)
    next
      case nf: False
      obtain q s1 where q: "copy_byte_out im user dst ?c ?s = Ret (q, s1)" using run nf by (auto simp: bindp_Ret)
      have c1: "con_inv (console_st s1)" using copy_byte_console [OF q] v by simp
      show ?thesis
      proof (cases "\<exists>e. q = Inl e")
        case True
        then show ?thesis using run nf q c1 by (auto simp: bindp_def retp_def)
      next
        case False
        then obtain u where u: "q = Inr u" by (cases q) auto
        have "bindp (liftp (uadd dst 1)) (\<lambda>dst'. if ?c = CTRL_LF then retp (Some (sz - n)) else console_read_loop n im user dst' sz) s1 = Ret (r, s')"
          using run nf q u by (simp add: bindp_def)
        then show ?thesis using Suc.IH c1 by (auto simp: liftp_def bindp_Ret retp_def uadd_def split: if_splits)
      qed
    qed
  qed
qed

text \<open>C37: The input of the console stays in its ring. In a console whose indices satisfy read \<open>\<le>\<close> write \<open>\<le>\<close> edit \<open>\<le>\<close>
  read + 128, up to the wrap-around of the indices, every interrupt with any byte is handled (the loop of
  \<open>^U\<close> included) and leaves such a console, and so does every \<open>read\<close> that returns. After \<open>^U\<close> the line is
  erased back to its beginning.\<close>

theorem console_keeps_ring:
  assumes "con_inv (console_st s)" and "\<not> panicked s"
  shows "(\<exists>s'. console_intr c s = Ret ((), s') \<and> con_inv (console_st s') \<and> \<not> panicked s' \<and>
      (c = CTRL_BS_LINE \<longrightarrow> c_edit (console_st s') = c_write (console_st s') \<or>
        c_buf (console_st s') ! (unat (c_edit (console_st s') - 1) mod INPUT_BUF) = CTRL_LF)) \<and>
    (\<forall>im user dst sz r s'. console_read im user dst sz s = Ret (r, s') \<longrightarrow> con_inv (console_st s'))"
proof (intro conjI allI impI)
  show "console_read im user dst sz s = Ret (r, s') \<Longrightarrow> con_inv (console_st s')" for im user dst sz r s'
    using console_read_keeps [OF assms(1)] by (simp add: console_read_def)
next
  let ?con = "console_st s"
  consider "c = CTRL_PRINT_PROCESS" | "c = CTRL_BS_LINE" | "c = CTRL_BS \<or> c = CTRL_DEL"
    | "c \<noteq> CTRL_PRINT_PROCESS" "c \<noteq> CTRL_BS_LINE" "c \<noteq> CTRL_BS" "c \<noteq> CTRL_DEL" by blast
  then show "\<exists>s'. console_intr c s = Ret ((), s') \<and> con_inv (console_st s') \<and> \<not> panicked s' \<and>
      (c = CTRL_BS_LINE \<longrightarrow> c_edit (console_st s') = c_write (console_st s') \<or>
        c_buf (console_st s') ! (unat (c_edit (console_st s') - 1) mod INPUT_BUF) = CTRL_LF)"
  proof cases
    case 1
    then show ?thesis using assms by (simp add: console_intr_def prog_run CTRL_PRINT_PROCESS_def CTRL_BS_LINE_def)
  next
    case 2
    then have "console_intr c s = erase_line (unat (c_edit ?con - c_write ?con)) s"
      by (simp add: console_intr_def getp_def bindp_def CTRL_PRINT_PROCESS_def CTRL_BS_LINE_def)
    then show ?thesis using erase_line_run [OF assms(2,1) refl] by auto
  next
    case 3
    then have c: "c \<noteq> CTRL_PRINT_PROCESS" "c \<noteq> CTRL_BS_LINE"
      by (auto simp: CTRL_PRINT_PROCESS_def CTRL_BS_LINE_def CTRL_BS_def CTRL_DEL_def)
    show ?thesis
    proof (cases "c_edit ?con = c_write ?con")
      case True
      then show ?thesis using assms 3 c by (auto simp: console_intr_def prog_run)
    next
      case False
      let ?s = "s\<lparr>console_st := ?con\<lparr>c_edit := c_edit ?con - 1\<rparr>\<rparr>"
      have "console_intr c s = console_putc CTRL_BS ?s" using 3 c False by (auto simp: console_intr_def getp_def modp_def bindp_def thenp_def)
      then show ?thesis using console_putc_run [of ?s CTRL_BS] assms con_erase [OF assms(1) False] c by auto
    qed
  next
    case 4
    then show ?thesis using console_input_run [OF assms(2,1), of c] by (simp add: console_intr_def)
  qed
qed

theorem console_keeps_ring_witness:
  "\<exists>s'. console_intr 97 (demo_dev (- 1) 0) = Ret ((), s') \<and> con_inv (console_st s')"
proof -
  have "con_inv (console_st (demo_dev (- 1) 0))" "\<not> panicked (demo_dev (- 1) 0)"
    by (simp_all add: demo_dev_def con_inv_def console_new_def)
  then show ?thesis using console_keeps_ring [of "demo_dev (- 1) 0" 97] by blast
qed

end
