(* ===== verification/Virtio.thy ===== *)
theory Virtio
  imports KData
begin

text \<open>
  The driver of the virtio disk (\<open>driver/virtio_disk.rs\<close>): descriptors, the rings and the two halves of a
  request, before and after the driver sleeps until the device has served it. \<open>rw_begin\<close> ends when the
  request is in the available ring, \<open>rw_end\<close> runs when the interrupt handler has cleared the flag
  \<open>disk\<close>. Addresses in descriptors are symbolic: the request header, the status byte and the buffer. The
  rings have indices of 16 bits with checked increments. The set-up of the device is a sequence of
  register accesses; \<open>reg\<close> are the values that the registers deliver.
\<close>

definition NUM :: nat where "NUM = 8"

datatype vaddr = NoAddr | OpAddr nat | StatusAddr nat | BufAddr nat

record vq_desc =
  v_addr :: vaddr
  v_len :: nat
  v_flags :: "16 word"
  v_next :: nat

record blk_req =
  type_ :: nat
  reserved :: nat
  sector :: nat

record vq_info =
  buf_channel :: "nat option"
  status :: nat
  on_disk :: bool

record vdisk =
  desc :: "vq_desc list"
  avail_idx :: nat
  avail_ring :: "nat list"
  used_dev_idx :: nat
  used_ring :: "nat list"
  dfree :: "bool list"
  used_idx :: nat
  info :: "vq_info list"
  ops :: "blk_req list"

definition VRING_DESC_F_NEXT :: "16 word" where "VRING_DESC_F_NEXT = 1"

definition VRING_DESC_F_WRITE :: "16 word" where "VRING_DESC_F_WRITE = 2"

definition VIRTIO_BLK_T_IN :: nat where "VIRTIO_BLK_T_IN = 0"

definition VIRTIO_BLK_T_OUT :: nat where "VIRTIO_BLK_T_OUT = 1"

definition vq_desc_new :: vq_desc where
  "vq_desc_new = \<lparr>v_addr = NoAddr, v_len = 0, v_flags = 0, v_next = 0\<rparr>"

definition vq_info_new :: vq_info where
  "vq_info_new = \<lparr>buf_channel = None, status = 0, on_disk = False\<rparr>"

definition blk_req_new :: blk_req where
  "blk_req_new = \<lparr>type_ = 0, reserved = 0, sector = 0\<rparr>"

definition vdisk_new :: vdisk where
  "vdisk_new = \<lparr>desc = replicate NUM vq_desc_new, avail_idx = 0, avail_ring = replicate NUM 0, used_dev_idx = 0,
     used_ring = replicate NUM 0, dfree = replicate NUM False, used_idx = 0, info = replicate NUM vq_info_new,
     ops = replicate NUM blk_req_new\<rparr>"

text \<open>\<open>init\<close>: the checks, the feature bits that the driver turns off, and the writes, in order.\<close>

definition driver_features :: "32 word \<Rightarrow> 32 word" where
  "driver_features f = fold (\<lambda>b f. f AND NOT (push_bit b 1)) [5, 7, 11, 12, 27, 29, 28] f"

definition vdisk_init :: "(nat \<Rightarrow> nat) \<Rightarrow> nat \<Rightarrow> vdisk \<Rightarrow> ((nat \<times> nat) list \<times> vdisk) outcome" where
  "vdisk_init reg addr d =
     (if reg 0x000 \<noteq> 0x74726976 \<or> reg 0x004 \<noteq> 1 \<or> reg 0x008 \<noteq> 2 \<or> reg 0x00c \<noteq> 0x554d4551
      then Panic ''could not find virtio disk''
      else if reg 0x034 = 0 then Panic ''virtio disk has no queue 0''
      else if reg 0x034 < NUM then Panic ''virtio disk max queue short than NUM''
      else if addr div 2 ^ PGSHIFT \<ge> 2 ^ 32 then Panic ''unwrap''
      else Ret ([(0x070, 1), (0x070, 3), (0x020, unat (driver_features (of_nat (reg 0x010)))), (0x070, 11), (0x070, 15),
          (0x028, PGSIZE), (0x030, 0), (0x038, NUM), (0x040, addr div 2 ^ PGSHIFT)],
        d\<lparr>dfree := map (\<lambda>_. True) (dfree d)\<rparr>))"

definition alloc_desc :: "vdisk \<Rightarrow> nat option \<times> vdisk" where
  "alloc_desc d = (case find (\<lambda>i. dfree d ! i) [0..<NUM] of
     Some i \<Rightarrow> (Some i, d\<lparr>dfree := (dfree d)[i := False]\<rparr>) | None \<Rightarrow> (None, d))"

text \<open>Freeing a descriptor also wakes up the processes that wait for one; \<open>ps\<close> is the process table.\<close>

definition free_desc :: "nat \<Rightarrow> vdisk \<times> process list \<Rightarrow> (vdisk \<times> process list) outcome" where
  "free_desc i = (\<lambda>(d, ps). if i \<ge> NUM \<or> dfree d ! i then Panic ''desc index not correct''
     else Ret (d\<lparr>desc := (desc d)[i := vq_desc_new], dfree := (dfree d)[i := True]\<rparr>, wake_up (ChDisk 0) ps))"

primrec free_first :: "nat \<Rightarrow> vdisk \<times> process list \<Rightarrow> (vdisk \<times> process list) outcome" where
  "free_first 0 s = Ret s"
| "free_first (Suc n) s = bnd (free_first n s) (free_desc n)"

text \<open>\<open>alloc3_desc\<close>: when a descriptor is missing it frees the descriptors \<open>0, .., i - 1\<close>.\<close>

primrec alloc_descs :: "nat \<Rightarrow> nat list \<Rightarrow> vdisk \<times> process list \<Rightarrow> (nat list option \<times> vdisk \<times> process list) outcome" where
  "alloc_descs 0 idx s = Ret (Some idx, s)"
| "alloc_descs (Suc n) idx s = (case alloc_desc (fst s) of
     (Some ix, d) \<Rightarrow> alloc_descs n (idx @ [ix]) (d, snd s)
   | (None, d) \<Rightarrow> bnd (free_first (length idx) (d, snd s)) (\<lambda>s'. Ret (None, s')))"

definition alloc3_desc :: "vdisk \<times> process list \<Rightarrow> (nat list option \<times> vdisk \<times> process list) outcome" where
  "alloc3_desc s = alloc_descs 3 [] s"

text \<open>The chain is acyclic when the driver built it; \<open>NUM\<close> rounds are enough.\<close>

primrec free_chain_loop :: "nat \<Rightarrow> nat \<Rightarrow> vdisk \<times> process list \<Rightarrow> (vdisk \<times> process list) outcome" where
  "free_chain_loop 0 i s = Panic ''endless loop''"
| "free_chain_loop (Suc n) i s =
     (if i \<ge> length (desc (fst s)) then Panic ''index out of bounds''
      else let flag = v_flags (desc (fst s) ! i); nxt = v_next (desc (fst s) ! i) in
        bnd (free_desc i s) (\<lambda>s'. if flag AND VRING_DESC_F_NEXT \<noteq> 0 then free_chain_loop n nxt s' else Ret s'))"

definition free_chain :: "nat \<Rightarrow> vdisk \<times> process list \<Rightarrow> (vdisk \<times> process list) outcome" where
  "free_chain i s = free_chain_loop (Suc NUM) i s"

definition add16 :: "nat \<Rightarrow> nat \<Rightarrow> nat outcome" where
  "add16 a b = (if a + b < 2 ^ 16 then Ret (a + b) else Panic ''attempt to add with overflow'')"

text \<open>\<open>intr\<close>: acknowledge, then finish the requests that the device has put into the used ring.\<close>

primrec intr_loop :: "nat \<Rightarrow> vdisk \<times> process list \<Rightarrow> (vdisk \<times> process list) outcome" where
  "intr_loop 0 s = (if used_idx (fst s) \<noteq> used_dev_idx (fst s) then Panic ''endless loop'' else Ret s)"
| "intr_loop (Suc n) s = (case s of (d, ps) \<Rightarrow>
     if used_idx d = used_dev_idx d then Ret s
     else let id = used_ring d ! (used_idx d mod NUM) in
       if id \<ge> length (info d) then Panic ''index out of bounds''
       else if status (info d ! id) \<noteq> 0 then Panic ''interrupt status''
       else case buf_channel (info d ! id) of
         None \<Rightarrow> Panic ''virtio disk intr handler not found pre-stored buf channel to wakeup''
       | Some b \<Rightarrow> bnd (add16 (used_idx d) 1) (\<lambda>u.
           intr_loop n (d\<lparr>info := (info d)[id := (info d ! id)\<lparr>on_disk := False\<rparr>], used_idx := u\<rparr>,
             wake_up (ChDisk (Suc b)) ps)))"

definition vdisk_intr :: "vdisk \<times> process list \<Rightarrow> (vdisk \<times> process list) outcome" where
  "vdisk_intr s = intr_loop (2 ^ 16) s"

definition format_desc :: "nat list \<Rightarrow> nat \<Rightarrow> nat \<Rightarrow> bool \<Rightarrow> vdisk \<Rightarrow> vdisk" where
  "format_desc idx blockno b writing d =
     d\<lparr>ops := (ops d)[idx ! 0 := \<lparr>type_ = (if writing then VIRTIO_BLK_T_OUT else VIRTIO_BLK_T_IN), reserved = 0,
           sector = blockno * (BSIZE div 512)\<rparr>],
       desc := (desc d)
         [idx ! 0 := \<lparr>v_addr = OpAddr (idx ! 0), v_len = 16, v_flags = VRING_DESC_F_NEXT, v_next = idx ! 1\<rparr>,
          idx ! 1 := \<lparr>v_addr = BufAddr b, v_len = BSIZE,
            v_flags = (if writing then 0 else VRING_DESC_F_WRITE) OR VRING_DESC_F_NEXT, v_next = idx ! 2\<rparr>,
          idx ! 2 := \<lparr>v_addr = StatusAddr (idx ! 0), v_len = 1, v_flags = VRING_DESC_F_WRITE, v_next = 0\<rparr>],
       info := (info d)[idx ! 0 := \<lparr>buf_channel = Some b, status = 0xff, on_disk = True\<rparr>]\<rparr>"

definition rw_begin :: "nat \<Rightarrow> nat \<Rightarrow> bool \<Rightarrow> vdisk \<times> process list \<Rightarrow> (nat list \<times> vdisk \<times> process list) outcome" where
  "rw_begin blockno b writing s = bnd (alloc3_desc s) (\<lambda>(r, d, ps). case r of
     None \<Rightarrow> Panic ''sleep''
   | Some idx \<Rightarrow> let d1 = format_desc idx blockno b writing d;
       d2 = d1\<lparr>avail_ring := (avail_ring d1)[avail_idx d1 mod NUM := idx ! 0]\<rparr> in
       bnd (add16 (avail_idx d2) 1) (\<lambda>n. Ret (idx, d2\<lparr>avail_idx := n\<rparr>, ps)))"

definition rw_end :: "nat list \<Rightarrow> nat \<Rightarrow> vdisk \<times> process list \<Rightarrow> (vdisk \<times> process list) outcome" where
  "rw_end idx b s = (case s of (d, ps) \<Rightarrow>
     if on_disk (info d ! (idx ! 0)) then Panic ''sleep''
     else let d1 = d\<lparr>info := (info d)[idx ! 0 := (info d ! (idx ! 0))\<lparr>buf_channel := None\<rparr>]\<rparr> in
       if buf_channel (info d ! (idx ! 0)) \<noteq> Some b then Panic ''assertion failed''
       else free_chain (idx ! 0) (d1, ps))"

end
