(* ===== verification/VirtioProps.thy ===== *)
theory VirtioProps
  imports Virtio
begin

text \<open>
  A request to the disk from its submission to the end: the three descriptors are taken from the free
  ones, chained and put into the available ring; the device serves the request; the interrupt handler
  finishes it; the driver gives the descriptors back.
\<close>

subsection \<open>Taking descriptors\<close>

definition frees :: "vdisk \<Rightarrow> nat set" where
  "frees d = {i. i < NUM \<and> dfree d ! i}"

definition vd_ok :: "vdisk \<Rightarrow> bool" where
  "vd_ok d \<longleftrightarrow> length (dfree d) = NUM \<and> length (desc d) = NUM \<and> length (info d) = NUM \<and> length (ops d) = NUM \<and>
     length (avail_ring d) = NUM \<and> length (used_ring d) = NUM"

lemma frees_take: "length (dfree d) = NUM \<Longrightarrow> frees (d\<lparr>dfree := (dfree d)[i := False]\<rparr>) = frees d - {i}"
  by (cases "i < NUM") (auto simp: frees_def nth_list_update split: if_split_asm)

lemma finite_frees [simp]: "finite (frees d)"
  by (simp add: frees_def)

lemma alloc_desc_takes:
  assumes "frees d \<noteq> {}"
  shows "\<exists>i \<in> frees d. alloc_desc d = (Some i, d\<lparr>dfree := (dfree d)[i := False]\<rparr>)"
proof -
  have "find (\<lambda>i. dfree d ! i) [0..<NUM] \<noteq> None" using assms by (auto simp: find_None_iff frees_def)
  then obtain i where i: "find (\<lambda>i. dfree d ! i) [0..<NUM] = Some i" by blast
  then have "i \<in> frees d" by (auto simp: find_Some_iff frees_def)
  then show ?thesis using i by (auto simp: alloc_desc_def)
qed

lemma alloc_descs_takes:
  assumes "length (dfree d) = NUM" "n \<le> card (frees d)"
  shows "\<exists>js. length js = n \<and> distinct js \<and> set js \<subseteq> frees d \<and>
    alloc_descs n idx (d, ps) = Ret (Some (idx @ js), d\<lparr>dfree := fold (\<lambda>j f. f[j := False]) js (dfree d)\<rparr>, ps)"
  using assms
proof (induction n arbitrary: idx d)
  case (Suc n)
  then have "frees d \<noteq> {}" by auto
  then obtain i where i: "i \<in> frees d" "alloc_desc d = (Some i, d\<lparr>dfree := (dfree d)[i := False]\<rparr>)"
    using alloc_desc_takes by blast
  let ?d = "d\<lparr>dfree := (dfree d)[i := False]\<rparr>"
  have f: "frees ?d = frees d - {i}" using Suc.prems(1) by (rule frees_take)
  have "n \<le> card (frees ?d)" using Suc.prems(2) i(1) unfolding f by simp
  then obtain js where js: "length js = n" "distinct js" "set js \<subseteq> frees ?d"
    "alloc_descs n (idx @ [i]) (?d, ps) = Ret (Some ((idx @ [i]) @ js), ?d\<lparr>dfree := fold (\<lambda>j f. f[j := False]) js (dfree ?d)\<rparr>, ps)"
    using Suc.IH [of ?d "idx @ [i]"] Suc.prems(1) by auto
  show ?case
    by (rule exI [of _ "i # js"]) (use js i f in \<open>auto simp: js(1)\<close>)
qed (simp add: fold_def)

subsection \<open>Giving descriptors back\<close>

lemma free_chain3:
  assumes "distinct [i, j, k]" "i < NUM" "j < NUM" "k < NUM" "length (desc d) = NUM" "length (dfree d) = NUM"
    "\<not> dfree d ! i" "\<not> dfree d ! j" "\<not> dfree d ! k"
    "v_flags (desc d ! i) AND VRING_DESC_F_NEXT \<noteq> 0" "v_next (desc d ! i) = j"
    "v_flags (desc d ! j) AND VRING_DESC_F_NEXT \<noteq> 0" "v_next (desc d ! j) = k"
    "v_flags (desc d ! k) AND VRING_DESC_F_NEXT = 0"
  shows "\<exists>ps'. free_chain i (d, ps) = Ret (d\<lparr>desc := (desc d)[i := vq_desc_new, j := vq_desc_new, k := vq_desc_new],
    dfree := (dfree d)[i := True, j := True, k := True]\<rparr>, ps')"
proof -
  have "Suc NUM = Suc (Suc (Suc 6))" by (simp add: NUM_def)
  then obtain n where n: "Suc NUM = Suc (Suc (Suc n))" by blast
  show ?thesis unfolding free_chain_def n using assms by (simp add: free_desc_def Let_def)
qed

subsection \<open>The interrupt handler\<close>

lemma intr_idle: "used_idx d = used_dev_idx d \<Longrightarrow> intr_loop n (d, ps) = Ret (d, ps)"
  by (cases n) simp_all

text \<open>
  What the device does with a request, as the specification of virtio says: it puts the head of the chain into the
  used ring, advances its index and writes the status byte.
\<close>

definition dev_serve :: "nat \<Rightarrow> vdisk \<Rightarrow> vdisk" where
  "dev_serve i d = d\<lparr>used_ring := (used_ring d)[used_dev_idx d mod NUM := i], used_dev_idx := used_dev_idx d + 1,
     info := (info d)[i := (info d ! i)\<lparr>status := 0\<rparr>]\<rparr>"

lemma intr_one:
  assumes "vd_ok d" "i < NUM" "used_idx d = used_dev_idx d" "used_idx d + 1 < 2 ^ 16" "buf_channel (info d ! i) = Some b"
  shows "vdisk_intr (dev_serve i d, ps) = Ret ((dev_serve i d)\<lparr>info := (info d)[i := (info d ! i)\<lparr>status := 0, on_disk := False\<rparr>],
    used_idx := used_idx d + 1\<rparr>, wake_up (ChDisk (Suc b)) ps)"
proof -
  have "(2::nat) ^ 16 = Suc 65535" by simp
  then obtain n where n: "(2::nat) ^ 16 = Suc n" by blast
  have a: "add16 (used_dev_idx d) 1 = Ret (used_dev_idx d + 1)" using assms(3,4) by (simp add: add16_def)
  have m: "used_dev_idx d mod NUM < NUM" by (simp add: NUM_def)
  show ?thesis unfolding vdisk_intr_def n using assms(1-3,5) m a
    by (simp add: dev_serve_def vd_ok_def Let_def intr_idle)
qed

subsection \<open>A whole request\<close>

lemma rw_begin_takes:
  assumes "vd_ok d" "3 \<le> card (frees d)" "avail_idx d + 1 < 2 ^ 16"
  shows "\<exists>i j k d1. distinct [i, j, k] \<and> {i, j, k} \<subseteq> frees d \<and> rw_begin blockno b w (d, ps) = Ret ([i, j, k], d1, ps) \<and>
    d1 = (format_desc [i, j, k] blockno b w (d\<lparr>dfree := (dfree d)[i := False, j := False, k := False]\<rparr>))
      \<lparr>avail_ring := (avail_ring d)[avail_idx d mod NUM := i], avail_idx := avail_idx d + 1\<rparr>"
proof -
  obtain js where js: "length js = 3" "distinct js" "set js \<subseteq> frees d"
    "alloc3_desc (d, ps) = Ret (Some js, d\<lparr>dfree := fold (\<lambda>j f. f[j := False]) js (dfree d)\<rparr>, ps)"
    using alloc_descs_takes [of d 3 "[]" ps] assms unfolding alloc3_desc_def vd_ok_def by auto
  then obtain i j k where e: "js = [i, j, k]" by (auto simp: length_Suc_conv numeral_3_eq_3)
  show ?thesis
    by (rule exI [of _ i], rule exI [of _ j], rule exI [of _ k])
      (use js assms(3) in \<open>simp add: e rw_begin_def add16_def Let_def format_desc_def\<close>)
qed

text \<open>C38: A disk request gives back what it takes. With three free descriptors \<open>rw_begin\<close> does not wait: it
  takes three distinct free descriptors, chains them in the order header, data, status, for the sector
  and the direction of the request, and makes the header available to the device. When the device has
  served the request, one interrupt finishes it and wakes up the process that waits for the buffer, and
  \<open>rw_end\<close> then returns with the same descriptors free as before.\<close>

theorem vdisk_request_roundtrip:
  assumes "vd_ok d" and "3 \<le> card (frees d)" and "avail_idx d + 1 < 2 ^ 16" and "used_idx d = used_dev_idx d" and "used_idx d + 1 < 2 ^ 16"
  shows "\<exists>i j k d1. rw_begin blockno b w (d, ps) = Ret ([i, j, k], d1, ps) \<and> distinct [i, j, k] \<and> {i, j, k} \<subseteq> frees d \<and>
    frees d1 = frees d - {i, j, k} \<and> avail_ring d1 ! (avail_idx d mod NUM) = i \<and> avail_idx d1 = avail_idx d + 1 \<and>
    map v_addr [desc d1 ! i, desc d1 ! j, desc d1 ! k] = [OpAddr i, BufAddr b, StatusAddr i] \<and>
    v_next (desc d1 ! i) = j \<and> v_next (desc d1 ! j) = k \<and>
    (v_flags (desc d1 ! j) AND VRING_DESC_F_WRITE = 0 \<longleftrightarrow> w) \<and> sector (ops d1 ! i) = 2 * blockno \<and>
    rw_end [i, j, k] b (d1, ps) = Panic ''sleep'' \<and>
    (\<exists>d2 d3 ps3. vdisk_intr (dev_serve i d1, ps) = Ret (d2, wake_up (ChDisk (Suc b)) ps) \<and>
      rw_end [i, j, k] b (d2, wake_up (ChDisk (Suc b)) ps) = Ret (d3, ps3) \<and> vd_ok d3 \<and> frees d3 = frees d \<and>
      used_idx d3 = used_dev_idx d3)"
proof -
  from rw_begin_takes [OF assms(1-3)] obtain i j k d1 where t: "distinct [i, j, k]" "{i, j, k} \<subseteq> frees d"
    "rw_begin blockno b w (d, ps) = Ret ([i, j, k], d1, ps)"
    and d1: "d1 = (format_desc [i, j, k] blockno b w (d\<lparr>dfree := (dfree d)[i := False, j := False, k := False]\<rparr>))
      \<lparr>avail_ring := (avail_ring d)[avail_idx d mod NUM := i], avail_idx := avail_idx d + 1\<rparr>" by blast
  have lt: "i < NUM" "j < NUM" "k < NUM" "avail_idx d mod NUM < NUM" "i \<noteq> j" "i \<noteq> k" "j \<noteq> k" using t by (auto simp: frees_def NUM_def)
  note len = assms(1) [unfolded vd_ok_def]
  have ok: "vd_ok d1" using len by (simp add: d1 vd_ok_def format_desc_def)
  have f1: "frees d1 = frees d - {i, j, k}"
    using len lt by (auto simp: frees_def d1 format_desc_def nth_list_update split: if_split_asm)
  have q: "used_idx d1 = used_dev_idx d1" "used_idx d1 + 1 < 2 ^ 16" "buf_channel (info d1 ! i) = Some b" "on_disk (info d1 ! i)"
    using assms(4,5) len lt by (simp_all add: d1 format_desc_def)
  define d2 where "d2 = (dev_serve i d1)\<lparr>info := (info d1)[i := (info d1 ! i)\<lparr>status := 0, on_disk := False\<rparr>], used_idx := used_idx d1 + 1\<rparr>"
  have v: "vdisk_intr (dev_serve i d1, ps) = Ret (d2, wake_up (ChDisk (Suc b)) ps)"
    unfolding d2_def using intr_one [OF ok lt(1) q(1-3)] .
  let ?d = "d2\<lparr>info := (info d2)[i := (info d2 ! i)\<lparr>buf_channel := None\<rparr>]\<rparr>"
  have fl: "v_flags (desc d1 ! i) = VRING_DESC_F_NEXT" "v_flags (desc d1 ! j) = (if w then 0 else VRING_DESC_F_WRITE) OR VRING_DESC_F_NEXT"
    "v_flags (desc d1 ! k) = VRING_DESC_F_WRITE" "v_next (desc d1 ! i) = j" "v_next (desc d1 ! j) = k"
    "map v_addr [desc d1 ! i, desc d1 ! j, desc d1 ! k] = [OpAddr i, BufAddr b, StatusAddr i]"
    "sector (ops d1 ! i) = 2 * blockno" "avail_ring d1 ! (avail_idx d mod NUM) = i" "avail_idx d1 = avail_idx d + 1"
    using len lt by (simp_all add: d1 format_desc_def BSIZE_def)
  have nf: "\<not> dfree d1 ! i" "\<not> dfree d1 ! j" "\<not> dfree d1 ! k" using f1 lt by (auto simp: frees_def)
  have d2: "desc ?d = desc d1" "dfree ?d = dfree d1" "info d2 ! i = (info d1 ! i)\<lparr>status := 0, on_disk := False\<rparr>"
    using ok lt by (simp_all add: d2_def dev_serve_def vd_ok_def)
  have c1: "VRING_DESC_F_NEXT AND VRING_DESC_F_NEXT \<noteq> 0" "((if w then 0 else VRING_DESC_F_WRITE) OR VRING_DESC_F_NEXT) AND VRING_DESC_F_NEXT \<noteq> 0"
    "VRING_DESC_F_WRITE AND VRING_DESC_F_NEXT = 0"
    "((if w then 0 else VRING_DESC_F_WRITE) OR VRING_DESC_F_NEXT) AND VRING_DESC_F_WRITE = 0 \<longleftrightarrow> w"
    by (simp_all add: VRING_DESC_F_NEXT_def VRING_DESC_F_WRITE_def)
  obtain ps3 where e: "free_chain i (?d, wake_up (ChDisk (Suc b)) ps) =
      Ret (?d\<lparr>desc := (desc ?d)[i := vq_desc_new, j := vq_desc_new, k := vq_desc_new], dfree := (dfree ?d)[i := True, j := True, k := True]\<rparr>, ps3)"
    using free_chain3 [OF t(1) lt(1-3), of ?d "wake_up (ChDisk (Suc b)) ps"] ok nf c1(1-3) unfolding d2(1,2) fl(1-5) vd_ok_def by blast
  let ?d3 = "?d\<lparr>desc := (desc ?d)[i := vq_desc_new, j := vq_desc_new, k := vq_desc_new], dfree := (dfree ?d)[i := True, j := True, k := True]\<rparr>"
  have r: "rw_end [i, j, k] b (d2, wake_up (ChDisk (Suc b)) ps) = Ret (?d3, ps3)"
    using e q(3) d2(3) by (simp add: rw_end_def)
  have "vd_ok ?d3" "used_idx ?d3 = used_dev_idx ?d3" using ok q(1) by (simp_all add: vd_ok_def d2_def dev_serve_def)
  moreover have "frees ?d3 = frees d"
    using t(2) ok lt f1 d2(2) by (auto simp: frees_def vd_ok_def nth_list_update split: if_split_asm)
  moreover have "rw_end [i, j, k] b (d1, ps) = Panic ''sleep''" using q(4) by (simp add: rw_end_def)
  ultimately have "\<exists>d2 d3 ps3. vdisk_intr (dev_serve i d1, ps) = Ret (d2, wake_up (ChDisk (Suc b)) ps) \<and>
      rw_end [i, j, k] b (d2, wake_up (ChDisk (Suc b)) ps) = Ret (d3, ps3) \<and> vd_ok d3 \<and> frees d3 = frees d \<and>
      used_idx d3 = used_dev_idx d3" using v r by blast
  then show ?thesis using t f1 fl c1(4) \<open>rw_end [i, j, k] b (d1, ps) = Panic ''sleep''\<close> by metis
qed

text \<open>All descriptors but two are free, and the rings have been used before.\<close>

definition demo_vdisk :: vdisk where
  "demo_vdisk = vdisk_new\<lparr>dfree := [False, True, True, False, True, True, True, True], avail_idx := 20, used_idx := 13, used_dev_idx := 13\<rparr>"

theorem vdisk_request_roundtrip_witness:
  "\<exists>i j k d1 d2 d3 ps3. rw_begin 7 4 True (demo_vdisk, []) = Ret ([i, j, k], d1, []) \<and> sector (ops d1 ! i) = 14 \<and>
     vdisk_intr (dev_serve i d1, []) = Ret (d2, wake_up (ChDisk 5) []) \<and> rw_end [i, j, k] 4 (d2, wake_up (ChDisk 5) []) = Ret (d3, ps3) \<and>
     frees d3 = {1, 2, 4, 5, 6, 7}"
proof -
  have f: "frees demo_vdisk = {1, 2, 4, 5, 6, 7}"
    by (auto simp: frees_def demo_vdisk_def NUM_def less_Suc_eq numeral_eq_Suc)
  have c: "3 \<le> card (frees demo_vdisk)" by (simp add: f)
  have o: "vd_ok demo_vdisk" "avail_idx demo_vdisk + 1 < 2 ^ 16" "used_idx demo_vdisk = used_dev_idx demo_vdisk" "used_idx demo_vdisk + 1 < 2 ^ 16"
    by (simp_all add: vd_ok_def demo_vdisk_def vdisk_new_def NUM_def)
  show ?thesis using vdisk_request_roundtrip [OF o(1) c o(2-4), of 7 4 True "[]"] unfolding f by fastforce
qed

end
