(* ===== verification/SysFile.thy ===== *)
theory SysFile
  imports Files
begin

text \<open>
  System calls on files (\<open>syscall/file.rs\<close>) and their arguments (\<open>syscall/mod.rs\<close>). The arguments are
  the registers saved in the trap frame, which is a page of physical memory. A path is copied from user
  memory into a local array at \<open>local_addr\<close>. The error of a system call carries no value.
\<close>

datatype tf_field = TF_kernel_satp | TF_kernel_sp | TF_kernel_trap | TF_epc | TF_kernel_hartid | TF_sp | TF_a nat

fun tf_offset :: "tf_field \<Rightarrow> nat" where
  "tf_offset TF_kernel_satp = 0"
| "tf_offset TF_kernel_sp = 8"
| "tf_offset TF_kernel_trap = 16"
| "tf_offset TF_epc = 24"
| "tf_offset TF_kernel_hartid = 32"
| "tf_offset TF_sp = 48"
| "tf_offset (TF_a n) = 112 + 8 * n"

definition tf_read :: "nat \<Rightarrow> tf_field \<Rightarrow> ('z kproc_scheme, nat) prog" where
  "tf_read p f = bindp (proc_at p) (\<lambda>x. if trapframe (pdata x) = 0 then panicp ''null pointer dereference''
     else getp (\<lambda>s. unat (read64 (ram (mem s)) (trapframe (pdata x) + tf_offset f))))"

definition tf_write :: "nat \<Rightarrow> tf_field \<Rightarrow> nat \<Rightarrow> ('z kproc_scheme, unit) prog" where
  "tf_write p f v = bindp (proc_at p) (\<lambda>x. if trapframe (pdata x) = 0 then panicp ''null pointer dereference''
     else modp (\<lambda>s. s\<lparr>mem := (mem s)\<lparr>ram := write64 (ram (mem s)) (trapframe (pdata x) + tf_offset f) (of_nat v)\<rparr>\<rparr>))"

definition arg :: "nat \<Rightarrow> nat \<Rightarrow> ('z kproc_scheme, nat) prog" where
  "arg p n = (if n \<le> 5 then tf_read p (TF_a n) else panicp ''Unable to obtain parameters'')"

definition copy_from_str :: "nat \<Rightarrow> nat \<Rightarrow> nat \<Rightarrow> nat \<Rightarrow> ('z kproc_scheme, unit + unit) prog" where
  "copy_from_str p addr buf max_len = bindp (proc_at p) (\<lambda>x. bindp (unwrapp ''unwrap'' (pagetable (pdata x))) (\<lambda>root s.
     bnd (copy_in_str (ram (mem s)) root buf addr max_len) (\<lambda>(r, m).
       Ret ((case r of Inl e \<Rightarrow> Inl () | Inr _ \<Rightarrow> Inr ()), s\<lparr>mem := (mem s)\<lparr>ram := m\<rparr>\<rparr>))))"

definition copy_form_addr :: "nat \<Rightarrow> nat \<Rightarrow> nat \<Rightarrow> nat \<Rightarrow> ('z kproc_scheme, unit + unit) prog" where
  "copy_form_addr p addr buf len = bindp (proc_at p) (\<lambda>x.
     if addr > psize (pdata x) then panicp ''The address value of the copy exceeds the process.''
     else bindp (liftp (uadd addr 8)) (\<lambda>e.
       if e > psize (pdata x) then panicp ''The address value of the copy exceeds the process.''
       else bindp (unwrapp ''unwrap'' (pagetable (pdata x))) (\<lambda>root. bindp (copy_inp root buf addr len) (\<lambda>r.
         retp (case r of Inl e \<Rightarrow> Inl () | Inr _ \<Rightarrow> Inr ())))))"

text \<open>\<open>let mut path = [0; MAXPATH]; self.copy_from_str(addr, &mut path, MAXPATH)\<close>.\<close>

definition fetch_path :: "image \<Rightarrow> nat \<Rightarrow> nat \<Rightarrow> ('z kproc_scheme, unit + 8 word list) prog" where
  "fetch_path im p addr = thenp (poke (local_addr im) (replicate MAXPATH 0))
     (bindp (copy_from_str p addr (local_addr im) MAXPATH) (\<lambda>r.
      case r of Inl e \<Rightarrow> retp (Inl e) | Inr _ \<Rightarrow> bindp (peek (local_addr im) MAXPATH) (\<lambda>bs. retp (Inr bs))))"

definition trysys :: "('s, unit + 'a) prog \<Rightarrow> ('a \<Rightarrow> ('s, unit + 'b) prog) \<Rightarrow> ('s, unit + 'b) prog" where
  "trysys m f = bindp m (\<lambda>r. case r of Inl e \<Rightarrow> retp (Inl e) | Inr x \<Rightarrow> f x)"

definition res_sys :: "string + nat \<Rightarrow> unit + nat" where
  "res_sys r = (case r of Inl e \<Rightarrow> Inl () | Inr n \<Rightarrow> Inr n)"

definition sys_dup :: "image \<Rightarrow> nat \<Rightarrow> ('z kfile_scheme, unit + nat) prog" where
  "sys_dup im p = bindp (arg p 0) (\<lambda>old_fd. bindp (open_file p old_fd) (\<lambda>o1. bindp (unwrapp ''unwrap'' o1) (\<lambda>a.
     bindp (arc_get a) (\<lambda>f. bindp (cpu_alloc_fd im f) (\<lambda>r.
     case r of
       Inl e \<Rightarrow> panicp ''unwrap''
     | Inr new_fd \<Rightarrow> bindp (arc_clone a) (\<lambda>a'.
         thenp (set_open_file im p new_fd (Some a')) (retp (Inr new_fd))))))))"

definition sys_read :: "image \<Rightarrow> nat \<Rightarrow> ('z kfile_scheme, unit + nat) prog" where
  "sys_read im p = bindp (arg p 0) (\<lambda>fd. bindp (open_file p fd) (\<lambda>o1. bindp (unwrapp ''unwrap'' o1) (\<lambda>a. bindp (arc_get a) (\<lambda>f.
     bindp (arg p 1) (\<lambda>ptr. bindp (arg p 2) (\<lambda>len. bindp (vfile_read im f ptr len) (\<lambda>r. retp (res_sys r))))))))"

definition sys_write :: "image \<Rightarrow> nat \<Rightarrow> ('z kfile_scheme, unit + nat) prog" where
  "sys_write im p = bindp (arg p 0) (\<lambda>fd. bindp (open_file p fd) (\<lambda>o1. bindp (unwrapp ''unwrap'' o1) (\<lambda>a. bindp (arc_get a) (\<lambda>f.
     bindp (arg p 1) (\<lambda>ptr. bindp (arg p 2) (\<lambda>len. bindp (vfile_write im f ptr len) (\<lambda>r. retp (res_sys r))))))))"

text \<open>The inode that \<open>sys_open\<close> opens, locked: \<open>Inl\<close> after the transaction was ended.\<close>

definition open_inode :: "image \<Rightarrow> 8 word list \<Rightarrow> nat \<Rightarrow> ('z kfile_scheme, unit + (inode \<times> nat)) prog" where
  "open_inode im path open_mode =
     (if mode open_mode = CREATE
      then bindp (create im path File 0 0) (\<lambda>r. case r of
          Inr ino \<Rightarrow> bindp (ilock ino) (\<lambda>g. retp (Inr (ino, g)))
        | Inl e \<Rightarrow> thenp end_op (retp (Inl ())))
      else bindp (namei im path) (\<lambda>r. case r of
          Some ino \<Rightarrow> bindp (ilock ino) (\<lambda>g. bindp (idata_at g) (\<lambda>x.
            if itype (dnode x) = Directory \<and> open_mode \<noteq> 0
            then thenp (drop_guard g) (thenp end_op (thenp (iput im ino) (retp (Inl ()))))
            else retp (Inr (ino, g))))
        | None \<Rightarrow> thenp end_op (retp (Inl ()))))"

definition opened_file :: "inode_data \<Rightarrow> vfile" where
  "opened_file x =
     (if itype (dnode x) = Device
      then vfile_init\<lparr>ftype := FT_Device, major := d_major (dnode x), readable := True, writeable := True\<rparr>
      else vfile_init\<lparr>ftype := FT_Inode, offset := 0, readable := True, writeable := True\<rparr>)"

definition mode_bit :: "image \<Rightarrow> nat \<Rightarrow> nat \<Rightarrow> bool" where
  "mode_bit im m i = get_bit_op (i_bf64 im) (of_nat m) i"

definition sys_open :: "image \<Rightarrow> nat \<Rightarrow> ('z kfile_scheme, unit + nat) prog" where
  "sys_open im p = bindp (arg p 0) (\<lambda>addr. bindp (fetch_path im p addr) (\<lambda>r.
     case r of Inl e \<Rightarrow> panicp ''unwrap''
     | Inr path \<Rightarrow> bindp (arg p 1) (\<lambda>open_mode. thenp begin_op (trysys (open_inode im path open_mode) (\<lambda>(ino, g).
         bindp (idata_at g) (\<lambda>x.
         thenp (if mode_bit im open_mode 11 \<and> itype (dnode x) = File then itruncate im g ino else retp ())
         (thenp (drop_guard g) (thenp end_op
         (let f = (opened_file x)\<lparr>f_inode := Some ino, writeable := mode_bit im open_mode 0 \<or> mode_bit im open_mode 1,
              readable := \<not> mode_bit im open_mode 0 \<or> mode_bit im open_mode 1\<rparr> in
          bindp (cpu_alloc_fd im f) (\<lambda>r. thenp (vfile_drop im f) (retp (res_sys r))))))))))))"

definition sys_mknod :: "image \<Rightarrow> nat \<Rightarrow> ('z kfile_scheme, unit + nat) prog" where
  "sys_mknod im p = bindp (arg p 1) (\<lambda>mj. bindp (arg p 2) (\<lambda>mn. thenp begin_op (bindp (arg p 0) (\<lambda>addr.
     trysys (fetch_path im p addr) (\<lambda>path.
     bindp (create im path Device (i16_of (mj mod 2 ^ 16)) (i16_of (mn mod 2 ^ 16))) (\<lambda>r. case r of
       Inr ino \<Rightarrow> thenp end_op (thenp (iput im ino) (retp (Inr 0)))
     | Inl e \<Rightarrow> thenp end_op (retp (Inl ()))))))))"

definition sys_close :: "image \<Rightarrow> nat \<Rightarrow> ('z kfile_scheme, unit + nat) prog" where
  "sys_close im p = bindp (arg p 0) (\<lambda>fd. thenp (set_open_file im p fd None) (retp (Inr 0)))"

definition sys_fstat :: "image \<Rightarrow> nat \<Rightarrow> ('z kfile_scheme, unit + nat) prog" where
  "sys_fstat im p = bindp (arg p 0) (\<lambda>fd. bindp (arg p 1) (\<lambda>st. bindp (open_file p fd) (\<lambda>o1.
     bindp (unwrapp ''unwrap'' o1) (\<lambda>a. bindp (arc_get a) (\<lambda>f. bindp (vfile_stat im f st) (\<lambda>r.
     retp (case r of Inr _ \<Rightarrow> Inr 0 | Inl e \<Rightarrow> Inl ())))))))"

definition sys_chdir :: "image \<Rightarrow> nat \<Rightarrow> ('z kfile_scheme, unit + nat) prog" where
  "sys_chdir im p = thenp begin_op (bindp (arg p 0) (\<lambda>addr. trysys (fetch_path im p addr) (\<lambda>path.
     bindp (namei im path) (\<lambda>r. case r of
       None \<Rightarrow> thenp end_op (retp (Inl ()))
     | Some ino \<Rightarrow> bindp (ilock ino) (\<lambda>g. bindp (idata_at g) (\<lambda>x.
         if itype (dnode x) = Directory
         then thenp (drop_guard g) (bindp (proc_at p) (\<lambda>y.
           thenp (upd_pdata p (\<lambda>d. d\<lparr>cwd := Some ino\<rparr>))
           (thenp (case cwd (pdata y) of None \<Rightarrow> retp () | Some old \<Rightarrow> iput im old) (thenp end_op (retp (Inr 0))))))
         else thenp end_op (thenp (drop_guard g) (thenp (iput im ino) (retp (Inl ()))))))))))"

text \<open>
  \<open>sys_pipe\<close> copies the first eight bytes of the local \<open>VFile\<close>s to the user; \<open>file_bytes\<close> is their
  representation in memory, which the language does not fix.
\<close>

definition sys_pipe :: "image \<Rightarrow> (vfile \<Rightarrow> 8 word list) \<Rightarrow> nat \<Rightarrow> ('z kfile_scheme, unit + nat) prog" where
  "sys_pipe im file_bytes p = bindp (arg p 0) (\<lambda>fd_array. bindp (pipe_alloc im (local_addr im)) (\<lambda>(g, rf, wf).
     bindp myproc (\<lambda>q. bindp (fd_alloc im q rf) (\<lambda>r1. case r1 of Inl e \<Rightarrow> retp (Inl ()) | Inr rfd \<Rightarrow>
     bindp (fd_alloc im q wf) (\<lambda>r2. case r2 of Inl e \<Rightarrow> retp (Inl ()) | Inr wfd \<Rightarrow>
     bindp (page_tablep q) (\<lambda>root. thenp (poke (local_addr im) (take 8 (file_bytes rf)))
     (bindp (copy_outp root fd_array (local_addr im) 8) (\<lambda>c1. case c1 of
        Inl e \<Rightarrow> thenp (set_open_file im p rfd None) (thenp (set_open_file im p wfd None) (retp (Inl ())))
      | Inr _ \<Rightarrow> thenp (poke (local_addr im) (take 8 (file_bytes wf)))
          (bindp (liftp (uadd fd_array 8)) (\<lambda>a. bindp (copy_outp root a (local_addr im) 8) (\<lambda>c2. case c2 of
             Inl e \<Rightarrow> thenp (set_open_file im p rfd None) (thenp (set_open_file im p wfd None) (retp (Inl ())))
           | Inr _ \<Rightarrow> retp (Inr 0))))))))))))"

definition str_cmp :: "8 word list \<Rightarrow> 8 word list \<Rightarrow> nat \<Rightarrow> bool" where
  "str_cmp a b max_len = (if length a \<noteq> length b then False else if length a > max_len then False
     else (\<forall>i \<in> set [0..<length a]. a ! i = b ! i))"

definition unlink_found :: "image \<Rightarrow> inode \<Rightarrow> nat \<Rightarrow> inode \<Rightarrow> ('z kfile_scheme, unit + nat) prog" where
  "unlink_found im par pg ino = bindp (ilock ino) (\<lambda>g. bindp (idata_at g) (\<lambda>x.
     if nlink (dnode x) < 1 then panicp ''sys_unlink: inods's nlink must be larger than 1.''
     else bindp (if itype (dnode x) = Directory then is_dir_empty im g else retp True) (\<lambda>e.
       if itype (dnode x) = Directory \<and> \<not> e
       then thenp (drop_guard g) (thenp (drop_guard pg) (thenp end_op (thenp (iput im ino) (thenp (iput im par) (retp (Inl ()))))))
       else thenp (if itype (dnode x) = Directory
           then bindp (idata_at pg) (\<lambda>y. bindp (liftp (add_i16 (nlink (dnode y)) (-1))) (\<lambda>l.
             thenp (upd_dinode pg (\<lambda>n. n\<lparr>nlink := l\<rparr>)) (iupdate pg)))
           else retp ())
         (thenp (drop_guard pg) (bindp (liftp (add_i16 (nlink (dnode x)) (-1))) (\<lambda>l.
          thenp (upd_dinode g (\<lambda>n. n\<lparr>nlink := l\<rparr>)) (thenp (iupdate g) (thenp (drop_guard g) (thenp end_op
          (thenp (iput im ino) (thenp (iput im par) (retp (Inr 0)))))))))))))"

definition sys_unlink :: "image \<Rightarrow> nat \<Rightarrow> ('z kfile_scheme, unit + nat) prog" where
  "sys_unlink im p = bindp (arg p 0) (\<lambda>addr. trysys (fetch_path im p addr) (\<lambda>path. thenp begin_op
     (bindp (namei_parent im path (replicate DIRSIZ 0)) (\<lambda>(r, name). case r of
        None \<Rightarrow> thenp end_op (retp (Inl ()))
      | Some par \<Rightarrow> bindp (ilock par) (\<lambda>pg.
          if str_cmp name [46] DIRSIZ \<and> str_cmp name [46, 46] DIRSIZ
          then thenp (drop_guard pg) (thenp end_op (thenp (iput im par) (retp (Inl ()))))
          else bindp (dir_lookup im pg name) (\<lambda>r. case r of
              Some ino \<Rightarrow> unlink_found im par pg ino
            | None \<Rightarrow> thenp (drop_guard pg) (thenp end_op (thenp (iput im par) (retp (Inl ()))))))))))"

definition link_fail :: "image \<Rightarrow> inode \<Rightarrow> nat \<Rightarrow> ('z kfile_scheme, unit) prog" where
  "link_fail im ino g = bindp (idata_at g) (\<lambda>x. bindp (liftp (add_i16 (nlink (dnode x)) (-1))) (\<lambda>l.
     thenp (upd_dinode g (\<lambda>n. n\<lparr>nlink := l\<rparr>)) (thenp (drop_guard g) end_op)))"

definition link_parent :: "image \<Rightarrow> 8 word list \<Rightarrow> inode \<Rightarrow> nat \<Rightarrow> inode \<Rightarrow> ('z kfile_scheme, unit + nat) prog" where
  "link_parent im name ino g par = bindp (ilock par) (\<lambda>pg. bindp (idata_at pg) (\<lambda>y.
     bindp (if itype (dnode y) \<noteq> Directory then retp True
        else bindp (dir_link im pg name (i_inum ino)) (\<lambda>r. retp (case r of Inr _ \<Rightarrow> True | Inl e \<Rightarrow> False))) (\<lambda>bad.
     if bad
     then thenp (drop_guard pg) (thenp (link_fail im ino g) (thenp (iput im par) (thenp (iput im ino) (retp (Inl ())))))
     else thenp (iupdate g) (thenp (drop_guard g) (thenp end_op
       (thenp (drop_guard pg) (thenp (iput im par) (thenp (iput im ino) (retp (Inr 0))))))))))"

definition sys_link :: "image \<Rightarrow> nat \<Rightarrow> ('z kfile_scheme, unit + nat) prog" where
  "sys_link im p = bindp (arg p 0) (\<lambda>oaddr. bindp (arg p 1) (\<lambda>naddr.
     trysys (fetch_path im p oaddr) (\<lambda>old_path. trysys (fetch_path im p naddr) (\<lambda>new_path. thenp begin_op
     (bindp (namei im old_path) (\<lambda>r. case r of
        None \<Rightarrow> thenp end_op (retp (Inl ()))
      | Some ino \<Rightarrow> bindp (ilock ino) (\<lambda>g. bindp (idata_at g) (\<lambda>x.
          if itype (dnode x) = Directory
          then thenp (drop_guard g) (thenp end_op (thenp (iput im ino) (retp (Inl ()))))
          else bindp (liftp (add_i16 (nlink (dnode x)) 1)) (\<lambda>l. thenp (upd_dinode g (\<lambda>n. n\<lparr>nlink := l\<rparr>))
            (bindp (namei_parent im new_path (replicate DIRSIZ 0)) (\<lambda>(q, name). case q of
               None \<Rightarrow> thenp (link_fail im ino g) (thenp (iput im ino) (retp (Inl ())))
             | Some par \<Rightarrow> link_parent im name ino g par)))))))))))"

definition sys_mkdir :: "image \<Rightarrow> nat \<Rightarrow> ('z kfile_scheme, unit + nat) prog" where
  "sys_mkdir im p = thenp begin_op (bindp (arg p 0) (\<lambda>addr. trysys (fetch_path im p addr) (\<lambda>path.
     bindp (create im path Directory 0 0) (\<lambda>r. case r of
       Inr ino \<Rightarrow> thenp (iput im ino) (thenp end_op (retp (Inr 0)))
     | Inl e \<Rightarrow> retp (Inl ())))))"

end
