(* ===== verification/Proc.thy ===== *)
theory Proc
  imports SysFile
begin

text \<open>
  Processes (\<open>process/process.rs\<close>, \<open>process/manager.rs\<close>, \<open>process/mod.rs\<close>) on the whole kernel state:
  creation, \<open>fork\<close>, \<open>exit\<close>, \<open>wait\<close>, memory growth, and the system calls of \<open>syscall/proc.rs\<close>. A
  routine that gives up the processor ends with the state in which the scheduler takes over.
\<close>

definition memp :: "(vm \<Rightarrow> ('a \<times> vm) outcome) \<Rightarrow> ('z kproc_scheme, 'a) prog" where
  "memp f s = bnd (f (mem s)) (\<lambda>(x, st). Ret (x, s\<lparr>mem := st\<rparr>))"

definition memp0 :: "(vm \<Rightarrow> vm outcome) \<Rightarrow> ('z kproc_scheme, unit) prog" where
  "memp0 f = memp (\<lambda>st. bnd (f st) (\<lambda>st'. Ret ((), st')))"

text \<open>Dropping a \<open>Box<PageTable>\<close> gives the root page back to the heap.\<close>

definition drop_box :: "image \<Rightarrow> nat \<Rightarrow> ('z kproc_scheme, unit) prog" where
  "drop_box im root = memp0 (\<lambda>st. bnd (heap_dealloc (i_bf im) (heap st) root page_layout) (\<lambda>h. Ret (st\<lparr>heap := h\<rparr>)))"

definition set_pagetable :: "image \<Rightarrow> nat \<Rightarrow> nat option \<Rightarrow> ('z kproc_scheme, unit) prog" where
  "set_pagetable im p v = bindp (proc_at p) (\<lambda>x. thenp (upd_pdata p (\<lambda>d. d\<lparr>pagetable := v\<rparr>))
     (case pagetable (pdata x) of None \<Rightarrow> retp () | Some old \<Rightarrow> drop_box im old))"

definition map_user :: "image \<Rightarrow> nat \<Rightarrow> nat \<Rightarrow> nat \<Rightarrow> 64 word \<Rightarrow> ('z kproc_scheme, bool) prog" where
  "map_user im root va pa perm = memp (\<lambda>st. pgt_map (i_bf im) st root va pa PGSIZE perm)"

definition data_proc_pagetable :: "image \<Rightarrow> nat \<Rightarrow> ('z kproc_scheme, unit) prog" where
  "data_proc_pagetable im p = bindp (memp (uvmcreate (i_bf im))) (\<lambda>root.
     bindp (map_user im root TRAMPOLINE (trampoline_pa im) (PTE_R OR PTE_X)) (\<lambda>ok1.
     thenp (if ok1 then retp () else memp0 (\<lambda>st. uvm_free st root 0))
     (bindp (proc_at p) (\<lambda>x. bindp (map_user im root TRAPFRAME (trapframe (pdata x)) (PTE_R OR PTE_W)) (\<lambda>ok2.
      thenp (if ok2 then retp () else memp0 (\<lambda>st. uvm_free st root 0)) (set_pagetable im p (Some root)))))))"

definition proc_pagetable :: "image \<Rightarrow> nat \<Rightarrow> ('z kproc_scheme, nat option) prog" where
  "proc_pagetable im p = bindp (memp (uvmcreate (i_bf im))) (\<lambda>root.
     bindp (map_user im root TRAMPOLINE (trampoline_pa im) (PTE_R OR PTE_X)) (\<lambda>ok1.
     if \<not> ok1 then thenp (memp0 (\<lambda>st. uvm_free st root 0)) (thenp (drop_box im root) (retp None))
     else bindp (proc_at p) (\<lambda>x. bindp (map_user im root TRAPFRAME (trapframe (pdata x)) (PTE_R OR PTE_W)) (\<lambda>ok2.
       if \<not> ok2 then thenp (memp0 (\<lambda>st. uvm_unmap st root TRAPFRAME 1 False))
         (thenp (memp0 (\<lambda>st. uvm_free st root 0)) (thenp (drop_box im root) (retp None)))
       else retp (Some root)))))"

definition find_unused :: "process list \<Rightarrow> nat option" where
  "find_unused ps = find (\<lambda>i. pstate (pmeta (ps ! i)) = UNUSED) [0..<length ps]"

definition alloc_proc :: "image \<Rightarrow> ('z kproc_scheme, nat option) prog" where
  "alloc_proc im = bindp (getp pids) (\<lambda>g. bindp (liftp (alloc_pid g)) (\<lambda>(n, g').
     thenp (modp (\<lambda>s. s\<lparr>pids := g'\<rparr>)) (bindp (getp procs) (\<lambda>ps.
     case find_unused ps of
       None \<Rightarrow> retp None
     | Some p \<Rightarrow> thenp (upd_proc p (\<lambda>x. x\<lparr>pmeta := (pmeta x)\<lparr>pid := n, pstate := ALLOCATED\<rparr>\<rparr>))
         (bindp (memp (new_zeroed (i_bf im))) (\<lambda>tf. thenp (upd_pdata p (\<lambda>d. d\<lparr>trapframe := tf\<rparr>))
         (thenp (data_proc_pagetable im p) (bindp (proc_at p) (\<lambda>x.
          bindp (liftp (init_context (fork_ret_pa im) (pdata x))) (\<lambda>d. thenp (upd_pdata p (\<lambda>_. d)) (retp (Some p))))))))))))"

definition free_proc :: "image \<Rightarrow> nat \<Rightarrow> ('z kproc_scheme, unit) prog" where
  "free_proc im p = bindp (proc_at p) (\<lambda>x.
     if trapframe (pdata x) = 0 then retp ()
     else thenp (upd_pdata p (\<lambda>d. d\<lparr>trapframe := 0\<rparr>))
       (thenp (case pagetable (pdata x) of None \<Rightarrow> retp () | Some root \<Rightarrow> memp0 (\<lambda>st. proc_free_pagetable st root (psize (pdata x))))
       (thenp (set_pagetable im p None) (thenp (upd_pdata p (\<lambda>d. d\<lparr>parent := None, psize := 0\<rparr>))
       (upd_proc p (\<lambda>x. x\<lparr>pmeta := (pmeta x)\<lparr>pid := 0, channel := Chan0, killed := False, xstate := 0, pstate := UNUSED\<rparr>\<rparr>))))))"

text \<open>\<open>isize\<close> is the two's complement of \<open>usize\<close>.\<close>

definition isize_of :: "nat \<Rightarrow> int" where
  "isize_of n = (if n < 2 ^ 63 then int n else int n - 2 ^ 64)"

definition add_isize :: "int \<Rightarrow> int \<Rightarrow> int outcome" where
  "add_isize a b = (if - (2 ^ 63) \<le> a + b \<and> a + b < 2 ^ 63 then Ret (a + b) else Panic ''attempt to add with overflow'')"

definition grow_proc :: "image \<Rightarrow> nat \<Rightarrow> int \<Rightarrow> ('z kproc_scheme, string + unit) prog" where
  "grow_proc im p count = bindp (proc_at p) (\<lambda>x. let sz = psize (pdata x) in
     bindp (unwrapp ''unwrap'' (pagetable (pdata x))) (\<lambda>root.
     if count > 0
     then bindp (liftp (uadd sz (nat count))) (\<lambda>n. bindp (memp (\<lambda>st. uvm_alloc (i_bf im) st root sz n)) (\<lambda>r.
       case r of
         Some n' \<Rightarrow> thenp (upd_pdata p (\<lambda>d. d\<lparr>psize := n'\<rparr>)) (retp (Inr ()))
       | None \<Rightarrow> retp (Inl ''Fail to allocate virtual memory for user'')))
     else if count < 0
     then bindp (liftp (add_isize (isize_of sz) count)) (\<lambda>n. bindp (memp (\<lambda>st. uvm_dealloc st root sz (nat (n mod 2 ^ 64)))) (\<lambda>n'.
       thenp (upd_pdata p (\<lambda>d. d\<lparr>psize := n'\<rparr>)) (retp (Inr ()))))
     else thenp (upd_pdata p (\<lambda>d. d\<lparr>psize := sz\<rparr>)) (retp (Inr ()))))"

text \<open>The switch to the scheduler of a process that is not running any more.\<close>

definition sched_out :: "nat \<Rightarrow> ('z kproc_scheme, unit) prog" where
  "sched_out p = bindp (proc_at p) (\<lambda>x. assertp (pstate (pmeta x) \<noteq> RUNNING) ''sched: proc is running'')"

definition yielding :: "nat \<Rightarrow> ('z kproc_scheme, unit) prog" where
  "yielding p = thenp (upd_proc p (set_state RUNNABLE)) (sched_out p)"

definition sleep_until :: "nat \<Rightarrow> chan \<Rightarrow> ('z kproc_scheme, unit) prog" where
  "sleep_until p ch = thenp (upd_proc p (\<lambda>x. set_state SLEEPING (set_chan ch x))) (sched_out p)"

definition fork_files_round :: "image \<Rightarrow> nat \<Rightarrow> nat \<Rightarrow> nat \<Rightarrow> ('z kfile_scheme, unit option) prog" where
  "fork_files_round im p c i = bindp (open_file p i) (\<lambda>o1. case o1 of
     None \<Rightarrow> thenp (set_open_file im c i None) (retp None)
   | Some a \<Rightarrow> bindp (arc_clone a) (\<lambda>a'. thenp (set_open_file im c i (Some a')) (retp None)))"

definition clone_cwd :: "image \<Rightarrow> nat \<Rightarrow> nat \<Rightarrow> ('z kfile_scheme, unit) prog" where
  "clone_cwd im p c = bindp (proc_at p) (\<lambda>x. bindp (proc_at c) (\<lambda>y.
     bindp (case cwd (pdata x) of None \<Rightarrow> retp None | Some ino \<Rightarrow> bindp (idup ino) (\<lambda>i. retp (Some i))) (\<lambda>n.
     thenp (upd_pdata c (\<lambda>d. d\<lparr>cwd := n\<rparr>)) (case cwd (pdata y) of None \<Rightarrow> retp () | Some old \<Rightarrow> iput im old))))"

definition sizeof_trapframe :: nat where "sizeof_trapframe = 288"

definition fork :: "image \<Rightarrow> nat \<Rightarrow> ('z kfile_scheme, nat option) prog" where
  "fork im p = bindp (alloc_proc im) (\<lambda>r. case r of None \<Rightarrow> retp None | Some c \<Rightarrow>
     bindp (proc_at p) (\<lambda>x. bindp (proc_at c) (\<lambda>y.
     bindp (unwrapp ''unwrap'' (pagetable (pdata x))) (\<lambda>root. bindp (unwrapp ''unwrap'' (pagetable (pdata y))) (\<lambda>child.
     bindp (memp (\<lambda>st. uvm_copy (i_bf im) st root child (psize (pdata x)))) (\<lambda>res. case res of
       Inl e \<Rightarrow> panicp ''fork: Fail to copy data from parent process.''
     | Inr _ \<Rightarrow>
         thenp (modp (\<lambda>s. s\<lparr>mem := (mem s)\<lparr>ram := ptr_copy (ram (mem s)) (trapframe (pdata x)) (trapframe (pdata y)) sizeof_trapframe\<rparr>\<rparr>))
         (thenp (tf_write c (TF_a 0) 0) (thenp (forp 0 NFILE (fork_files_round im p c)) (thenp (clone_cwd im p c)
         (thenp (upd_pdata c (\<lambda>d. d\<lparr>pname := pname (pdata x), psize := psize (pdata x)\<rparr>))
         (thenp (upd_proc c (set_state RUNNABLE)) (thenp (upd_pdata c (\<lambda>d. d\<lparr>parent := Some p\<rparr>)) (retp (Some c))))))))))))))"

definition close_files_round :: "image \<Rightarrow> nat \<Rightarrow> nat \<Rightarrow> ('z kfile_scheme, unit option) prog" where
  "close_files_round im p i = thenp (set_open_file im p i None) (retp None)"

definition drop_cwd :: "image \<Rightarrow> nat \<Rightarrow> ('z kfile_scheme, unit) prog" where
  "drop_cwd im p = bindp (proc_at p) (\<lambda>x. thenp (upd_pdata p (\<lambda>d. d\<lparr>cwd := None\<rparr>))
     (case cwd (pdata x) of None \<Rightarrow> retp () | Some ino \<Rightarrow> iput im ino))"

text \<open>Before \<open>user_init\<close> the pointer to the first process is null, which no process has: \<open>NPROC\<close>.\<close>

definition proc_exit :: "image \<Rightarrow> nat \<Rightarrow> ('z kfile_scheme, unit) prog" where
  "proc_exit im status = bindp myproc (\<lambda>p. thenp (forp 0 NFILE (close_files_round im p))
     (thenp begin_op (thenp end_op (thenp (drop_cwd im p)
     (bindp (getp init_proc) (\<lambda>ini. thenp (modp (\<lambda>s. s\<lparr>procs := reparent p (case ini of Some i \<Rightarrow> i | None \<Rightarrow> NPROC) (procs s)\<rparr>))
     (bindp (proc_at p) (\<lambda>x. bindp (unwrapp ''Fail to find parent process'' (parent (pdata x))) (\<lambda>par.
      thenp (wake_upp (ChProc par))
      (thenp (upd_proc p (\<lambda>x. set_state ZOMBIE (x\<lparr>pmeta := (pmeta x)\<lparr>xstate := status\<rparr>\<rparr>))) (sched_out p)))))))))))"

definition trap_exit :: "image \<Rightarrow> nat \<Rightarrow> ('z kfile_scheme, unit) prog" where
  "trap_exit im status = bindp myproc (\<lambda>p. thenp (forp 0 NFILE (close_files_round im p))
     (thenp begin_op (thenp end_op (thenp (drop_cwd im p)
     (bindp (proc_at p) (\<lambda>x. bindp (unwrapp ''unwrap'' (parent (pdata x))) (\<lambda>par.
      thenp (wake_upp (ChProc par))
      (upd_proc p (\<lambda>x. (set_state ZOMBIE x)\<lparr>pmeta := (pmeta (set_state ZOMBIE x))\<lparr>xstate := status\<rparr>\<rparr>)))))))))"

text \<open>
  One scan of \<open>wait\<close>: \<open>Some r\<close> if a zombie child was found. The exit status is used as the address to
  copy from; outside the memory that the kernel maps this access faults.
\<close>

definition wait_round :: "image \<Rightarrow> nat \<Rightarrow> nat \<Rightarrow> nat \<Rightarrow> ('z kfile_scheme, nat option option) prog" where
  "wait_round im p addr i = bindp (proc_at i) (\<lambda>x.
     if parent (pdata x) = Some p \<and> pstate (pmeta x) = ZOMBIE
     then bindp (unwrapp ''Fail to get pagetable'' (pagetable (pdata x))) (\<lambda>root.
       bindp (if addr = 0 then retp (Inr ())
          else if xstate (pmeta x) < KERNEL_BASE \<or> xstate (pmeta x) + 8 > PHYSTOP then panicp ''page fault in the kernel''
          else copy_outp root addr (xstate (pmeta x)) 8) (\<lambda>r.
       case r of
         Inl e \<Rightarrow> retp (Some None)
       | Inr _ \<Rightarrow> thenp (free_proc im i) (retp (Some (Some (pid (pmeta x)))))))
     else retp None)"

definition have_kids :: "nat \<Rightarrow> process list \<Rightarrow> bool" where
  "have_kids p ps = list_ex (\<lambda>x. parent (pdata x) = Some p) ps"

definition wait :: "image \<Rightarrow> nat \<Rightarrow> ('z kfile_scheme, nat option) prog" where
  "wait im addr = bindp myproc (\<lambda>p. bindp (getp procs) (\<lambda>ps.
     bindp (forp 0 (length ps) (wait_round im p addr)) (\<lambda>r. case r of
       Some x \<Rightarrow> retp x
     | None \<Rightarrow> bindp (killedp p) (\<lambda>k. if \<not> have_kids p ps \<or> k then retp None else panicp ''sleep''))))"

definition INITCODE :: "8 word list" where
  "INITCODE = [0x17, 0x05, 0x00, 0x00, 0x13, 0x05, 0x05, 0x02, 0x97, 0x05, 0x00, 0x00, 0x93, 0x85, 0x05, 0x02,
     0x9d, 0x48, 0x73, 0x00, 0x00, 0x00, 0x89, 0x48, 0x73, 0x00, 0x00, 0x00, 0xef, 0xf0, 0xbf, 0xff,
     0x2f, 0x69, 0x6e, 0x69, 0x74, 0x00, 0x00, 0x01, 0x20, 0x00, 0x00, 0x00, 0x00, 0x00, 0x00, 0x00, 0x00, 0x00, 0x00]"

definition user_init :: "image \<Rightarrow> ('z kfile_scheme, unit) prog" where
  "user_init im = bindp (alloc_proc im) (\<lambda>r. bindp (unwrapp ''Fail to get unused process'' r) (\<lambda>p.
     bindp (proc_at p) (\<lambda>x. bindp (unwrapp ''unwrap'' (pagetable (pdata x))) (\<lambda>root.
     thenp (memp0 (\<lambda>st. uvm_init (i_bf im) st root INITCODE)) (thenp (upd_pdata p (\<lambda>d. d\<lparr>psize := PGSIZE\<rparr>))
     (thenp (tf_write p TF_epc 0) (thenp (tf_write p TF_sp (4 * PGSIZE))
     (bindp (proc_at p) (\<lambda>x. bindp (liftp (set_name (pdata x) (map (of_nat \<circ> of_char) ''initname'' @ [0]))) (\<lambda>d.
      thenp (upd_pdata p (\<lambda>_. d)) (bindp (namei im ROOTIPATH) (\<lambda>r. bindp (unwrapp ''cannot find root inode'' r) (\<lambda>ino.
      thenp (bindp (proc_at p) (\<lambda>x. thenp (upd_pdata p (\<lambda>d. d\<lparr>cwd := Some ino\<rparr>))
        (case cwd (pdata x) of None \<Rightarrow> retp () | Some old \<Rightarrow> iput im old)))
      (thenp (upd_proc p (set_state RUNNABLE)) (modp (\<lambda>s. s\<lparr>init_proc := Some p\<rparr>))))))))))))))))"

definition pdata_user_init :: "image \<Rightarrow> nat \<Rightarrow> nat \<Rightarrow> nat \<Rightarrow> ('z kproc_scheme, unit) prog" where
  "pdata_user_init im satp hartid p = bindp (proc_at p) (\<lambda>x.
     thenp (tf_write p TF_kernel_satp satp) (bindp (liftp (uadd (kstack (pdata x)) (PGSIZE * 4))) (\<lambda>sp.
     thenp (tf_write p TF_kernel_sp sp) (thenp (tf_write p TF_kernel_trap (user_trap_pa im)) (tf_write p TF_kernel_hartid hartid)))))"

text \<open>The system calls.\<close>

definition sys_fork :: "image \<Rightarrow> nat \<Rightarrow> ('z kfile_scheme, unit + nat) prog" where
  "sys_fork im p = bindp (fork im p) (\<lambda>r. case r of None \<Rightarrow> retp (Inl ())
     | Some c \<Rightarrow> bindp (proc_at c) (\<lambda>x. retp (Inr (pid (pmeta x)))))"

definition sys_exit :: "image \<Rightarrow> nat \<Rightarrow> ('z kfile_scheme, unit) prog" where
  "sys_exit im p = bindp (arg p 0) (proc_exit im)"

definition sys_wait :: "image \<Rightarrow> nat \<Rightarrow> ('z kfile_scheme, unit + nat) prog" where
  "sys_wait im p = bindp (arg p 0) (\<lambda>addr. bindp (wait im addr) (\<lambda>r. retp (case r of Some n \<Rightarrow> Inr n | None \<Rightarrow> Inl ())))"

definition sys_getpid :: "nat \<Rightarrow> ('z kproc_scheme, unit + nat) prog" where
  "sys_getpid p = bindp (proc_at p) (\<lambda>x. retp (Inr (pid (pmeta x))))"

definition sys_sbrk :: "image \<Rightarrow> nat \<Rightarrow> ('z kproc_scheme, unit + nat) prog" where
  "sys_sbrk im p = bindp (arg p 0) (\<lambda>sz. bindp (proc_at p) (\<lambda>x. bindp (grow_proc im p (isize_of sz)) (\<lambda>r. case r of
     Inr _ \<Rightarrow> retp (Inr (psize (pdata x))) | Inl e \<Rightarrow> panicp ''err'')))"

definition sys_sleep :: "nat \<Rightarrow> ('z kfile_scheme, unit + nat) prog" where
  "sys_sleep p = bindp (arg p 0) (\<lambda>span. if 0 < span
     then bindp myproc (\<lambda>q. bindp (killedp q) (\<lambda>k. if k then retp (Inl ()) else panicp ''sleep''))
     else retp (Inr 0))"

definition sys_kill :: "nat \<Rightarrow> ('z kproc_scheme, unit + nat) prog" where
  "sys_kill p = bindp (arg p 0) (\<lambda>n. bindp (getp (\<lambda>s. kill n (procs s))) (\<lambda>(r, ps).
     thenp (modp (\<lambda>s. s\<lparr>procs := ps\<rparr>)) (retp r)))"

end
