(* ===== verification/ProcProps.thy ===== *)
theory ProcProps
  imports VmProps Proc
begin

text \<open>
  Growing and shrinking the memory of a process: \<open>grow_proc\<close> with the page table of the process and the
  kernel heap.
\<close>

definition set_size :: "nat \<Rightarrow> nat \<Rightarrow> process list \<Rightarrow> process list" where
  "set_size p n ps = ps[p := (ps ! p)\<lparr>pdata := (pdata (ps ! p))\<lparr>psize := n\<rparr>\<rparr>]"

lemma grow_run:
  assumes "pagetable (pdata (procs s ! p)) = Some root" "psize (pdata (procs s ! p)) = sz" "0 < n"
  shows "grow_proc im p (int n) s = bnd (uadd sz n) (\<lambda>m. bnd (uvm_alloc (i_bf im) (mem s) root sz m) (\<lambda>(r, st). case r of
    Some n' \<Rightarrow> Ret (Inr (), s\<lparr>mem := st, procs := set_size p n' (procs s)\<rparr>)
  | None \<Rightarrow> Ret (Inl ''Fail to allocate virtual memory for user'', s\<lparr>mem := st\<rparr>)))"
proof (cases "sz + n < usize_lim")
  case True
  then show ?thesis using assms
    by (cases "uvm_alloc (i_bf im) (mem s) root sz (sz + n)")
      (auto simp: grow_proc_def proc_at_def memp_def upd_pdata_def upd_proc_def set_size_def prog_run uadd_def split: option.splits)
qed (use assms in \<open>simp add: grow_proc_def proc_at_def prog_run uadd_def\<close>)

lemma shrink_run:
  assumes "pagetable (pdata (procs s ! p)) = Some root" "psize (pdata (procs s ! p)) = sz" "0 < n" "n \<le> sz" "sz < 2 ^ 63"
  shows "grow_proc im p (- int n) s = bnd (uvm_dealloc (mem s) root sz (sz - n)) (\<lambda>(n', st).
    Ret (Inr (), s\<lparr>mem := st, procs := set_size p n' (procs s)\<rparr>))"
proof -
  have a: "add_isize (isize_of sz) (- int n) = Ret (int (sz - n))"
    using assms(4,5) by (simp add: add_isize_def isize_of_def of_nat_diff)
  have "nat (int (sz - n) mod 2 ^ 64) = sz - n" using assms(5) by simp
  then show ?thesis using assms(1-3) a
    by (cases "uvm_dealloc (mem s) root sz (sz - n)")
      (auto simp: grow_proc_def proc_at_def memp_def upd_pdata_def upd_proc_def set_size_def prog_run)
qed

subsection \<open>Mapped pages\<close>

lemma unmap_loop_ok:
  assumes "va + n * PGSIZE \<le> MAXVA + PGSIZE" "\<And>k. k < n \<Longrightarrow> \<exists>e. entry m root (va + k * PGSIZE) = Some e \<and> as_flags e \<noteq> PTE_V"
  shows "uvm_unmap_loop m root n va = Ret ()"
  using assms
proof (induction n arbitrary: va)
  case (Suc n)
  obtain e where e: "entry m root va = Some e" "as_flags e \<noteq> PTE_V" using Suc.prems(2) [of 0] by auto
  have va: "va \<le> MAXVA" using Suc.prems(1) by simp
  have "uvm_unmap_loop m root n (va + PGSIZE) = Ret ()"
    using Suc.IH [of "va + PGSIZE"] Suc.prems(1) Suc.prems(2) [of "Suc k" for k] by (simp add: algebra_simps)
  moreover have "add_page va = Ret (va + PGSIZE)" using va by (simp add: add_page_def uadd_def layout_defs usize_lim_def)
  ultimately show ?case using entry_translate [OF e(1) va] e(2) by auto
qed simp

context buddy_bits
begin

lemma map_mapped_panics:
  assumes v: "vm_inv bf lo root st" and va: "va \<le> MAXVA" and e: "entry (ram st) root va = Some e"
  shows "\<exists>x. map_loop bf root perm (Suc n) st va pa = Panic x"
proof (cases "translate_or_alloc bf st root va")
  case (Ret y)
  obtain a st1 where y: "y = (a, st1)" by (cases y)
  from translate_or_alloc_ok [OF v va] Ret y obtain t where l: "same_leaves root st st1"
    and t: "tab (ram st1) root [page_num va 2, page_num va 1] = Some t" "a = t + 8 * page_num va 0"
    by (auto simp del: tab.simps)
  have "is_valid (read64 (ram st1) a)"
    using entry_read [OF t(1)] same_leaves_entry [OF l, of va] e t(2) by (auto split: if_splits)
  then show ?thesis using Ret y by simp
qed simp

lemma uvm_alloc_mapped_panics:
  assumes v: "vm_inv bf lo root st" and q: "(old_size + PGSIZE - 1) div PGSIZE = q" "q * PGSIZE < new_size" "q * PGSIZE \<le> MAXVA"
    and e: "entry (ram st) root (q * PGSIZE) = Some e"
  shows "\<exists>x. uvm_alloc bf st root old_size new_size = Panic x"
proof -
  have "old_size \<le> q * PGSIZE" using q(1) by (auto simp: PGSIZE_def)
  then have lim: "old_size + PGSIZE < usize_lim" "\<not> new_size < old_size" using q by (auto simp: layout_defs usize_lim_def)
  have "\<exists>x. uvm_alloc_loop bf st root o' (q * PGSIZE) new_size = Panic x" for o'
  proof (cases "new_zeroed bf st")
    case (Ret y)
    obtain p st1 where y: "y = (p, st1)" by (cases y)
    from new_zeroed_ok [OF v] Ret y have f: "vm_inv bf lo root st1" "same_leaves root st st1" "fresh_page bf lo root st p st1"
      by auto
    have z: "st1\<lparr>ram := zero_page (ram st1) p\<rparr> = st1" using f(3) by (simp add: fresh_page_def zero_page_idem)
    have r: "q * PGSIZE + PGSIZE + PGSIZE < usize_lim" using q(3) by (simp add: layout_defs usize_lim_def)
    have P: "0 < PGSIZE" "q * PGSIZE + PGSIZE < usize_lim" using r by (simp_all add: PGSIZE_def)
    have rd: "pg_round_down (q * PGSIZE) = q * PGSIZE" using pg_round_down_eq [of "q * PGSIZE"] r by (simp add: PGSIZE_def)
    have ru: "pg_round_up (q * PGSIZE + PGSIZE) = Ret (Suc q * PGSIZE)" using pg_round_up_eq [OF r] by (simp add: PGSIZE_def)
    have "pgt_map bf st1 root (q * PGSIZE) p PGSIZE urwx = map_loop bf root urwx (Suc 0) st1 (q * PGSIZE) p"
      using r by (simp add: pgt_map_def uadd_def rd ru Let_def P diff_mult_distrib [symmetric] del: map_loop.simps mult_Suc)
    moreover obtain x where "map_loop bf root urwx (Suc 0) st1 (q * PGSIZE) p = Panic x"
      using map_mapped_panics [OF f(1) q(3)] e same_leaves_entry [OF f(2)] by metis
    ultimately show ?thesis using Ret y z q(2) by (subst uvm_alloc_loop.simps) simp
  qed (use q(2) in \<open>simp add: uvm_alloc_loop.simps\<close>)
  then show ?thesis using lim pg_round_up_eq [OF lim(1)] q(1) by (simp add: uvm_alloc_def)
qed

end

subsection \<open>Properties\<close>

text \<open>C39: Growing the memory of a process works. For a process with a well-formed page table whose memory
  is not mapped beyond its end, \<open>grow_proc\<close> with a positive count runs out of heap or succeeds: the size of the
  process is raised by the count, and nothing else in the process table changes; new zeroed pages are
  mapped at all page numbers between the rounded sizes. They are distinct and were not in use; the other
  translations and the memory in use stay the same.\<close>

theorem grow_proc_grows:
  assumes "bit_field (i_bf im)" and "pagetable (pdata (procs s ! p)) = Some root" and "psize (pdata (procs s ! p)) = sz"
    and "vm_inv (i_bf im) lo root (mem s)" and "0 < n" and "sz + n \<le> MAXVA + PGSIZE"
    and "\<forall>v. (sz + PGSIZE - 1) div PGSIZE \<le> v \<longrightarrow> v * PGSIZE < sz + n \<longrightarrow> entry (ram (mem s)) root (v * PGSIZE) = None"
  shows "oom_or (\<lambda>(r, s'). \<exists>st. r = Inr () \<and> s' = s\<lparr>mem := st, procs := set_size p (sz + n) (procs s)\<rparr> \<and>
    vm_inv (i_bf im) lo root st \<and> vm_ext (i_bf im) lo root (mem s) st \<and>
    filled (i_bf im) lo root ((sz + PGSIZE - 1) div PGSIZE) ((sz + n + PGSIZE - 1) div PGSIZE) (\<lambda>_. urwx) (\<lambda>_ _. 0) (mem s) st)
    (grow_proc im p (int n) s)"
proof -
  have u: "uadd sz n = Ret (sz + n)" using assms(6) by (simp add: uadd_def layout_defs usize_lim_def)
  note A = buddy_bits.uvm_alloc_ok [OF buddy_bitsI [OF assms(1)] assms(4) le_add1 assms(6)]
  show ?thesis unfolding grow_run [OF assms(2,3,5)] u bnd.simps
    by (rule oom_or_bnd [OF A]) (use assms(7) in auto)
qed

text \<open>A process without memory, and with two pages.\<close>

definition demo_image :: image where
  "demo_image = \<lparr>i_bf = std_bitops, i_bf64 = std_bitops, buf_addr = (\<lambda>_. 0), local_addr = 0, trampoline_pa = 0, fork_ret_pa = 0, user_trap_pa = 0\<rparr>"

definition demo_proc :: "nat \<Rightarrow> vm \<Rightarrow> kproc" where
  "demo_proc sz st = \<lparr>procs = [process_new\<lparr>pdata := proc_data_new\<lparr>psize := sz, pagetable := Some 0x80100000\<rparr>\<rparr>],
     init_proc = None, pids = 1, cur = Some 0, mem = st\<rparr>"

lemma demo_proc_sel:
  "pagetable (pdata (procs (demo_proc sz st) ! 0)) = Some 0x80100000" "psize (pdata (procs (demo_proc sz st) ! 0)) = sz"
  "mem (demo_proc sz st) = st" "0 < length (procs (demo_proc sz st))"
  by (simp_all add: demo_proc_def)

lemma demo_image_bf: "i_bf demo_image = std_bitops"
  by (simp add: demo_image_def)

lemma demo_grown:
  "\<exists>lo st st'. vm_inv std_bitops lo 0x80100000 st \<and> (\<forall>va. entry (ram st) 0x80100000 va = None) \<and>
     uvm_alloc std_bitops st 0x80100000 0 5000 = Ret (Some 5000, st') \<and> vm_inv std_bitops lo 0x80100000 st' \<and>
     (\<forall>v < 2. \<exists>e. entry (ram st') 0x80100000 (v * PGSIZE) = Some e \<and> as_flags e \<noteq> PTE_V)"
proof -
  obtain s lo where s: "page_inv std_bitops lo s" "0x80200000 < lo" "spare std_bitops s 8192"
    using boot_heap by blast
  note I = boot_inv [OF s(1,2)]
  have sup: "supplied std_bitops lo 8186 (uvm_alloc std_bitops (boot_vm s) 0x80100000 0 5000)"
    by (rule std_buddy.supplied_alloc) (use s in \<open>simp_all add: boot_vm_def PGSIZE_def\<close>)
  have sz: "(5000 + PGSIZE - 1) div PGSIZE = 2" "(0 + PGSIZE - 1) div PGSIZE = 0" "5000 \<le> MAXVA + PGSIZE"
    by (simp_all add: PGSIZE_def MAXVA_def)
  from supplied_ok [OF std_buddy.uvm_alloc_ok [OF I(1) _ sz(3), of 0, unfolded sz] sup] I(2)
  obtain st' where st: "uvm_alloc std_bitops (boot_vm s) 0x80100000 0 5000 = Ret (Some 5000, st')" "vm_inv std_bitops lo 0x80100000 st'"
    "filled std_bitops lo 0x80100000 0 2 (\<lambda>_. urwx) (\<lambda>_ _. 0) (boot_vm s) st'" by auto
  from st(3) obtain f where f: "\<forall>va < 2 ^ 39. entry (ram st') 0x80100000 va = (if 0 \<le> va div PGSIZE \<and> va div PGSIZE < 2
      then Some (write_perm (f (va div PGSIZE)) urwx) else entry (ram (boot_vm s)) 0x80100000 va)"
    and al: "\<forall>v \<in> {0 ..< 2}. is_page_aligned (f v)" unfolding filled_def by blast
  have fl: "urwx OR PTE_V \<noteq> PTE_V" by (simp add: urwx_def PTE_V_def PTE_R_def PTE_W_def PTE_X_def PTE_U_def)
  have "entry (ram st') 0x80100000 (v * PGSIZE) = Some (write_perm (f v) urwx) \<and> as_flags (write_perm (f v) urwx) \<noteq> PTE_V" if "v < 2" for v
    using f [rule_format, of "v * PGSIZE"] al that as_flags_write_perm [OF _ urwx_lt, of "f v"] fl by (simp add: PGSIZE_def)
  then show ?thesis using st(1,2) I(1,2) by blast
qed

theorem grow_proc_grows_witness:
  "\<exists>st s'. grow_proc demo_image 0 5000 (demo_proc 0 st) = Ret (Inr (), s') \<and> psize (pdata (procs s' ! 0)) = 5000"
proof -
  obtain lo st st' where g: "vm_inv std_bitops lo 0x80100000 st" "\<forall>va. entry (ram st) 0x80100000 va = None"
    "uvm_alloc std_bitops st 0x80100000 0 5000 = Ret (Some 5000, st')" using demo_grown by blast
  note d = demo_proc_sel [where sz = 0 and st = st]
  have z: "0 + 5000 \<le> MAXVA + PGSIZE" by (simp add: MAXVA_def)
  note G = grow_proc_grows [where im = demo_image and lo = lo and n = 5000, OF _ d(1,2), unfolded d demo_image_bf, OF std_bit.bit_field_axioms g(1) _ z]
  have "grow_proc demo_image 0 (int 5000) (demo_proc 0 st) \<noteq> Panic ''alloc error''"
    using g(3) unfolding grow_run [OF d(1,2) zero_less_numeral] d demo_image_bf by (simp add: uadd_def usize_lim_def)
  then obtain st1 where g1: "grow_proc demo_image 0 (int 5000) (demo_proc 0 st) =
      Ret (Inr (), (demo_proc 0 st)\<lparr>mem := st1, procs := set_size 0 (0 + 5000) (procs (demo_proc 0 st))\<rparr>)"
    using G g(2) by (cases "grow_proc demo_image 0 (int 5000) (demo_proc 0 st)") (auto simp: oom_or_def)
  have "psize (pdata (procs ((demo_proc 0 st)\<lparr>mem := st1, procs := set_size 0 (0 + 5000) (procs (demo_proc 0 st))\<rparr>) ! 0)) = 5000"
    by (simp add: set_size_def demo_proc_def)
  moreover have "grow_proc demo_image 0 5000 (demo_proc 0 st) =
      Ret (Inr (), (demo_proc 0 st)\<lparr>mem := st1, procs := set_size 0 (0 + 5000) (procs (demo_proc 0 st))\<rparr>)" using g1 by simp
  ultimately show ?thesis by blast
qed

text \<open>C40: Memory that a process has given back can never be used again. Shrinking a process whose pages are
  mapped succeeds and lowers its size, but it leaves the page table and the heap as they are: the pages stay
  accessible to the program. When at least one page was given up, every later call of \<open>grow_proc\<close> that needs
  a page panics, because it finds that page mapped.\<close>

theorem shrink_then_grow_panics:
  assumes "bit_field (i_bf im)" and "p < length (procs s)" and "pagetable (pdata (procs s ! p)) = Some root"
    and "psize (pdata (procs s ! p)) = sz" and "vm_inv (i_bf im) lo root (mem s)" and "0 < n" and "n \<le> sz" and "sz \<le> MAXVA"
    and "\<forall>v < (sz + PGSIZE - 1) div PGSIZE. \<exists>e. entry (ram (mem s)) root (v * PGSIZE) = Some e \<and> as_flags e \<noteq> PTE_V"
  shows "\<exists>s1. grow_proc im p (- int n) s = Ret (Inr (), s1) \<and> psize (pdata (procs s1 ! p)) = sz - n \<and> mem s1 = mem s \<and>
    ((sz - n + PGSIZE - 1) div PGSIZE < (sz + PGSIZE - 1) div PGSIZE \<longrightarrow>
      (\<forall>k. (sz - n + PGSIZE - 1) div PGSIZE * PGSIZE < sz - n + k \<longrightarrow> (\<exists>x. grow_proc im p (int k) s1 = Panic x)))"
proof -
  let ?q = "(sz - n + PGSIZE - 1) div PGSIZE" and ?e = "(sz + PGSIZE - 1) div PGSIZE"
  have lim: "sz + PGSIZE < usize_lim" "sz - n + PGSIZE < usize_lim" "sz < 2 ^ 63"
    using assms(8) by (auto simp: layout_defs usize_lim_def)
  have nl: "\<not> sz \<le> sz - n" using assms(6,7) by simp
  have qe: "?q \<le> ?e" by (rule div_le_mono) simp
  have em: "?e * PGSIZE \<le> MAXVA + PGSIZE" using assms(8) by (simp add: layout_defs)
  have al: "is_page_aligned (?q * PGSIZE)" by (simp add: is_page_aligned_def)
  have "uvm_unmap_loop (ram (mem s)) root (?e - ?q) (?q * PGSIZE) = Ret ()"
  proof (rule unmap_loop_ok)
    show "?q * PGSIZE + (?e - ?q) * PGSIZE \<le> MAXVA + PGSIZE" using em qe by (simp add: add_mult_distrib [symmetric])
    show "\<exists>e. entry (ram (mem s)) root (?q * PGSIZE + k * PGSIZE) = Some e \<and> as_flags e \<noteq> PTE_V" if "k < ?e - ?q" for k
      using assms(9) [rule_format, of "?q + k"] that by (simp add: add_mult_distrib)
  qed
  moreover have "(?e * PGSIZE - ?q * PGSIZE) div PGSIZE = ?e - ?q" by (simp add: diff_mult_distrib [symmetric] PGSIZE_def)
  ultimately have d: "uvm_dealloc (mem s) root sz (sz - n) = Ret (sz - n, mem s)"
    using al nl unfolding uvm_dealloc_def pg_round_up_eq [OF lim(1)] pg_round_up_eq [OF lim(2)] by (simp add: uvm_unmap_def)
  let ?s = "s\<lparr>procs := set_size p (sz - n) (procs s)\<rparr>"
  have s: "psize (pdata (procs ?s ! p)) = sz - n" "pagetable (pdata (procs ?s ! p)) = Some root" "mem ?s = mem s"
    using assms(2,3) by (simp_all add: set_size_def)
  have "\<exists>x. grow_proc im p (int k) ?s = Panic x" if "?q < ?e" "?q * PGSIZE < sz - n + k" for k
  proof -
    have "sz - n \<le> ?q * PGSIZE" by (simp add: PGSIZE_def)
    then have k: "0 < k" using that(2) by simp
    have "?q * PGSIZE \<le> MAXVA" using that(1) em mult_le_mono1 [of "Suc ?q" ?e PGSIZE] by simp
    then have "\<exists>x. uvm_alloc (i_bf im) (mem s) root (sz - n) (sz - n + k) = Panic x"
      using buddy_bits.uvm_alloc_mapped_panics [OF buddy_bitsI [OF assms(1)] assms(5) refl that(2)] assms(9) that(1) by blast
    then show ?thesis unfolding grow_run [OF s(2,1) k] s(3) by (auto simp: uadd_def)
  qed
  then show ?thesis using shrink_run [OF assms(3,4,6,7) lim(3), of im] d s by simp
qed

theorem shrink_then_grow_panics_witness:
  "\<exists>st s1 x. grow_proc demo_image 0 (- 5000) (demo_proc 5000 st) = Ret (Inr (), s1) \<and> psize (pdata (procs s1 ! 0)) = 0 \<and>
     grow_proc demo_image 0 1 s1 = Panic x"
proof -
  obtain lo st where g: "vm_inv std_bitops lo 0x80100000 st"
    "\<forall>v < 2. \<exists>e. entry (ram st) 0x80100000 (v * PGSIZE) = Some e \<and> as_flags e \<noteq> PTE_V" using demo_grown by blast
  note d = demo_proc_sel [where sz = 5000 and st = st]
  have z: "(5000 + PGSIZE - 1) div PGSIZE = 2" "(5000 - 5000 + PGSIZE - 1) div PGSIZE = 0" "5000 \<le> MAXVA"
    by (simp_all add: PGSIZE_def MAXVA_def)
  note H = shrink_then_grow_panics [where im = demo_image and lo = lo and n = 5000, OF _ d(4,1,2), unfolded d demo_image_bf z,
    OF std_bit.bit_field_axioms g(1) zero_less_numeral order_refl z(3) g(2)]
  from H obtain s1 where s1: "grow_proc demo_image 0 (- int 5000) (demo_proc 5000 st) = Ret (Inr (), s1)" "psize (pdata (procs s1 ! 0)) = 5000 - 5000"
    "(0::nat) < 2 \<longrightarrow> (\<forall>k. 0 * PGSIZE < 5000 - 5000 + k \<longrightarrow> (\<exists>x. grow_proc demo_image 0 (int k) s1 = Panic x))" by (elim exE conjE) (rule that)
  have n: "(0::nat) < 2" "0 * PGSIZE < 5000 - 5000 + 1" by simp_all
  obtain x where "grow_proc demo_image 0 (int 1) s1 = Panic x" using s1(3) n by blast
  then show ?thesis using s1(1,2) by (intro exI conjI) simp_all
qed

end
