(* ===== verification/Exec.thy ===== *)
theory Exec
  imports Proc
begin

text \<open>
  Loading a program (\<open>process/elf.rs\<close>), \<open>sys_exec\<close>, and the dispatch of system calls
  (\<open>syscall/mod.rs\<close>). The two headers are boxes on the kernel heap. The string that collects the name of
  the program is a temporary of the heap and left out.
\<close>

definition ELF_MAGIC :: nat where "ELF_MAGIC = 0x464C457F"

definition ELF_PROG_LOAD :: nat where "ELF_PROG_LOAD = 1"

text \<open>\<open>ElfHeader\<close> and \<open>ProgHeader\<close> in memory: the fields that \<open>exec\<close> reads.\<close>

record elf_header =
  e_magic :: nat
  e_entry :: nat
  e_phoff :: nat
  e_phnum :: nat

record prog_header =
  prog_type :: nat
  ph_off :: nat
  ph_vaddr :: nat
  file_size :: nat
  mem_size :: nat

definition sizeof_elf :: nat where "sizeof_elf = 64"

definition sizeof_ph :: nat where "sizeof_ph = 56"

definition elf_header_of :: "8 word list \<Rightarrow> elf_header" where
  "elf_header_of b = \<lparr>e_magic = rd32 b 0, e_entry = le_dec (get_bytes b 24 8), e_phoff = le_dec (get_bytes b 32 8),
     e_phnum = rd16 b 56\<rparr>"

definition prog_header_of :: "8 word list \<Rightarrow> prog_header" where
  "prog_header_of b = \<lparr>prog_type = rd32 b 0, ph_off = le_dec (get_bytes b 8 8), ph_vaddr = le_dec (get_bytes b 16 8),
     file_size = le_dec (get_bytes b 32 8), mem_size = le_dec (get_bytes b 40 8)\<rparr>"

definition new_box :: "image \<Rightarrow> nat \<Rightarrow> ('z kproc_scheme, nat) prog" where
  "new_box im n = memp (\<lambda>st. bnd (box_alloc (i_bf im) (heap st) \<lparr>lsize = n, lalign = 8\<rparr>) (\<lambda>(a, h).
     Ret (a, st\<lparr>ram := write_bytes (ram st) a (replicate n 0), heap := h\<rparr>)))"

definition free_box :: "image \<Rightarrow> nat \<Rightarrow> nat \<Rightarrow> ('z kproc_scheme, unit) prog" where
  "free_box im n a = memp0 (\<lambda>st. bnd (heap_dealloc (i_bf im) (heap st) a \<lparr>lsize = n, lalign = 8\<rparr>) (\<lambda>h. Ret (st\<lparr>heap := h\<rparr>)))"

primrec str_len_loop :: "nat \<Rightarrow> (nat \<Rightarrow> 64 word) \<Rightarrow> nat \<Rightarrow> nat \<Rightarrow> nat outcome" where
  "str_len_loop 0 m a i = Panic ''page fault in the kernel''"
| "str_len_loop (Suc n) m a i = (if read8 m (a + i) \<noteq> 0 then str_len_loop n m a (Suc i) else Ret i)"

definition str_len :: "(nat \<Rightarrow> 64 word) \<Rightarrow> nat \<Rightarrow> nat outcome" where
  "str_len m a = str_len_loop (PHYSTOP - a) m a 0"

definition align_sp :: "nat \<Rightarrow> nat" where
  "align_sp sp = sp - sp mod 16"

primrec load_seg_loop :: "nat \<Rightarrow> image \<Rightarrow> nat \<Rightarrow> nat \<Rightarrow> nat \<Rightarrow> nat \<Rightarrow> nat \<Rightarrow> nat \<Rightarrow> ('z kern_scheme, string + unit) prog" where
  "load_seg_loop 0 im root va g off copied sz = (if copied < sz then panicp ''endless loop'' else retp (Inr ()))"
| "load_seg_loop (Suc n) im root va g off copied sz =
     (if copied < sz then
        bindp (getp (\<lambda>s. pgt_translate (ram (mem s)) root va)) (\<lambda>t. case t of
          None \<Rightarrow> panicp ''load_seg(): address should exist.''
        | Some pa \<Rightarrow> bindp (liftp (uadd off copied)) (\<lambda>o1.
            bindp (iread im g False pa (o1 mod u32_lim) ((if sz - copied < PGSIZE then sz - copied else PGSIZE) mod u32_lim)) (\<lambda>r.
            case r of
              Inl e \<Rightarrow> retp (Inl ''load_seg: Fail to read inode'')
            | Inr _ \<Rightarrow> bindp (liftp (uadd copied PGSIZE)) (\<lambda>c. bindp (liftp (add_page va)) (\<lambda>va'.
                load_seg_loop n im root va' g off c sz)))))
      else retp (Inr ()))"

definition load_seg :: "image \<Rightarrow> nat \<Rightarrow> nat \<Rightarrow> nat \<Rightarrow> nat \<Rightarrow> nat \<Rightarrow> ('z kern_scheme, string + unit) prog" where
  "load_seg im root va g off sz =
     (if \<not> is_page_aligned va then panicp ''load_seg(): va must be page aligned.''
      else load_seg_loop sz im root va g off 0 sz)"

text \<open>
  The program headers. The result is an error, after which everything but the inode and the boxes has
  been dropped, or the size of the image. A header of another type than \<open>LOAD\<close> leaves \<open>off\<close> as it is.
\<close>

definition exec_bad :: "image \<Rightarrow> nat \<Rightarrow> nat \<Rightarrow> nat \<Rightarrow> string \<Rightarrow> ('z kfile_scheme, string + nat) prog" where
  "exec_bad im root g sz e = thenp (memp0 (\<lambda>st. proc_free_pagetable st root sz)) (thenp (drop_guard g)
     (thenp end_op (thenp (drop_box im root) (retp (Inl e)))))"

definition exec_segment :: "image \<Rightarrow> nat \<Rightarrow> nat \<Rightarrow> nat \<Rightarrow> prog_header \<Rightarrow> ('z kfile_scheme, string + nat) prog" where
  "exec_segment im root g sz h =
     (if mem_size h < file_size h then exec_bad im root g sz ''exec: memory size is less than file size.''
      else bindp (liftp (uadd (ph_vaddr h) (mem_size h))) (\<lambda>top.
        bindp (memp (\<lambda>st. uvm_alloc (i_bf im) st root sz top)) (\<lambda>r. case r of
          None \<Rightarrow> exec_bad im root g sz ''exec: Fail to uvmalloc.''
        | Some sz' \<Rightarrow>
            if ph_vaddr h mod PGSIZE \<noteq> 0
            then thenp (memp0 (\<lambda>st. proc_free_pagetable st root sz')) (thenp end_op (thenp (drop_guard g) (thenp (drop_box im root)
              (retp (Inl ''exec: Programe Header must be integer multiple of PGSIZE. '')))))
            else bindp (load_seg im root (ph_vaddr h) g (ph_off h) (file_size h)) (\<lambda>r. case r of
                Inl e \<Rightarrow> exec_bad im root g sz' ''exec: Fail to load segment. ''
              | Inr _ \<Rightarrow> retp (Inr sz')))))"

primrec exec_headers :: "nat \<Rightarrow> image \<Rightarrow> nat \<Rightarrow> nat \<Rightarrow> nat \<Rightarrow> nat \<Rightarrow> nat \<Rightarrow> ('z kfile_scheme, string + nat) prog" where
  "exec_headers 0 im ph root g off sz = retp (Inr sz)"
| "exec_headers (Suc n) im ph root g off sz =
     bindp (iread im g False ph (off mod u32_lim) sizeof_ph) (\<lambda>r. case r of
       Inl e \<Rightarrow> thenp (drop_box im root) (thenp (drop_guard g) (thenp end_op (retp (Inl ''exec: Fail to read from inode''))))
     | Inr _ \<Rightarrow> bindp (peek ph sizeof_ph) (\<lambda>b. let h = prog_header_of b in
         if prog_type h \<noteq> ELF_PROG_LOAD then exec_headers n im ph root g off sz
         else tryp (exec_segment im root g sz h) (\<lambda>sz'. bindp (liftp (uadd off sizeof_ph)) (\<lambda>off'.
           exec_headers n im ph root g off' sz'))))"

text \<open>The arguments on the user stack: the stack pointer and the pointers to the strings.\<close>

definition push_arg :: "nat \<Rightarrow> nat \<Rightarrow> nat \<Rightarrow> nat \<Rightarrow> ('z kproc_scheme, string + nat) prog" where
  "push_arg root stack_base a sp = bindp (getp (\<lambda>s. ram (mem s))) (\<lambda>m. bindp (liftp (str_len m a)) (\<lambda>n.
     bindp (liftp (usub sp (n + 1))) (\<lambda>sp1. let sp' = align_sp sp1 in
     if sp' < stack_base then retp (Inl ''User Stack Bomb!'')
     else bindp (copy_outp root sp' a (n + 1)) (\<lambda>r. retp (case r of Inl e \<Rightarrow> Inl ''exec: Fail to copy out.'' | Inr _ \<Rightarrow> Inr sp')))))"

primrec push_args :: "nat \<Rightarrow> nat \<Rightarrow> nat \<Rightarrow> nat list \<Rightarrow> nat \<Rightarrow> nat list \<Rightarrow> ('z kproc_scheme, string + (nat \<times> nat list)) prog" where
  "push_args 0 root stack_base argv sp us = panicp ''index out of bounds''"
| "push_args (Suc n) root stack_base argv sp us = (let argc = length us in
     if argc \<ge> length argv then panicp ''index out of bounds''
     else if argv ! argc = 0 then retp (Inr (sp, us))
     else if argc \<ge> MAXARG then retp (Inl ''exec: argc is more than MAXARG. '')
     else tryp (push_arg root stack_base (argv ! argc) sp) (\<lambda>sp'. push_args n root stack_base argv sp' (us @ [sp'])))"

definition commit_image :: "image \<Rightarrow> nat \<Rightarrow> nat \<Rightarrow> nat \<Rightarrow> nat \<Rightarrow> nat \<Rightarrow> nat \<Rightarrow> 8 word list \<Rightarrow> ('z kproc_scheme, unit) prog" where
  "commit_image im p root sz old_size sp ent path =
     thenp (tf_write p (TF_a 1) sp)
     (let name = filter (\<lambda>c. c \<noteq> 47) path in
      if length name < 16 then panicp ''read past the end of the string''
      else thenp (upd_pdata p (\<lambda>d. d\<lparr>pname := take 16 name\<rparr>))
        (bindp (proc_at p) (\<lambda>x. bindp (unwrapp ''unwrap'' (pagetable (pdata x))) (\<lambda>old.
         thenp (memp0 (\<lambda>st. proc_free_pagetable st old old_size)) (thenp (set_pagetable im p (Some root))
         (thenp (upd_pdata p (\<lambda>d. d\<lparr>psize := sz\<rparr>)) (thenp (tf_write p TF_epc ent) (tf_write p TF_sp sp))))))))"

definition exec_stack :: "image \<Rightarrow> nat \<Rightarrow> nat \<Rightarrow> nat \<Rightarrow> nat \<Rightarrow> nat \<Rightarrow> nat list \<Rightarrow> 8 word list \<Rightarrow> ('z kfile_scheme, string + nat) prog" where
  "exec_stack im p root sz old_size ent argv path =
     bindp (liftp (usub sz (2 * PGSIZE))) (\<lambda>guard. thenp (memp0 (\<lambda>st. uvm_clear st root guard))
     (bindp (liftp (usub sz PGSIZE)) (\<lambda>stack_base. bindp (push_args (Suc MAXARG) root stack_base argv sz []) (\<lambda>r. case r of
        Inl e \<Rightarrow> thenp (if e = ''User Stack Bomb!'' then retp () else memp0 (\<lambda>st. proc_free_pagetable st root sz))
          (thenp (drop_box im root) (retp (Inl e)))
      | Inr (sp, us) \<Rightarrow> let n = 8 * (length us + 1) in
          bindp (liftp (usub sp n)) (\<lambda>sp1. let sp' = align_sp sp1 in
          thenp (if sp' < stack_base then thenp end_op (memp0 (\<lambda>st. proc_free_pagetable st root sz)) else retp ())
          (thenp (poke (local_addr im) (concat (map (le_enc 8) (us @ [0]))))
          (bindp (copy_outp root sp' (local_addr im) n) (\<lambda>r. case r of
             Inl e \<Rightarrow> thenp (memp0 (\<lambda>st. proc_free_pagetable st root sz)) (thenp (drop_box im root) (retp (Inl ''exec: Fail to copy out.'')))
           | Inr _ \<Rightarrow> thenp (commit_image im p root sz old_size sp' ent path) (retp (Inr (length us)))))))))))"

definition exec_image :: "image \<Rightarrow> nat \<Rightarrow> nat \<Rightarrow> nat \<Rightarrow> 8 word list \<Rightarrow> nat list \<Rightarrow> ('z kfile_scheme, string + nat) prog" where
  "exec_image im elf ph g path argv = bindp (peek elf sizeof_elf) (\<lambda>b. let h = elf_header_of b in
     if e_magic h \<noteq> ELF_MAGIC then thenp (drop_guard g) (thenp end_op (retp (Inl ''exec: Elf magic number is wrong.'')))
     else bindp myproc (\<lambda>p. bindp (proc_pagetable im p) (\<lambda>r.
       bindp (unwrapp ''Fail to alloc pagetable for current process.'' r) (\<lambda>root.
       tryp (exec_headers (e_phnum h) im ph root g (e_phoff h) 0) (\<lambda>sz.
       thenp (drop_guard g) (thenp end_op (bindp (proc_at p) (\<lambda>x. bindp (liftp (pg_round_up sz)) (\<lambda>sz1.
       bindp (liftp (uadd sz1 (2 * PGSIZE))) (\<lambda>top. bindp (memp (\<lambda>st. uvm_alloc (i_bf im) st root sz1 top)) (\<lambda>r. case r of
         None \<Rightarrow> thenp (memp0 (\<lambda>st. proc_free_pagetable st root sz1)) (thenp (drop_box im root) (retp (Inl ''exec: Fail to uvmalloc'')))
       | Some sz2 \<Rightarrow> exec_stack im p root sz2 (psize (pdata x)) (e_entry h) argv path)))))))))))"

definition exec :: "image \<Rightarrow> 8 word list \<Rightarrow> nat list \<Rightarrow> ('z kfile_scheme, string + nat) prog" where
  "exec im path argv = bindp (new_box im sizeof_elf) (\<lambda>elf. bindp (new_box im sizeof_ph) (\<lambda>ph.
     bindp (thenp begin_op (bindp (namei im path) (\<lambda>r. case r of
        None \<Rightarrow> retp (Inl ''Fail to find executable file'')
      | Some ino \<Rightarrow> bindp (ilock ino) (\<lambda>g. bindp (iread im g False elf 0 sizeof_elf) (\<lambda>r.
          bindp (case r of
             Inl e \<Rightarrow> thenp (drop_guard g) (thenp end_op (retp (Inl ''exec: Fail to read elf header.'')))
           | Inr _ \<Rightarrow> exec_image im elf ph g path argv) (\<lambda>res. thenp (iput im ino) (retp res)))))))
     (\<lambda>res. thenp (free_box im sizeof_ph ph) (thenp (free_box im sizeof_elf elf) (retp res)))))"

text \<open>\<open>core::str::from_utf8\<close>: the well-formed byte sequences of UTF-8.\<close>

fun utf8_valid :: "8 word list \<Rightarrow> bool" where
  "utf8_valid [] = True"
| "utf8_valid (a # r) =
     (let cont = (\<lambda>b::8 word. 0x80 \<le> b \<and> b \<le> 0xBF) in
      if a < 0x80 then utf8_valid r
      else case r of
        [] \<Rightarrow> False
      | b # r1 \<Rightarrow>
          if 0xC2 \<le> a \<and> a \<le> 0xDF then cont b \<and> utf8_valid r1
          else case r1 of
            [] \<Rightarrow> False
          | c # r2 \<Rightarrow>
              if 0xE0 \<le> a \<and> a \<le> 0xEF
              then cont b \<and> cont c \<and> (a = 0xE0 \<longrightarrow> 0xA0 \<le> b) \<and> (a = 0xED \<longrightarrow> b \<le> 0x9F) \<and> utf8_valid r2
              else case r2 of
                [] \<Rightarrow> False
              | d # r3 \<Rightarrow> 0xF0 \<le> a \<and> a \<le> 0xF4 \<and> cont b \<and> cont c \<and> cont d \<and>
                  (a = 0xF0 \<longrightarrow> 0x90 \<le> b) \<and> (a = 0xF4 \<longrightarrow> b \<le> 0x8F) \<and> utf8_valid r3)"

text \<open>The arguments of \<open>sys_exec\<close>: pages with the strings. A full vector of arguments is an error.\<close>

primrec fetch_argv :: "nat \<Rightarrow> image \<Rightarrow> nat \<Rightarrow> nat \<Rightarrow> nat list \<Rightarrow> ('z kfile_scheme, unit + nat list) prog" where
  "fetch_argv 0 im p user_argv argv = retp (Inl ())"
| "fetch_argv (Suc n) im p user_argv argv =
     bindp (liftp (uadd user_argv (8 * length argv))) (\<lambda>a. thenp (poke (local_addr im) (replicate 8 0))
     (trysys (copy_form_addr p a (local_addr im) 8) (\<lambda>_. bindp (peek (local_addr im) 8) (\<lambda>bs. let user_arg = le_dec bs in
      if user_arg = 0 then retp (Inr argv)
      else bindp (memp (new_zeroed (i_bf im))) (\<lambda>page. trysys (copy_from_str p user_arg page PGSIZE) (\<lambda>_.
        fetch_argv n im p user_argv (argv @ [page])))))))"

definition sys_exec :: "image \<Rightarrow> nat \<Rightarrow> ('z kfile_scheme, unit + nat) prog" where
  "sys_exec im p = bindp (arg p 0) (\<lambda>addr. bindp (fetch_path im p addr) (\<lambda>r. case r of Inl e \<Rightarrow> panicp ''unwrap''
     | Inr path \<Rightarrow> bindp (arg p 1) (\<lambda>user_argv. thenp (assertp (utf8_valid path) ''unwrap'')
         (trysys (fetch_argv MAXARG im p user_argv []) (\<lambda>argv.
          bindp (exec im path (argv @ replicate (MAXARG - length argv) 0)) (\<lambda>r. retp (res_sys r)))))))"

text \<open>The dispatcher.\<close>

datatype SysCallID = SysFork | SysExit | SysWait | SysPipe | SysRead | SysKill | SysExec | SysFstat | SysChdir | SysDup
  | SysGetPid | SysSbrk | SysSleep | SysUptime | SysOpen | SysWrite | SysMknod | SysUnlink | SysLink | SysMkdir | SysClose | Unknown

definition syscall_id :: "nat \<Rightarrow> SysCallID" where
  "syscall_id n = (if n \<in> {1..21}
     then [SysFork, SysExit, SysWait, SysPipe, SysRead, SysKill, SysExec, SysFstat, SysChdir, SysDup, SysGetPid, SysSbrk,
       SysSleep, SysUptime, SysOpen, SysWrite, SysMknod, SysUnlink, SysLink, SysMkdir, SysClose] ! (n - 1)
     else Unknown)"

text \<open>\<open>sys_exit\<close> does not come back: \<open>None\<close>.\<close>

definition syscall :: "image \<Rightarrow> (vfile \<Rightarrow> 8 word list) \<Rightarrow> nat \<Rightarrow> ('z kfile_scheme, (unit + nat) option) prog" where
  "syscall im file_bytes p = bindp (tf_read p (TF_a 7)) (\<lambda>n. let back = (\<lambda>m. bindp m (\<lambda>r. retp (Some r))) in
     case syscall_id n of
       SysFork \<Rightarrow> back (sys_fork im p)
     | SysExit \<Rightarrow> thenp (sys_exit im p) (retp None)
     | SysWait \<Rightarrow> back (sys_wait im p)
     | SysRead \<Rightarrow> back (sys_read im p)
     | SysWrite \<Rightarrow> back (sys_write im p)
     | SysOpen \<Rightarrow> back (sys_open im p)
     | SysExec \<Rightarrow> back (sys_exec im p)
     | SysMknod \<Rightarrow> back (sys_mknod im p)
     | SysClose \<Rightarrow> back (sys_close im p)
     | SysDup \<Rightarrow> back (sys_dup im p)
     | SysUptime \<Rightarrow> retp (Some (Inr 0))
     | SysSbrk \<Rightarrow> back (sys_sbrk im p)
     | SysFstat \<Rightarrow> back (sys_fstat im p)
     | SysChdir \<Rightarrow> back (sys_chdir im p)
     | SysPipe \<Rightarrow> back (sys_pipe im file_bytes p)
     | SysUnlink \<Rightarrow> back (sys_unlink im p)
     | SysLink \<Rightarrow> back (sys_link im p)
     | SysMkdir \<Rightarrow> back (sys_mkdir im p)
     | _ \<Rightarrow> panicp ''Invalid syscall id'')"

definition handle_syscall :: "image \<Rightarrow> (vfile \<Rightarrow> 8 word list) \<Rightarrow> ('z kfile_scheme, bool) prog" where
  "handle_syscall im file_bytes = bindp myproc (\<lambda>p. bindp (syscall im file_bytes p) (\<lambda>r. case r of
     None \<Rightarrow> retp False
   | Some (Inr n) \<Rightarrow> thenp (tf_write p (TF_a 0) n) (retp True)
   | Some (Inl _) \<Rightarrow> thenp (tf_write p (TF_a 0) (2 ^ 64 - 1)) (retp True)))"

end
