(* ===== verification/Trap.thy ===== *)
theory Trap
  imports Exec Hart Virtio
begin

text \<open>
  Traps (\<open>trap.rs\<close>), the interrupt controller (\<open>driver/plic.rs\<close>), the shutdown device
  (\<open>shutdown.rs\<close>) and the set-up of the kernel page table (\<open>memory/mapping/kernel_map.rs\<close>,
  \<open>ProcManager::proc_mapstacks\<close>). The registers of the hart that the handlers read and write are part of the
  state; \<open>irq\<close> is what the interrupt controller answers to a claim, 0 for nothing.
\<close>

record ktrap = kfile +
  hart_st :: hart
  hartid :: nat
  r_sepc :: nat
  r_scause :: "64 word"
  r_stvec :: nat
  r_sip :: "64 word"
  r_satp :: "64 word"
  irq :: nat
  completed :: "nat list"
  vdisk_st :: vdisk
  virt_test :: "nat list"

definition csrp :: "(hart \<Rightarrow> 64 word) \<Rightarrow> ('z ktrap_scheme, 64 word) prog" where
  "csrp f = getp (\<lambda>s. f (hart_st s))"

definition set_sstatus :: "(64 word \<Rightarrow> 64 word) \<Rightarrow> ('z ktrap_scheme, unit) prog" where
  "set_sstatus f = modp (\<lambda>s. s\<lparr>hart_st := (hart_st s)\<lparr>sstatus := f (sstatus (hart_st s))\<rparr>\<rparr>)"

text \<open>The interrupt controller: a claim takes the pending interrupt.\<close>

definition plic_sclaim :: "nat \<Rightarrow> nat" where
  "plic_sclaim h = PLIC_BASE + 0x201004 + h * 0x2000"

definition plic_senable :: "nat \<Rightarrow> nat" where
  "plic_senable h = PLIC_BASE + 0x2080 + h * 0x100"

definition plic_spriority :: "nat \<Rightarrow> nat" where
  "plic_spriority h = PLIC_BASE + 0x201000 + h * 0x2000"

text \<open>The registers written by \<open>plic_init\<close> and \<open>plic_init_hart\<close>.\<close>

definition plic_init :: "(nat \<times> nat) list" where
  "plic_init = [(PLIC_BASE + UART0_IRQ * 4, 1), (PLIC_BASE + VIRTIO0_IRQ * 4, 1)]"

definition plic_init_hart :: "nat \<Rightarrow> (nat \<times> nat) list" where
  "plic_init_hart h = [(plic_senable h, 2 ^ UART0_IRQ + 2 ^ VIRTIO0_IRQ), (plic_spriority h, 0)]"

definition plic_claim :: "('z ktrap_scheme, nat option) prog" where
  "plic_claim = bindp (getp irq) (\<lambda>i. thenp (modp (\<lambda>s. s\<lparr>irq := 0\<rparr>)) (retp (if i = 0 then None else Some i)))"

definition plic_complete :: "nat \<Rightarrow> ('z ktrap_scheme, unit) prog" where
  "plic_complete i = modp (\<lambda>s. s\<lparr>completed := completed s @ [i]\<rparr>)"

definition disk_intrp :: "('z ktrap_scheme, unit) prog" where
  "disk_intrp s = bnd (vdisk_intr (vdisk_st s, procs s)) (\<lambda>(d, ps). Ret ((), s\<lparr>vdisk_st := d, procs := ps\<rparr>))"

definition external_intr :: "('z ktrap_scheme, unit) prog" where
  "external_intr = bindp plic_claim (\<lambda>c. case c of None \<Rightarrow> retp ()
     | Some i \<Rightarrow> thenp (if i = VIRTIO0_IRQ then disk_intrp else if i = UART0_IRQ then uart_intr else panicp ''Unresolved interrupt'')
         (plic_complete i))"

definition clock_intr :: "('z ktrap_scheme, unit) prog" where
  "clock_intr = bindp (getp ticks) (\<lambda>t. bindp (liftp (uadd t 1)) (\<lambda>n. modp (\<lambda>s. s\<lparr>ticks := n\<rparr>)))"

definition clear_ssip :: "('z ktrap_scheme, unit) prog" where
  "clear_ssip = modp (\<lambda>s. s\<lparr>r_sip := r_sip s AND NOT (push_bit 1 1)\<rparr>)"

definition soft_intr :: "('z ktrap_scheme, unit) prog" where
  "soft_intr = bindp (getp hartid) (\<lambda>h. thenp (if h = 0 then clock_intr else retp ()) clear_ssip)"

text \<open>
  \<open>user_trap\<close>. The result says how it goes on: back to user space, or in the scheduler. The parameters are
  the addresses of \<open>kernelvec\<close>, and of \<open>uservec\<close> and \<open>userret\<close> relative to the trampoline.
\<close>

datatype trap_end = ToUser nat nat | ToScheduler

definition user_trap_ret :: "image \<Rightarrow> nat \<Rightarrow> ('z ktrap_scheme, trap_end) prog" where
  "user_trap_ret im uservec_off = bindp myproc (\<lambda>p.
     thenp (set_sstatus intr_off) (thenp (modp (\<lambda>s. s\<lparr>r_stvec := TRAMPOLINE + uservec_off\<rparr>))
     (bindp (getp (\<lambda>s. (r_satp s, hartid s))) (\<lambda>(sa, h). thenp (pdata_user_init im (unat sa) h p)
     (thenp (set_sstatus (\<lambda>x. user_intr_on (clear_spp x)))
     (bindp (tf_read p TF_epc) (\<lambda>epc. thenp (modp (\<lambda>s. s\<lparr>r_sepc := epc\<rparr>))
     (bindp (proc_at p) (\<lambda>x. bindp (unwrapp ''unwrap'' (pagetable (pdata x))) (\<lambda>root.
      retp (ToUser TRAPFRAME (unat (as_satp root)))))))))))))"

definition exit_or :: "image \<Rightarrow> nat \<Rightarrow> ('z ktrap_scheme, trap_end) prog \<Rightarrow> ('z ktrap_scheme, trap_end) prog" where
  "exit_or im p k = bindp (killedp p) (\<lambda>b. if b then thenp (trap_exit im (2 ^ 64 - 1)) (retp ToScheduler) else k)"

definition user_trap :: "image \<Rightarrow> (vfile \<Rightarrow> 8 word list) \<Rightarrow> nat \<Rightarrow> nat \<Rightarrow> ('z ktrap_scheme, trap_end) prog" where
  "user_trap im file_bytes kernelvec uservec_off =
     bindp (getp (\<lambda>s. (r_sepc s, r_scause s))) (\<lambda>(pc, sc). bindp (csrp sstatus) (\<lambda>st.
     thenp (assertp (is_from_user st) ''user_trap(): not from user mode'')
     (thenp (modp (\<lambda>s. s\<lparr>r_stvec := kernelvec\<rparr>)) (bindp myproc (\<lambda>p. bindp (proc_at p) (\<lambda>x. thenp (assertp (utf8_valid (pname (pdata x))) ''unwrap'') (thenp (tf_write p TF_epc pc)
     (let fin = exit_or im p (user_trap_ret im uservec_off) in
      case cause (i_bf64 im) sc of
        TException UserEnvCall \<Rightarrow> exit_or im p
          (bindp (liftp (uadd pc 4)) (\<lambda>pc'. thenp (tf_write p TF_epc pc') (thenp (set_sstatus intr_on)
          (bindp (handle_syscall im file_bytes) (\<lambda>back. if back then fin else retp ToScheduler)))))
      | TInterrupt SupervisorExternal \<Rightarrow> thenp external_intr fin
      | TInterrupt SupervisorSoft \<Rightarrow> thenp soft_intr (exit_or im p (thenp (yielding p) (retp ToScheduler)))
      | _ \<Rightarrow> thenp (upd_proc p (set_killed True)) fin))))))))"

text \<open>\<open>system_reset\<close>: the value written to the test device, after which the machine does not go on.\<close>

definition TEST_FAIL :: nat where "TEST_FAIL = 0x3333"

definition TEST_PASS :: nat where "TEST_PASS = 0x5555"

definition TEST_RESET :: nat where "TEST_RESET = 0x7777"

definition reset_value :: "nat \<Rightarrow> nat \<Rightarrow> nat" where
  "reset_value ty reason = (if reason = 1 then TEST_FAIL else if ty = 0 then TEST_PASS
     else if ty = 1 \<or> ty = 2 then TEST_RESET else TEST_FAIL)"

definition system_reset :: "nat \<Rightarrow> nat \<Rightarrow> ('z ktrap_scheme, unit) prog" where
  "system_reset ty reason = thenp (modp (\<lambda>s. s\<lparr>virt_test := virt_test s @ [reset_value ty reason]\<rparr>))
     (panicp ''internal error: entered unreachable code'')"

definition try_yield_proc :: "('z ktrap_scheme, bool) prog" where
  "try_yield_proc = bindp (getp cur) (\<lambda>c. case c of None \<Rightarrow> retp False
     | Some p \<Rightarrow> bindp (proc_at p) (\<lambda>x. if pstate (pmeta x) = RUNNING then thenp (yielding p) (retp True) else retp False))"

text \<open>\<open>kernel_trap\<close>; the result says whether the process has yielded before the handler goes on.\<close>

definition kernel_trap :: "image \<Rightarrow> nat \<Rightarrow> ('z ktrap_scheme, bool) prog" where
  "kernel_trap im which = bindp (getp (\<lambda>s. (r_sepc s, r_scause s))) (\<lambda>(pc, sc). bindp (csrp sstatus) (\<lambda>st.
     thenp (assertp (is_from_supervisor st) ''not from supervisor mode'')
     (thenp (assertp (\<not> intr_get st) ''kerneltrap(): interrupts enabled'')
     (bindp (case cause (i_bf64 im) sc of
         TException Breakpoint \<Rightarrow> bindp (liftp (uadd pc 2)) (\<lambda>pc'. retp (pc', False))
       | TException LoadFault \<Rightarrow> panicp ''Load Fault!''
       | TException LoadPageFault \<Rightarrow> panicp ''[Panic] Load Page Fault!''
       | TException StorePageFault \<Rightarrow> panicp ''[Panic] Store Page Fault!''
       | TException KernelEnvCall \<Rightarrow>
           if which = 8 then thenp (system_reset 0 0) (retp (pc, False))
           else if which = 9 then thenp (system_reset 1 0) (retp (pc, False))
           else panicp ''Unresolved Kernel Syscall!''
       | TException InstructionFault \<Rightarrow> panicp ''Instruction Fault''
       | TException InstructionPageFault \<Rightarrow> panicp ''explicit panic''
       | TInterrupt SupervisorExternal \<Rightarrow> thenp external_intr (retp (pc, False))
       | TInterrupt SupervisorSoft \<Rightarrow> thenp soft_intr (bindp try_yield_proc (\<lambda>y. retp (pc, y)))
       | _ \<Rightarrow> panicp ''Unresolved Trap!'')
     (\<lambda>(pc', y). thenp (modp (\<lambda>s. s\<lparr>r_sepc := pc'\<rparr>)) (thenp (set_sstatus (\<lambda>_. st)) (retp y)))))))"

text \<open>
  The kernel page table: devices, the kernel text up to \<open>etext\<close>, the rest of the memory, the trampoline
  and the kernel stacks.
\<close>

definition new_stack :: "8 word bitops \<Rightarrow> vm \<Rightarrow> (nat \<times> vm) outcome" where
  "new_stack bf st = bnd (box_alloc bf (heap st) stack_layout) (\<lambda>(p, h).
     Ret (p, st\<lparr>ram := write_bytes (ram st) p (replicate (lsize stack_layout) 0), heap := h\<rparr>))"

primrec proc_mapstacks :: "nat \<Rightarrow> 8 word bitops \<Rightarrow> nat \<Rightarrow> nat \<Rightarrow> vm \<Rightarrow> vm outcome" where
  "proc_mapstacks 0 bf root pos st = Ret st"
| "proc_mapstacks (Suc n) bf root pos st = bnd (new_stack bf st) (\<lambda>(pa, st1). bnd (kernel_stack pos) (\<lambda>va.
     bnd (kernel_map bf st1 root va pa (PGSIZE * 4) (PTE_R OR PTE_W)) (proc_mapstacks n bf root (Suc pos))))"

definition kernel_regions :: "nat \<Rightarrow> nat \<Rightarrow> (nat \<times> nat \<times> nat \<times> 64 word) list" where
  "kernel_regions etext trampoline =
     [(VIRT_TEST, VIRT_TEST, PGSIZE, PTE_R OR PTE_W),
      (UART0, UART0, PGSIZE, PTE_R OR PTE_W),
      (VIRTIO0, VIRTIO0, PGSIZE, PTE_R OR PTE_W),
      (ECAM, ECAM, 0x10000000, PTE_R OR PTE_W),
      (E1000_REGS, E1000_REGS, 0x20000, PTE_R OR PTE_W),
      (CLINT, CLINT, 0x10000, PTE_R OR PTE_W),
      (PLIC_BASE, PLIC_BASE, 0x400000, PTE_R OR PTE_W),
      (KERNEL_BASE, KERNEL_BASE, etext - KERNEL_BASE, PTE_R OR PTE_X),
      (etext, etext, PHYSTOP - etext, PTE_R OR PTE_W),
      (TRAMPOLINE, trampoline, PGSIZE, PTE_R OR PTE_X)]"

definition map_kernel :: "8 word bitops \<Rightarrow> nat \<Rightarrow> nat \<Rightarrow> nat \<Rightarrow> vm \<Rightarrow> vm outcome" where
  "map_kernel bf root etext trampoline st =
     bnd (fold (\<lambda>(va, pa, sz, perm) r. bnd r (\<lambda>st. kernel_map bf st root va pa sz perm)) (kernel_regions etext trampoline) (Ret st))
       (proc_mapstacks NPROC bf root 0)"

definition kvm_init :: "8 word bitops \<Rightarrow> nat \<Rightarrow> nat \<Rightarrow> nat \<Rightarrow> vm \<Rightarrow> vm outcome" where
  "kvm_init bf root etext trampoline st = map_kernel bf root etext trampoline st"

definition kvm_init_hart :: "nat \<Rightarrow> ('z ktrap_scheme, unit) prog" where
  "kvm_init_hart root = modp (\<lambda>s. s\<lparr>r_satp := as_satp root\<rparr>)"

end
