(* ===== verification/Mbuf.thy ===== *)
theory Mbuf
  imports FsParams
begin

text \<open>
  Packet buffers (\<open>net/mbuf.rs\<close>): \<open>head\<close> is a position in the backing store of \<open>MBUF_SIZE\<close> bytes at
  address \<open>base\<close>, \<open>mlen\<close> the length of the data.
\<close>

definition MBUF_SIZE :: nat where "MBUF_SIZE = 2048"

definition MBUF_DEFAULT_HEADROOM :: nat where "MBUF_DEFAULT_HEADROOM = 128"

record mbuf =
  mbase :: nat
  mhead :: nat
  mlen :: nat

definition mbuf_allocate :: "nat \<Rightarrow> nat \<Rightarrow> string + mbuf" where
  "mbuf_allocate base headroom = (if headroom > MBUF_SIZE then Inl ''headroom is larger than MBUF_SIZE.''
     else Inr \<lparr>mbase = base, mhead = base + headroom, mlen = 0\<rparr>)"

definition mbuf_pull :: "mbuf \<Rightarrow> nat \<Rightarrow> (nat option \<times> mbuf) outcome" where
  "mbuf_pull m len = (if mlen m < len then Ret (None, m)
     else bnd (uadd (mhead m) len) (\<lambda>h. Ret (Some (mhead m), m\<lparr>mlen := mlen m - len, mhead := h\<rparr>)))"

definition mbuf_push :: "mbuf \<Rightarrow> nat \<Rightarrow> (nat \<times> mbuf) outcome" where
  "mbuf_push m len = bnd (usub (mhead m) len) (\<lambda>h. if h < mbase m then Panic ''mbuf_push():''
     else bnd (add32 (mlen m) len) (\<lambda>l. Ret (h, m\<lparr>mhead := h, mlen := l\<rparr>)))"

definition mbuf_put :: "mbuf \<Rightarrow> nat \<Rightarrow> (nat \<times> mbuf) outcome" where
  "mbuf_put m len = bnd (uadd (mhead m) (mlen m)) (\<lambda>tmp. bnd (add32 (mlen m) len) (\<lambda>l.
     if l > MBUF_SIZE then Panic ''MBUF put(): len out of the limit of MBUF_SIZE.'' else Ret (tmp, m\<lparr>mlen := l\<rparr>)))"

definition mbuf_trim :: "mbuf \<Rightarrow> nat \<Rightarrow> (nat option \<times> mbuf) outcome" where
  "mbuf_trim m len = (if len > mlen m then Ret (None, m)
     else bnd (uadd (mhead m) (mlen m - len)) (\<lambda>a. Ret (Some a, m\<lparr>mlen := mlen m - len\<rparr>)))"

end
