(* ===== verification/Spec2Isabelle.thy ===== *)
theory Spec2Isabelle
  imports VmProps BcacheProps LogProps HartProps FsProps FilesProps ConsoleProps VirtioProps ProcProps Trap Mbuf
begin

text \<open>
  A model of the kernel of xv6-rust, with the properties that make it correct. The sources are under
  \<open>src/\<close>: the heap allocator in \<open>src/allocator\<close>, the kernel in \<open>src/kernel/src\<close>. File names below are
  relative to \<open>src/kernel/src\<close> unless they start with \<open>allocator\<close>.

  \<^bold>\<open>The program.\<close> A buddy allocator manages the memory behind the kernel image; it is the global allocator
  of the kernel. Page tables and user pages are boxes on this heap. Processes have a page table, a
  trap frame and open files; they enter the kernel by traps, which lead to system calls, to the
  interrupt handlers of the console and the disk, or to the scheduler. Files, pipes and devices are
  reached through open files; inodes and directories live in disk blocks, which are read and written
  through a buffer cache; changes of a system call are collected in a log and committed together. Spin
  locks protect data shared by the harts, sleep locks the buffers and inodes.

  \<^bold>\<open>How programs are modelled.\<close> A routine that may panic returns an \<open>outcome\<close> (\<open>Ret\<close> or \<open>Panic\<close>, theory
  \<open>Prelude\<close>). The kernel is built with the \<open>dev\<close> profile: an overflow of checked arithmetic, an index
  out of range and a failed assertion are panics; types that wrap in the source (\<open>Wrapping\<close>, bit masks,
  page table entries) are words. A routine on the state of the kernel is a \<open>prog\<close> (theory \<open>Kprog\<close>), a
  function from the state to an outcome of result and new state; \<open>tryp\<close> is the operator \<open>?\<close>, \<open>forp\<close> a \<open>for\<close> loop
  with early return. The state grows by record extension in the order of the layers: \<open>kproc\<close> (process table,
  memory and heap), \<open>fsdev\<close> (buffer cache, super block, log), \<open>kern\<close> (inode cache), \<open>kdev\<close> (serial port and
  console), \<open>kfile\<close> (open files, pipes, device table, ticks), \<open>ktrap\<close> (registers, disk, interrupt controller).
  A routine that must wait until another process acts ends with the panic \<open>''sleep''\<close> in the
  sequential model; where a property depends on the interleaving, the steps are an inductive
  relation (\<open>lock_step\<close>, \<open>sleep_step\<close>), and the disk driver is split at its sleep (\<open>rw_begin\<close>, \<open>rw_end\<close>).
  Addresses fixed by the linker are fields of \<open>image\<close>. The crate \<open>bit_field\<close> is not part of the sources:
  its operations are a parameter \<open>bf\<close>, and the locale \<open>bit_field\<close> states their documented behaviour;
  \<open>std_bitops\<close> satisfies it.

  \<^bold>\<open>Theories and sources.\<close>
  \<^item> \<open>Prelude\<close>, \<open>Kprog\<close>, \<open>Frames\<close>: the two monads with their rules, and the rule sets \<open>quiet\<close> (a program never
    ends with a given panic) and \<open>frame\<close> (a program keeps an invariant). \<open>Params\<close>, \<open>FsParams\<close>: the constants
    of \<open>arch/riscv/qemu\<close> and the access to bytes of blocks. \<open>BlockWords\<close>: arrays of words in a block.
  \<^item> \<open>FreeList\<close> (\<open>allocator/src/list.rs\<close>), \<open>BuddyTree\<close> (the abstract tree of blocks), \<open>Buddy\<close>, \<open>BuddyRefine\<close>,
    \<open>BuddyInit\<close> (\<open>allocator/src/lib.rs\<close>), \<open>KernelHeap\<close> (\<open>memory/kalloc.rs\<close>). The allocator refines the tree; the locale
    \<open>block_allocator\<close> is what clients rely on. Shown: \<open>alloc\<close> returns fresh disjoint aligned blocks and fails only
    when no block is left, \<open>dealloc\<close> frees exactly the block, both together restore the heap, \<open>init\<close> establishes
    the invariant, and owners cannot disturb the heap by writing to their blocks.
  \<^item> \<open>Pte\<close>, \<open>PageTable\<close>, \<open>PageTableWf\<close>, \<open>PageTableMap\<close>, \<open>UvmCopy\<close>, \<open>PageSupply\<close>, \<open>UserCopy\<close>, \<open>VmProps\<close>
    (\<open>memory/address.rs\<close>, \<open>memory/mapping\<close>, \<open>memory/mod.rs\<close>, \<open>misc.rs\<close>). Physical memory is an array of 64-bit
    cells. Shown: mapping, growing and copying memory change exactly the translations they should, take
    pages that were not in use, and return when the heap suffices; the copies between kernel and user
    memory write exactly the bytes, and for which arguments \<open>copy_in\<close> panics.
  \<^item> \<open>Bcache\<close>, \<open>BcacheLru\<close>, \<open>BlockCache\<close>, \<open>BcacheProps\<close> (\<open>fs/bio.rs\<close>). The linked control blocks are a list in
    least-recently-used order; the locale \<open>block_cache\<close> is the contract of the cache, which the log uses.
  \<^item> \<open>FsDev\<close>, \<open>LogSteps\<close>, \<open>LogCommit\<close>, \<open>LogProps\<close> (\<open>fs/superblock.rs\<close>, \<open>fs/log.rs\<close>, \<open>fs/mod.rs\<close>). Shown: wherever a
    crash cuts the writes of a commit or of a recovery, recovery gives the disk with all or none of the
    blocks of the transaction; \<open>log_write\<close> and \<open>end_op\<close> keep the log consistent.
  \<^item> \<open>Dinode\<close>, \<open>InodeCache\<close>, \<open>Directory\<close>, \<open>FsProps\<close> (\<open>fs/dinode.rs\<close>, \<open>fs/bitmap.rs\<close>, \<open>fs/inode.rs\<close>). Shown: the layout
    of inodes on disk, that an inode has one entry in the cache, path names and names of entries, and
    that all loops end.
  \<^item> \<open>Console\<close>, \<open>ConsoleProps\<close> (\<open>driver/uart.rs\<close>, \<open>driver/console.rs\<close>): the output ring is a queue, the input
    ring keeps its indices in order. \<open>Files\<close>, \<open>FilesProps\<close>, \<open>SysFile\<close> (\<open>fs/file.rs\<close>, \<open>fs/pipe.rs\<close>, \<open>fs/devices.rs\<close>,
    \<open>fs/stat.rs\<close>, \<open>syscall/file.rs\<close>): open files, pipes and the system calls on them.
  \<^item> \<open>KData\<close>, \<open>Proc\<close>, \<open>ProcProps\<close>, \<open>Exec\<close> (\<open>process\<close>, \<open>syscall\<close>): the process table, creation, fork, exit, wait,
    growth of memory, loading of programs and the dispatch of system calls.
  \<^item> \<open>Hart\<close>, \<open>HartProps\<close> (\<open>process/cpu.rs\<close>, \<open>lock\<close>, \<open>arch/riscv/register\<close>): spin locks in every interleaving of
    the harts, nesting of disabled interrupts, sleep locks.
  \<^item> \<open>Virtio\<close>, \<open>VirtioProps\<close> (\<open>driver/virtio_disk.rs\<close>): requests give back the descriptors they take. \<open>Trap\<close>
    (\<open>trap.rs\<close>, \<open>driver/plic.rs\<close>, \<open>shutdown.rs\<close>, \<open>memory/mapping/kernel_map.rs\<close>). \<open>Mbuf\<close> (\<open>net/mbuf.rs\<close>).

  \<^bold>\<open>Locales.\<close> \<open>bit_field\<close> (interpreted by \<open>std_bit\<close>), \<open>buddy_bits\<close> (the allocator over any such operations,
  \<open>std_buddy\<close>), \<open>block_allocator\<close> (sublocale of \<open>buddy_bits\<close>, \<open>std_heap\<close>) and \<open>block_cache\<close> (\<open>bc\<close>).

  \<^bold>\<open>Bounds of loops.\<close> Loops whose end depends on the data have a bound, and run out of it with a panic
  \<open>''endless loop''\<close> or \<open>''endless list''\<close>. Walks of the lists of the cache: the number of control blocks, each of which
  is on the list once. \<open>namex\<close>: the length of the path, of which each round takes at least a byte. Reading
  and writing an inode: the number of bytes, of which each round copies at least one. These bounds are
  shown to suffice from every state (\<open>fs_loops_end\<close>), and for the list walks from every consistent cache.
  Loading a segment and writing a file: the number of bytes. The length of a string: the rest of the
  physical memory. A chain of descriptors: \<open>NUM\<close> + 1. The used ring: 65536, the range of its index. The transmitter: \<open>tx_room\<close>, the bytes it
  takes. Erasing a line: the distance of the two indices. The loops of the heap and of the page tables
  are total functions with termination proofs.

  \<^bold>\<open>What the device does.\<close> The disk of the file system layers is a function from block numbers to blocks
  that a request reads or writes at once; the rings of the driver are modelled in \<open>Virtio\<close> on their own,
  and \<open>dev_serve\<close> is the step of the device. A crash happens between two block writes.

  \<^bold>\<open>Not modelled.\<close> The boot code in machine mode and the access to single registers (assembly without
  a state to reason about), the context switch and the endless loop of the scheduler (its round is
  modelled), printing, the set-up of the serial port, the driver of the network card and of the PCI bus
  (not called by the kernel, mostly commented out), the second copy of the allocator in
  \<open>src/buddy-allocator\<close>, the user programs and their library, and the program that builds the file
  system image (C programs outside of the kernel).
\<close>

end
